(* ===== verification/Prelude.thy ===== *)
theory Prelude
  imports Main "HOL-Library.Word" "HOL-Library.List_Lexorder" "HOL-Library.Multiset"
begin

text \<open>
  Shared vocabulary of the development: the machine types of the repository, C++ exceptions
  and undefined behaviour as values of an error type, the ordered associative container
  \<open>std::map\<close>, and the generic facts about lists the components rely on.
\<close>

section \<open>Machine types\<close>

text \<open>
  The typedefs of \<^verbatim>\<open>src/include/hotstuff/xdr/types.x\<close>. The fixed size opaque arrays
  (\<open>Hash\<close>, \<open>Signature\<close>, \<open>PublicKey\<close>, \<open>SecretKey\<close>) are byte lists; the lengths are stated where
  a component depends on them.
\<close>

type_synonym byte = "8 word"
type_synonym bytes = "byte list"
type_synonym uint32 = "32 word"
type_synonym uint64 = "64 word"
type_synonym Hash = bytes
type_synonym Signature = bytes
type_synonym PublicKey = bytes
type_synonym SecretKey = bytes
type_synonym ReplicaID = uint32

definition MAX_REPLICAS :: uint32 where
  "MAX_REPLICAS = 32"

definition UNKNOWN_REPLICA :: ReplicaID where
  "UNKNOWN_REPLICA = 32"

text \<open>The value-initialised \<open>Hash()\<close>: thirty-two zero bytes.\<close>

definition zero_hash :: Hash where
  "zero_hash = replicate 32 0"

section \<open>Exceptions as values\<close>

text \<open>
  One constructor for each way a call can fail to return normally: the exceptions the sources
  throw, the exceptions their containers throw, and the undefined or non-returning behaviour
  that the C++ would show (a null or empty-optional dereference, a second acquisition of a
  held \<open>std::mutex\<close>, a loop that does not end).
\<close>

datatype error =
    RuntimeError string
  | InvalidArgument string
  | OutOfRange
  | XdrError
  | NullDeref
  | DanglingIterator
  | Deadlock
  | Nonterminating

type_synonym 'a result = "error + 'a"

definition bindE :: "'a result \<Rightarrow> ('a \<Rightarrow> 'b result) \<Rightarrow> 'b result" where
  "bindE m f = (case m of Inl e \<Rightarrow> Inl e | Inr x \<Rightarrow> f x)"

definition of_option :: "error \<Rightarrow> 'a option \<Rightarrow> 'a result" where
  "of_option e x = (case x of None \<Rightarrow> Inl e | Some y \<Rightarrow> Inr y)"

text \<open>A range-based \<open>for\<close> loop whose body may throw.\<close>

fun foldE :: "('a \<Rightarrow> 's \<Rightarrow> 's result) \<Rightarrow> 'a list \<Rightarrow> 's \<Rightarrow> 's result" where
  "foldE f [] s = Inr s"
| "foldE f (x # xs) s = bindE (f x s) (foldE f xs)"

definition returns :: "'a result \<Rightarrow> bool" where
  "returns m \<longleftrightarrow> (\<exists>x. m = Inr x)"

section \<open>std::map and std::set\<close>

text \<open>
  A \<open>std::map\<close> is the list of its entries in iteration order, that is in strictly ascending key
  order. \<open>emplace\<close> leaves an existing entry alone.
\<close>

type_synonym ('k, 'v) omap = "('k \<times> 'v) list"

definition omap_wf :: "('k::linorder, 'v) omap \<Rightarrow> bool" where
  "omap_wf m \<longleftrightarrow> sorted_wrt (<) (map fst m)"

fun omap_emplace :: "'k::linorder \<Rightarrow> 'v \<Rightarrow> ('k, 'v) omap \<Rightarrow> ('k, 'v) omap" where
  "omap_emplace k v [] = [(k, v)]"
| "omap_emplace k v ((k', v') # m) =
     (if k < k' then (k, v) # (k', v') # m
      else if k = k' then (k', v') # m
      else (k', v') # omap_emplace k v m)"

definition omap_find :: "('k, 'v) omap \<Rightarrow> 'k \<Rightarrow> 'v option" where
  "omap_find m k = map_of m k"

definition omap_erase :: "'k \<Rightarrow> ('k, 'v) omap \<Rightarrow> ('k, 'v) omap" where
  "omap_erase k m = filter (\<lambda>e. fst e \<noteq> k) m"

fun oset_insert :: "'k::linorder \<Rightarrow> 'k list \<Rightarrow> 'k list" where
  "oset_insert k [] = [k]"
| "oset_insert k (k' # m) =
     (if k < k' then k # k' # m else if k = k' then k' # m else k' # oset_insert k m)"

section \<open>The swap-with-last removal loop\<close>

text \<open>
  Two components drop the entries of a vector that satisfy a test with the same loop: overwrite
  the entry by the last one, shorten the vector, and look at the same position again.
\<close>

function swap_remove :: "('a \<Rightarrow> bool) \<Rightarrow> nat \<Rightarrow> 'a list \<Rightarrow> 'a list" where
  "swap_remove drp i xs =
     (if i < length xs
      then if drp (xs ! i) then swap_remove drp i (butlast (xs[i := last xs]))
           else swap_remove drp (Suc i) xs
      else xs)"
  by pat_completeness auto
termination
  by (relation "measure (\<lambda>(drp, i, xs). length xs - i)") auto

declare swap_remove.simps [simp del]

section \<open>Facts about results\<close>

named_theorems result_simps \<open>normalisation of computations that may throw\<close>

lemma bindE_Inl [simp, result_simps]: "bindE (Inl e) f = Inl e"
  by (simp add: bindE_def)

lemma bindE_Inr [simp, result_simps]: "bindE (Inr x) f = f x"
  by (simp add: bindE_def)

text \<open>Evaluation runs the first computation of a sequence before it looks at the others.\<close>

lemma bindE_first: "x = y \<Longrightarrow> bindE x f = bindE y f"
  by simp

lemma bindE_eq_Inr: "bindE m f = Inr y \<longleftrightarrow> (\<exists>x. m = Inr x \<and> f x = Inr y)"
  by (cases m) auto

lemma bindE_eq_Inl:
  "bindE m f = Inl e \<longleftrightarrow> m = Inl e \<or> (\<exists>x. m = Inr x \<and> f x = Inl e)"
  by (cases m) auto

lemma bindE_assoc: "bindE (bindE m f) g = bindE m (\<lambda>x. bindE (f x) g)"
  by (cases m) auto

lemma bindE_InrE [elim]:
  assumes "bindE m f = Inr y"
  obtains x where "m = Inr x" and "f x = Inr y"
  using assms by (auto simp: bindE_eq_Inr)

lemma of_option_simps [simp, result_simps]:
  "of_option e None = Inl e"
  "of_option e (Some x) = Inr x"
  by (simp_all add: of_option_def)

lemma of_option_eq_Inr [simp]: "of_option e x = Inr y \<longleftrightarrow> x = Some y"
  by (cases x) auto

lemma returns_simps [simp]: "returns (Inr x)" "\<not> returns (Inl e)"
  by (simp_all add: returns_def)

lemma foldE_append:
  "foldE f (xs @ ys) s = bindE (foldE f xs s) (foldE f ys)"
  by (induction xs arbitrary: s) (auto simp: bindE_def split: sum.splits)

lemma foldE_invariant:
  assumes "foldE f xs s = Inr t" and "P s"
    and "\<And>x s s'. x \<in> set xs \<Longrightarrow> P s \<Longrightarrow> f x s = Inr s' \<Longrightarrow> P s'"
  shows "P t"
  using assms
proof (induction xs arbitrary: s)
  case Nil
  then show ?case by simp
next
  case (Cons x xs)
  from Cons.prems(1) obtain s' where "f x s = Inr s'" and rest: "foldE f xs s' = Inr t"
    by auto
  moreover have "P s'"
    using Cons.prems(2,3) \<open>f x s = Inr s'\<close> by (meson list.set_intros(1))
  ultimately show ?case
    using Cons.IH [OF rest] Cons.prems(3) by (meson list.set_intros(2))
qed

section \<open>Facts about the ordered containers\<close>

lemma omap_wf_Nil [simp]: "omap_wf []"
  by (simp add: omap_wf_def)

lemma omap_wf_Cons:
  "omap_wf ((k, v) # m) \<longleftrightarrow> (\<forall>k' \<in> fst ` set m. k < k') \<and> omap_wf m"
  by (auto simp: omap_wf_def)

lemma set_omap_emplace:
  "fst ` set (omap_emplace k v m) = insert k (fst ` set m)"
  by (induction k v m rule: omap_emplace.induct) auto

lemma omap_emplace_subset: "set (omap_emplace k v m) \<subseteq> insert (k, v) (set m)"
  by (induction k v m rule: omap_emplace.induct) auto

lemma omap_emplace_superset: "set m \<subseteq> set (omap_emplace k v m)"
  by (induction k v m rule: omap_emplace.induct) auto

lemma omap_emplace_wf [simp, intro]: "omap_wf m \<Longrightarrow> omap_wf (omap_emplace k v m)"
proof (induction k v m rule: omap_emplace.induct)
  case (1 k v)
  then show ?case by (simp add: omap_wf_Cons)
next
  case (2 k v k' v' m)
  then show ?case
    by (auto simp: omap_wf_Cons set_omap_emplace simp del: omap_emplace.simps)
      (auto simp: omap_wf_Cons set_omap_emplace dest: order.strict_trans)
qed

lemma omap_find_Nil [simp]: "omap_find [] k = None"
  by (simp add: omap_find_def)

lemma omap_find_emplace:
  assumes "omap_wf m"
  shows "omap_find (omap_emplace k v m) k' =
    (if k' = k \<and> omap_find m k = None then Some v else omap_find m k')"
  using assms
proof (induction k v m rule: omap_emplace.induct)
  case (1 k v)
  then show ?case by (simp add: omap_find_def)
next
  case (2 k v j w m)
  have fresh: "map_of m k = None" if "k < j"
    using "2.prems" that by (auto simp: omap_wf_Cons map_of_eq_None_iff)
  show ?case
    using "2" fresh by (auto simp: omap_find_def omap_wf_Cons)
qed

lemma omap_find_in_set: "omap_find m k = Some v \<Longrightarrow> (k, v) \<in> set m"
  by (auto simp: omap_find_def dest: map_of_SomeD)

lemma omap_find_None_iff: "omap_find m k = None \<longleftrightarrow> k \<notin> fst ` set m"
  by (simp add: omap_find_def map_of_eq_None_iff)

lemma omap_wf_distinct: "omap_wf m \<Longrightarrow> distinct (map fst m)"
  by (simp add: omap_wf_def strict_sorted_iff)

lemma omap_erase_wf [simp, intro]: "omap_wf m \<Longrightarrow> omap_wf (omap_erase k m)"
  unfolding omap_wf_def omap_erase_def
  by (induction m) auto

lemma omap_find_erase:
  "omap_find (omap_erase k m) k' = (if k' = k then None else omap_find m k')"
  by (induction m) (auto simp: omap_find_def omap_erase_def)

lemma length_omap_emplace:
  assumes "omap_wf m"
  shows "length (omap_emplace k v m) =
    (if omap_find m k = None then Suc (length m) else length m)"
  using assms
proof (induction k v m rule: omap_emplace.induct)
  case (1 k v)
  then show ?case by simp
next
  case (2 k v j w m)
  have fresh: "map_of m k = None" if "k < j"
    using "2.prems" that by (auto simp: omap_wf_Cons map_of_eq_None_iff)
  show ?case
    using "2" fresh by (auto simp: omap_find_def omap_wf_Cons)
qed

lemma set_oset_insert [simp]: "set (oset_insert k m) = insert k (set m)"
  by (induction k m rule: oset_insert.induct) auto

lemma oset_insert_sorted:
  "sorted_wrt (<) m \<Longrightarrow> sorted_wrt (<) (oset_insert k m)"
  by (induction k m rule: oset_insert.induct) (auto dest: order.strict_trans)

section \<open>Facts about the removal loop\<close>

lemma swap_with_last:
  assumes "i < length xs"
  shows "mset (drop i (butlast (xs[i := last xs]))) = mset (drop (Suc i) xs)"
    and "take i (butlast (xs[i := last xs])) = take i xs"
proof -
  obtain ys x zs where xs: "xs = ys @ x # zs" and i: "length ys = i"
    using assms by (metis id_take_nth_drop length_take min.absorb4)
  show "mset (drop i (butlast (xs[i := last xs]))) = mset (drop (Suc i) xs)"
  proof (cases zs rule: rev_cases)
    case Nil
    then show ?thesis using xs i [symmetric] by simp
  next
    case (snoc ws z)
    then show ?thesis using xs i [symmetric] by (simp add: butlast_append)
  qed
  show "take i (butlast (xs[i := last xs])) = take i xs"
    using xs i [symmetric] by (cases zs rule: rev_cases) (simp_all add: butlast_append)
qed

text \<open>The loop is an in-place \<open>filter\<close>: it keeps exactly the entries that fail the test.\<close>

lemma mset_swap_remove_from:
  "mset (swap_remove drp i xs) =
     mset (take i xs) + filter_mset (\<lambda>x. \<not> drp x) (mset (drop i xs))"
proof (induction drp i xs rule: swap_remove.induct)
  case (1 drp i xs)
  show ?case
  proof (cases "i < length xs")
    case False
    then show ?thesis by (simp add: swap_remove.simps [of drp i xs])
  next
    case True
    have split: "drop i xs = xs ! i # drop (Suc i) xs"
      using True by (simp add: Cons_nth_drop_Suc)
    have pre: "mset (take (Suc i) xs) = mset (take i xs) + {#xs ! i#}"
      using True by (simp add: take_Suc_conv_app_nth)
    show ?thesis
      using "1" True
      by (cases "drp (xs ! i)")
        (simp_all add: swap_remove.simps [of drp i xs] swap_with_last split pre)
  qed
qed

lemma mset_swap_remove:
  "mset (swap_remove drp 0 xs) = filter_mset (\<lambda>x. \<not> drp x) (mset xs)"
  by (simp add: mset_swap_remove_from)

section \<open>Facts about words\<close>

lemma unat_ucast_32: "unat (ucast (x :: 64 word) :: 32 word) = unat x mod 2 ^ 32"
  by (simp add: unsigned_ucast_eq take_bit_eq_mod)

lemma unat_ucast_64: "unat (ucast (x :: 32 word) :: 64 word) = unat x"
  using unsigned_less [of x, where 'a = nat] by (simp add: unsigned_ucast_eq take_bit_eq_mod)

lemma mod_less_self_iff: "0 < m \<Longrightarrow> n mod m < n \<longleftrightarrow> m \<le> (n :: nat)"
  by (metis less_irrefl mod_less mod_less_divisor not_le order_less_le_trans)

text \<open>Storing a 64-bit number in 32 bits loses it exactly when it does not fit.\<close>

lemma ucast_32_less: "ucast (ucast (x :: 64 word) :: 32 word) < x \<longleftrightarrow> 2 ^ 32 \<le> x"
proof -
  have "unat x mod 2 ^ 32 < unat x \<longleftrightarrow> 2 ^ 32 \<le> unat x"
    by (rule mod_less_self_iff) simp
  then show ?thesis by (simp add: word_less_nat_alt word_le_nat_alt unat_ucast_32 unat_ucast_64)
qed

lemma ucast_32_fits: "(x :: 64 word) < 2 ^ 32 \<Longrightarrow> ucast (ucast x :: 32 word) = x"
  by (simp add: word_unat_eq_iff word_less_nat_alt unat_ucast_32 unat_ucast_64)

lemma word_of_nat_inj:
  assumes "x < 2 ^ LENGTH('a::len)" "y < 2 ^ LENGTH('a)"
  shows "(word_of_nat x :: 'a word) = word_of_nat y \<longleftrightarrow> x = y"
  using assms by (simp add: word_of_nat_eq_iff take_bit_nat_eq_self)

section \<open>The contract of an associative container\<close>

text \<open>
  What the users of a container rely on: a lookup after an \<open>emplace\<close> finds the first entry that
  was put under the key, an erased key is gone, and both operations keep the container valid.
\<close>

locale assoc_container =
  fixes cfind :: "'m \<Rightarrow> 'k \<Rightarrow> 'v option"
    and cemplace :: "'k \<Rightarrow> 'v \<Rightarrow> 'm \<Rightarrow> 'm"
    and cerase :: "'k \<Rightarrow> 'm \<Rightarrow> 'm"
    and cinvar :: "'m \<Rightarrow> bool"
  assumes find_emplace: "cinvar m \<Longrightarrow>
      cfind (cemplace k v m) k' =
        (if k' = k \<and> cfind m k = None then Some v else cfind m k')"
    and find_erase: "cinvar m \<Longrightarrow>
      cfind (cerase k m) k' = (if k' = k then None else cfind m k')"
    and invar_emplace: "cinvar m \<Longrightarrow> cinvar (cemplace k v m)"
    and invar_erase: "cinvar m \<Longrightarrow> cinvar (cerase k m)"
begin

lemma emplace_keeps: "cinvar m \<Longrightarrow> cfind m k' = Some w \<Longrightarrow> cfind (cemplace k v m) k' = Some w"
  by (auto simp: find_emplace)

lemma emplace_present:
  "cinvar m \<Longrightarrow> cfind (cemplace k v m) k = Some (case cfind m k of None \<Rightarrow> v | Some w \<Rightarrow> w)"
  by (auto simp: find_emplace split: option.splits)

lemma emplace_twice:
  "cinvar m \<Longrightarrow> cfind (cemplace k w (cemplace k v m)) = cfind (cemplace k v m)"
  by (rule ext) (auto simp: find_emplace invar_emplace)

lemma erase_emplace:
  "cinvar m \<Longrightarrow> cfind m k = None \<Longrightarrow> cfind (cerase k (cemplace k v m)) = cfind m"
  by (rule ext) (auto simp: find_emplace find_erase invar_emplace)

end

interpretation std_map: assoc_container omap_find omap_emplace omap_erase
    "omap_wf :: ('k::linorder, 'v) omap \<Rightarrow> bool"
  by unfold_locales (auto simp: omap_find_emplace omap_find_erase)

end
