(* ===== verification/Externals.thy ===== *)
theory Externals
  imports Prelude
begin

text \<open>
  The wire structures of \<^verbatim>\<open>src/hotstuff/xdr/hotstuff.x\<close>, and the interface to the code that
  is not part of the repository. The latter is one record of functions, an argument of every
  definition that calls such code: libsodium, the XDR marshalling of xdrpp, the big-endian
  helpers, \<open>utils::BitVector\<close>, the LMDB wrapper, and the outcome of the operating system calls
  that may fail. What the theorems need of this code is stated as the named predicates of the
  second half, each the documented behaviour of one library.
\<close>

section \<open>Wire structures\<close>

record PartialCertificate =
  cert_hash :: Hash
  cert_sig :: Signature

record QuorumCertificateWire =
  justify :: Hash
  bmp :: uint32
  wire_sigs :: "Signature list"

record HotstuffBlockHeader =
  parent_hash :: Hash
  header_qc :: QuorumCertificateWire
  body_hash :: Hash

record HotstuffBlockWire =
  header :: HotstuffBlockHeader
  body :: bytes

record VoteMessage =
  msg_vote :: PartialCertificate
  msg_voter :: ReplicaID

record ProposeMessage =
  msg_proposal :: HotstuffBlockWire
  msg_proposer :: ReplicaID

section \<open>The external code\<close>

text \<open>The two databases an \<open>LMDBInstance\<close> opens in its environment.\<close>

datatype dbi = data_dbi | metadata_dbi

text \<open>
  The type variables stand for the private representations of the external classes:
  \<open>'bv\<close> of \<open>utils::BitVector<ReplicaID>\<close>, \<open>'db\<close> of \<open>lmdb::LMDBInstance\<close> and \<open>'tx\<close> of its write
  transactions. A result of \<open>None\<close> is a non-zero return code (libsodium) or a thrown
  \<open>xdr_runtime_error\<close> (xdrpp).
\<close>

record ('bv, 'db, 'tx) env =
  crypto_generichash :: "bytes \<Rightarrow> Hash option"
  crypto_sign_detached :: "bytes \<Rightarrow> SecretKey \<Rightarrow> Signature option"
  crypto_sign_verify_detached :: "Signature \<Rightarrow> bytes \<Rightarrow> PublicKey \<Rightarrow> bool"
  xdr_header_to_opaque :: "HotstuffBlockHeader \<Rightarrow> bytes"
  xdr_body_to_opaque :: "bytes \<Rightarrow> bytes"
  xdr_block_to_opaque :: "HotstuffBlockWire \<Rightarrow> bytes"
  xdr_block_from_opaque :: "bytes \<Rightarrow> HotstuffBlockWire option"
  xdr_qc_to_opaque :: "QuorumCertificateWire \<Rightarrow> bytes"
  xdr_qc_from_opaque :: "bytes \<Rightarrow> QuorumCertificateWire option"
  xdr_uint64_to_opaque :: "uint64 \<Rightarrow> bytes"
  xdr_uint64_from_opaque :: "bytes \<Rightarrow> uint64 option"
  write_unsigned_big_endian :: "uint64 \<Rightarrow> bytes"
  read_unsigned_big_endian :: "bytes \<Rightarrow> uint64"
  bv_empty :: 'bv
  bv_init :: "uint32 \<Rightarrow> 'bv"
  bv_size :: "'bv \<Rightarrow> nat"
  bv_pop :: "'bv \<Rightarrow> ReplicaID \<times> 'bv"
  bv_add :: "ReplicaID \<Rightarrow> 'bv \<Rightarrow> 'bv"
  bv_get :: "'bv \<Rightarrow> uint32"
  lmdb_wbegin :: "'db \<Rightarrow> 'tx"
  lmdb_put :: "dbi \<Rightarrow> bytes \<Rightarrow> bytes \<Rightarrow> 'tx \<Rightarrow> 'tx"
  lmdb_commit_wtxn :: "'tx \<Rightarrow> uint64 \<Rightarrow> 'db \<Rightarrow> 'db"
  lmdb_persisted_round_number :: "'db \<Rightarrow> uint64"
  lmdb_get :: "'db \<Rightarrow> dbi \<Rightarrow> bytes \<Rightarrow> bytes option"
  lmdb_cursor :: "'db \<Rightarrow> dbi \<Rightarrow> (bytes \<times> bytes) list"
  lmdb_create_db :: "string \<Rightarrow> 'db \<Rightarrow> 'db"
  lmdb_open_db :: "string \<Rightarrow> 'db \<Rightarrow> 'db"
  fopen_for_writing_ok :: "string \<Rightarrow> bool"
  remove_all_ok :: "string \<Rightarrow> bool"

section \<open>Documented behaviour of the external code\<close>

text \<open>Unmarshalling inverts marshalling, and fails on an empty buffer (an XDR hyper is 8 bytes).\<close>

definition xdr_laws :: "('bv, 'db, 'tx) env \<Rightarrow> bool" where
  "xdr_laws env \<longleftrightarrow>
     (\<forall>b. xdr_block_from_opaque env (xdr_block_to_opaque env b) = Some b) \<and>
     (\<forall>q. xdr_qc_from_opaque env (xdr_qc_to_opaque env q) = Some q) \<and>
     (\<forall>n. xdr_uint64_from_opaque env (xdr_uint64_to_opaque env n) = Some n) \<and>
     (\<forall>n. length (xdr_uint64_to_opaque env n) = 8) \<and>
     (\<forall>bs. length bs \<noteq> 8 \<longrightarrow> xdr_uint64_from_opaque env bs = None)"

text \<open>Eight big-endian bytes: invertible, and lexicographic order is numeric order.\<close>

definition big_endian_laws :: "('bv, 'db, 'tx) env \<Rightarrow> bool" where
  "big_endian_laws env \<longleftrightarrow>
     (\<forall>n. read_unsigned_big_endian env (write_unsigned_big_endian env n) = n) \<and>
     (\<forall>m n. write_unsigned_big_endian env m < write_unsigned_big_endian env n \<longleftrightarrow> m < n)"

text \<open>
  \<open>utils::BitVector\<close> is a set of bit positions below 32: \<open>held\<close> gives the positions it holds.
\<close>

definition bitvector_laws :: "('bv, 'db, 'tx) env \<Rightarrow> ('bv \<Rightarrow> nat set) \<Rightarrow> bool" where
  "bitvector_laws env held \<longleftrightarrow>
     held (bv_empty env) = {} \<and>
     (\<forall>w. held (bv_init env w) = {i. bit w i}) \<and>
     (\<forall>b i. bit (bv_get env b) i \<longleftrightarrow> i \<in> held b) \<and>
     (\<forall>b. bv_size env b = card (held b)) \<and>
     (\<forall>r b. r < MAX_REPLICAS \<longrightarrow> held (bv_add env r b) = insert (unat r) (held b)) \<and>
     (\<forall>b. held b \<noteq> {} \<longrightarrow>
        unat (fst (bv_pop env b)) = Min (held b) \<and>
        held (snd (bv_pop env b)) = held b - {Min (held b)})"

text \<open>
  A BLAKE2b digest never fails for the buffers used here and fills the 32 bytes of a \<open>Hash\<close>.
\<close>

definition hash_laws :: "('bv, 'db, 'tx) env \<Rightarrow> bool" where
  "hash_laws env \<longleftrightarrow> (\<forall>bs. \<exists>h. crypto_generichash env bs = Some h \<and> length h = 32)"

text \<open>
  A write transaction starts from the committed contents and is visible after its commit; a
  forward cursor lists a database in ascending key order, each key once. \<open>view\<close> gives the
  contents an open transaction would commit.
\<close>

definition lmdb_laws ::
  "('bv, 'db, 'tx) env \<Rightarrow> ('tx \<Rightarrow> dbi \<Rightarrow> bytes \<Rightarrow> bytes option) \<Rightarrow> bool" where
  "lmdb_laws env view \<longleftrightarrow>
     (\<forall>db. view (lmdb_wbegin env db) = lmdb_get env db) \<and>
     (\<forall>d k v tx. view (lmdb_put env d k v tx) = (view tx)(d := (view tx d)(k \<mapsto> v))) \<and>
     (\<forall>tx n db. lmdb_get env (lmdb_commit_wtxn env tx n db) = view tx) \<and>
     (\<forall>db d. sorted_wrt (<) (map fst (lmdb_cursor env db d)) \<and>
             map_of (lmdb_cursor env db d) = lmdb_get env db d)"

end
