(* ===== verification/Config.thy ===== *)
theory Config
  imports Externals
begin

text \<open>
  The replica configuration (\<^verbatim>\<open>src/include/hotstuff/config/replica_config.h\<close>,
  \<^verbatim>\<open>src/hotstuff/config/replica_config.cc\<close>) and the layout of the data directories
  (\<^verbatim>\<open>src/hotstuff/manage_data_dirs.cc\<close>): lookups and their errors, and the arithmetic of the
  quorum size.
\<close>

section \<open>ReplicaInfo\<close>

text \<open>The enum \<open>ReplicaService : int32_t\<close>; other values of the underlying type can occur.\<close>

type_synonym ReplicaService = int

definition BLOCK_FETCH_SERVICE :: ReplicaService where
  "BLOCK_FETCH_SERVICE = 1"

definition PROTOCOL_SERVICE :: ReplicaService where
  "PROTOCOL_SERVICE = 2"

record ReplicaInfo =
  hostname :: string
  block_fetch_port :: string
  protocol_port :: string
  root_data_folder :: string
  info_id :: ReplicaID
  info_pk :: PublicKey

definition get_service_name :: "ReplicaInfo \<Rightarrow> ReplicaService \<Rightarrow> string result" where
  "get_service_name info service =
     (if service = BLOCK_FETCH_SERVICE then Inr (block_fetch_port info)
      else if service = PROTOCOL_SERVICE then Inr (protocol_port info)
      else Inl (RuntimeError ''invalid service''))"

definition hotstuff_index_lmdb_dir :: "ReplicaInfo \<Rightarrow> string" where
  "hotstuff_index_lmdb_dir info = root_data_folder info @ ''hotstuff_block_index/''"

definition hotstuff_block_data_dir :: "ReplicaInfo \<Rightarrow> string" where
  "hotstuff_block_data_dir info = root_data_folder info @ ''hotstuff_block_data/''"

text \<open>
  The file system is a map from path names to contents. \<open>std::filesystem::remove_all\<close> deletes the
  files below a path; the environment says whether it succeeds.
\<close>

type_synonym disk = "string \<Rightarrow> bytes option"

definition is_below :: "string \<Rightarrow> string \<Rightarrow> bool" where
  "is_below path f \<longleftrightarrow> take (length path) f = path"

definition remove_all :: "('bv, 'db, 'tx) env \<Rightarrow> string \<Rightarrow> disk \<Rightarrow> disk option" where
  "remove_all env path d =
     (if remove_all_ok env path then Some (\<lambda>f. if is_below path f then None else d f) else None)"

definition clear_hotstuff_dirs :: "('bv, 'db, 'tx) env \<Rightarrow> ReplicaInfo \<Rightarrow> disk \<Rightarrow> disk result" where
  "clear_hotstuff_dirs env info d =
     bindE (of_option (RuntimeError ''failed to clear hotstuff block dir'')
              (remove_all env (hotstuff_block_data_dir info) d)) (\<lambda>d.
     of_option (RuntimeError ''failed to clear hotstuff index lmdb dir'')
       (remove_all env (hotstuff_index_lmdb_dir info) d))"

definition clear_all_data_dirs :: "('bv, 'db, 'tx) env \<Rightarrow> ReplicaInfo \<Rightarrow> disk \<Rightarrow> disk result" where
  "clear_all_data_dirs env info d = clear_hotstuff_dirs env info d"

section \<open>ReplicaConfig\<close>

text \<open>
  \<open>replica_map\<close> is a \<open>std::unordered_map\<close>: the entries in some order, here the order of insertion.
\<close>

record ReplicaConfig =
  replica_map :: "(ReplicaID \<times> ReplicaInfo) list"
  nreplicas :: nat
  nmajority :: nat

definition new_ReplicaConfig :: ReplicaConfig where
  "new_ReplicaConfig = \<lparr>replica_map = [], nreplicas = 0, nmajority = 0\<rparr>"

definition add_replica :: "ReplicaInfo \<Rightarrow> ReplicaConfig \<Rightarrow> ReplicaConfig result" where
  "add_replica info cfg =
     (let rid = info_id info in
      if map_of (replica_map cfg) rid \<noteq> None
      then Inl (RuntimeError ''can't add replicaid twice!'')
      else Inr (cfg\<lparr>replica_map := replica_map cfg @ [(rid, info)],
                    nreplicas := nreplicas cfg + 1\<rparr>))"

definition finish_init :: "ReplicaConfig \<Rightarrow> ReplicaConfig" where
  "finish_init cfg =
     (let nfaulty = nreplicas cfg div 3 in cfg\<lparr>nmajority := nreplicas cfg - nfaulty\<rparr>)"

definition get_info :: "ReplicaConfig \<Rightarrow> ReplicaID \<Rightarrow> ReplicaInfo result" where
  "get_info cfg rid = of_option (RuntimeError ''rid not found'') (map_of (replica_map cfg) rid)"

definition get_publickey :: "ReplicaConfig \<Rightarrow> ReplicaID \<Rightarrow> PublicKey result" where
  "get_publickey cfg rid = bindE (get_info cfg rid) (\<lambda>info. Inr (info_pk info))"

definition list_info :: "ReplicaConfig \<Rightarrow> ReplicaInfo list" where
  "list_info cfg = map snd (replica_map cfg)"

definition is_valid_replica :: "ReplicaConfig \<Rightarrow> ReplicaID \<Rightarrow> bool" where
  "is_valid_replica cfg rid \<longleftrightarrow> map_of (replica_map cfg) rid \<noteq> None"

section \<open>Well-formed configurations\<close>

definition replica_ids :: "ReplicaConfig \<Rightarrow> ReplicaID set" where
  "replica_ids cfg = fst ` set (replica_map cfg)"

definition config_wf :: "ReplicaConfig \<Rightarrow> bool" where
  "config_wf cfg \<longleftrightarrow>
     distinct (map fst (replica_map cfg)) \<and>
     nreplicas cfg = length (replica_map cfg) \<and>
     (\<forall>(rid, info) \<in> set (replica_map cfg). info_id info = rid)"

definition config_ready :: "ReplicaConfig \<Rightarrow> bool" where
  "config_ready cfg \<longleftrightarrow> config_wf cfg \<and> nmajority cfg = nreplicas cfg - nreplicas cfg div 3"

fun add_replicas :: "ReplicaInfo list \<Rightarrow> ReplicaConfig \<Rightarrow> ReplicaConfig result" where
  "add_replicas [] cfg = Inr cfg"
| "add_replicas (i # is) cfg = bindE (add_replica i cfg) (add_replicas is)"

lemma config_wf_new [simp]: "config_wf new_ReplicaConfig"
  by (simp add: config_wf_def new_ReplicaConfig_def)

lemma config_wf_add_replica:
  "config_wf cfg \<Longrightarrow> add_replica info cfg = Inr cfg' \<Longrightarrow> config_wf cfg'"
  by (auto simp: config_wf_def add_replica_def Let_def map_of_eq_None_iff split: if_splits)

lemma config_wf_add_replicas:
  "config_wf cfg \<Longrightarrow> add_replicas is cfg = Inr cfg' \<Longrightarrow> config_wf cfg'"
  by (induction "is" arbitrary: cfg) (auto simp: bindE_eq_Inr dest: config_wf_add_replica)

lemma config_ready_finish_init: "config_wf cfg \<Longrightarrow> config_ready (finish_init cfg)"
  by (simp add: config_wf_def config_ready_def finish_init_def Let_def)

lemma is_valid_replica_iff [simp]: "is_valid_replica cfg rid \<longleftrightarrow> rid \<in> replica_ids cfg"
  by (auto simp: is_valid_replica_def replica_ids_def map_of_eq_None_iff)

lemma get_info_returns_iff: "returns (get_info cfg rid) \<longleftrightarrow> is_valid_replica cfg rid"
  by (auto simp: get_info_def is_valid_replica_def returns_def simp del: is_valid_replica_iff
      split: option.splits)

lemma get_publickey_returns_iff: "returns (get_publickey cfg rid) \<longleftrightarrow> rid \<in> replica_ids cfg"
  using get_info_returns_iff [of cfg rid]
  by (auto simp: get_publickey_def returns_def bindE_eq_Inr)

lemma finite_replica_ids [simp, intro]: "finite (replica_ids cfg)"
  by (simp add: replica_ids_def)

lemma card_replica_ids: "config_wf cfg \<Longrightarrow> card (replica_ids cfg) = nreplicas cfg"
  unfolding config_wf_def replica_ids_def
  by (metis distinct_card length_map list.set_map)

section \<open>Quorums\<close>

definition is_quorum :: "ReplicaConfig \<Rightarrow> ReplicaID set \<Rightarrow> bool" where
  "is_quorum cfg Q \<longleftrightarrow> Q \<subseteq> replica_ids cfg \<and> nmajority cfg \<le> card Q"

lemma card_Int_ge:
  assumes "finite E" "A \<subseteq> E" "B \<subseteq> E"
  shows "card A + card B \<le> card E + card (A \<inter> B)"
proof -
  have "finite A" "finite B"
    using assms finite_subset by blast+
  then have "card A + card B = card (A \<union> B) + card (A \<inter> B)"
    by (rule card_Un_Int)
  moreover have "card (A \<union> B) \<le> card E"
    using assms by (simp add: card_mono)
  ultimately show ?thesis by simp
qed

lemma quorum_overlap:
  assumes "config_ready cfg" "is_quorum cfg Q" "is_quorum cfg Q'"
  shows "nreplicas cfg - 2 * (nreplicas cfg div 3) \<le> card (Q \<inter> Q')"
proof -
  have "card Q + card Q' \<le> nreplicas cfg + card (Q \<inter> Q')"
    using assms card_Int_ge [of "replica_ids cfg" Q Q']
    by (simp add: is_quorum_def card_replica_ids config_ready_def)
  moreover have "nreplicas cfg - nreplicas cfg div 3 \<le> card Q"
    "nreplicas cfg - nreplicas cfg div 3 \<le> card Q'"
    using assms by (auto simp: is_quorum_def config_ready_def)
  ultimately show ?thesis by linarith
qed

text \<open>
  C4 --- Quorum intersection. In a configuration built by \<open>add_replica\<close> and \<open>finish_init\<close>, two
  sets of \<open>nmajority\<close> replicas have a member outside any set of fewer than a third of the
  replicas. This is what makes two quorum certificates share a correct voter.
\<close>

theorem quorums_share_correct_replica:
  assumes cfg: "add_replicas infos new_ReplicaConfig = Inr cfg0" "cfg = finish_init cfg0"
    and quorums: "is_quorum cfg Q" "is_quorum cfg Q'"
    and faulty: "3 * card F < nreplicas cfg" "finite F"
  shows "\<exists>r \<in> Q \<inter> Q'. r \<notin> F"
proof (rule ccontr)
  assume "\<not> (\<exists>r \<in> Q \<inter> Q'. r \<notin> F)"
  then have "Q \<inter> Q' \<subseteq> F" by blast
  then have "card (Q \<inter> Q') \<le> card F"
    using faulty(2) by (simp add: card_mono)
  moreover have "config_ready cfg"
    using cfg config_ready_finish_init config_wf_add_replicas config_wf_new by blast
  ultimately show False
    using quorum_overlap [OF _ quorums] faulty(1) by linarith
qed

definition demo_info :: "ReplicaID \<Rightarrow> ReplicaInfo" where
  "demo_info rid =
     \<lparr>hostname = ''localhost'', block_fetch_port = ''9000'', protocol_port = ''9001'',
      root_data_folder = ''data/'', info_id = rid, info_pk = [ucast rid]\<rparr>"

definition demo_config :: "nat \<Rightarrow> ReplicaConfig" where
  "demo_config n =
     finish_init \<lparr>replica_map = map (\<lambda>i. (word_of_nat i, demo_info (word_of_nat i))) [0..<n],
       nreplicas = n, nmajority = 0\<rparr>"

lemma demo_config_ready:
  assumes "n \<le> 32"
  shows "config_ready (demo_config n)"
proof -
  have "inj_on (word_of_nat :: nat \<Rightarrow> ReplicaID) {0..<n}"
    using assms by (auto simp: inj_on_def word_of_nat_inj)
  then have "distinct (map (word_of_nat :: nat \<Rightarrow> ReplicaID) [0..<n])"
    by (simp add: distinct_map)
  then show ?thesis
    by (auto simp: config_ready_def config_wf_def demo_config_def finish_init_def Let_def
        demo_info_def comp_def)
qed

lemma replica_ids_demo: "replica_ids (demo_config n) = word_of_nat ` {0..<n}"
  by (simp add: replica_ids_def demo_config_def finish_init_def Let_def image_image)

lemma nmajority_demo [simp]: "nmajority (demo_config n) = n - n div 3"
  by (simp add: demo_config_def finish_init_def Let_def)

lemma get_info_demo:
  assumes "rid \<in> replica_ids (demo_config n)"
  shows "get_info (demo_config n) rid = Inr (demo_info rid)"
proof -
  have "map_of (map (\<lambda>i. (word_of_nat i, demo_info (word_of_nat i))) is) rid = Some (demo_info rid)"
    if "rid \<in> word_of_nat ` set is" for "is" :: "nat list"
    using that by (induction "is") auto
  from this [of "[0..<n]"] show ?thesis
    using assms [unfolded replica_ids_demo]
    by (simp add: get_info_def demo_config_def finish_init_def Let_def)
qed

lemma get_publickey_demo:
  "rid \<in> replica_ids (demo_config n) \<Longrightarrow> get_publickey (demo_config n) rid = Inr [ucast rid]"
  by (simp add: get_publickey_def get_info_demo demo_info_def)

lemma replica_ids_demo_4: "replica_ids (demo_config 4) = {0, 1, 2, 3}"
proof -
  have "{0..<4::nat} = {0, 1, 2, 3}" by auto
  then show ?thesis by (simp add: replica_ids_demo)
qed

lemma demo_config_4:
  "add_replicas (map demo_info [0, 1, 2, 3]) new_ReplicaConfig =
     Inr \<lparr>replica_map = [(0, demo_info 0), (1, demo_info 1), (2, demo_info 2), (3, demo_info 3)],
          nreplicas = 4, nmajority = 0\<rparr>"
  by (simp add: add_replica_def new_ReplicaConfig_def demo_info_def Let_def)

theorem quorums_share_correct_replica_witness:
  "\<exists>r \<in> {0, 1, 2 :: ReplicaID} \<inter> {1, 2, 3}. r \<notin> {1}"
proof (rule quorums_share_correct_replica [OF demo_config_4 refl])
  show "is_quorum (finish_init \<lparr>replica_map = [(0, demo_info 0), (1, demo_info 1),
      (2, demo_info 2), (3, demo_info 3)], nreplicas = 4, nmajority = 0\<rparr>) {0, 1, 2}"
    by (simp add: is_quorum_def finish_init_def Let_def replica_ids_def)
  show "is_quorum (finish_init \<lparr>replica_map = [(0, demo_info 0), (1, demo_info 1),
      (2, demo_info 2), (3, demo_info 3)], nreplicas = 4, nmajority = 0\<rparr>) {1, 2, 3}"
    by (simp add: is_quorum_def finish_init_def Let_def replica_ids_def)
qed (simp_all add: finish_init_def Let_def)

text \<open>
  C5 --- The tolerated number of faults that \<open>finish_init\<close> computes and logs, \<open>nreplicas / 3\<close>, is
  one too large when the number of replicas is a positive multiple of three: with that many faulty
  replicas, in any configuration built by \<open>add_replica\<close> and \<open>finish_init\<close>, two sets of \<open>nmajority\<close>
  replicas may have no correct member in common.
\<close>

theorem quorum_overlap_tight:
  assumes built: "add_replicas infos new_ReplicaConfig = Inr cfg0" "cfg = finish_init cfg0"
    and n: "nreplicas cfg = 3 * k" "0 < k"
  shows "\<exists>Q Q' F. is_quorum cfg Q \<and> is_quorum cfg Q' \<and> F \<subseteq> replica_ids cfg \<and>
    card F = nreplicas cfg div 3 \<and> Q \<inter> Q' = F"
proof -
  have "config_ready cfg" using built config_ready_finish_init config_wf_add_replicas config_wf_new by blast
  then have card: "card (replica_ids cfg) = 3 * k" and maj: "nmajority cfg = 2 * k"
    using n by (simp_all add: card_replica_ids config_ready_def)
  obtain A where A: "A \<subseteq> replica_ids cfg" "card A = k"
    using obtain_subset_with_card_n [of k "replica_ids cfg"] card by auto
  have rest: "card (replica_ids cfg - A) = 2 * k"
    using A card by (simp add: card_Diff_subset finite_subset)
  then obtain B where B: "B \<subseteq> replica_ids cfg - A" "card B = k"
    using obtain_subset_with_card_n [of k "replica_ids cfg - A"] by auto
  have fin: "finite A" "finite B"
    using A B finite_replica_ids finite_subset by (metis, metis Diff_subset subset_trans)
  have disj: "A \<inter> B = {}" using B by blast
  have "is_quorum cfg (A \<union> B)"
    using A B fin disj maj by (auto simp: is_quorum_def card_Un_disjoint)
  moreover have "is_quorum cfg (replica_ids cfg - A)"
    using rest maj by (auto simp: is_quorum_def)
  moreover have "(A \<union> B) \<inter> (replica_ids cfg - A) = B"
    using A B by blast
  moreover have "B \<subseteq> replica_ids cfg" "card B = nreplicas cfg div 3" using B n by auto
  ultimately show ?thesis by blast
qed

theorem quorum_overlap_tight_witness:
  "\<exists>cfg. add_replicas [demo_info 0, demo_info 1, demo_info 2] new_ReplicaConfig = Inr cfg \<and>
    (\<exists>Q Q' F. is_quorum (finish_init cfg) Q \<and> is_quorum (finish_init cfg) Q' \<and>
      F \<subseteq> replica_ids (finish_init cfg) \<and> card F = 1 \<and> Q \<inter> Q' = F)"
proof -
  let ?cfg = "\<lparr>replica_map = [(0, demo_info 0), (1, demo_info 1), (2, demo_info 2)], nreplicas = 3, nmajority = 0\<rparr>"
  have built: "add_replicas [demo_info 0, demo_info 1, demo_info 2] new_ReplicaConfig = Inr ?cfg"
    by (simp add: add_replica_def new_ReplicaConfig_def demo_info_def Let_def)
  have "nreplicas (finish_init ?cfg) = 3" by (simp add: finish_init_def Let_def)
  then show ?thesis using quorum_overlap_tight [OF built refl, of 1] built by auto
qed

end
