(* ===== verification/Demo_Env.thy ===== *)
theory Demo_Env
  imports Externals
begin

text \<open>
  A concrete instance of the external code, on which the witnesses of the development evaluate.
  It satisfies every law that a theorem assumes: the marshalling is a real (self-delimiting)
  encoding, big-endian numbers are real big-endian numbers, the bit vector is a 32-bit word and
  the database a pair of association lists. The digest and the signature are not cryptographic:
  a digest is its input cut or padded to 32 bytes, a signature is the key followed by the message.
\<close>

unbundle bit_operations_syntax

section \<open>Big-endian numbers\<close>

fun be :: "nat \<Rightarrow> nat \<Rightarrow> bytes" where
  "be 0 n = []"
| "be (Suc k) n = word_of_nat (n div 256 ^ k) # be k (n mod 256 ^ k)"

fun eb :: "bytes \<Rightarrow> nat" where
  "eb [] = 0"
| "eb (b # bs) = unat b * 256 ^ length bs + eb bs"

lemma length_be [simp]: "length (be k n) = k"
  by (induction k arbitrary: n) auto

lemma unat_digit:
  assumes "n < 256 ^ Suc k"
  shows "unat (word_of_nat (n div 256 ^ k) :: byte) = n div 256 ^ k"
proof -
  have "n div 256 ^ k < 256"
    using assms by (simp add: less_mult_imp_div_less)
  then show ?thesis
    by (simp add: unat_of_nat)
qed

lemma eb_be: "n < 256 ^ k \<Longrightarrow> eb (be k n) = n"
proof (induction k arbitrary: n)
  case 0
  then show ?case by simp
next
  case (Suc k)
  have "eb (be k (n mod 256 ^ k)) = n mod 256 ^ k"
    by (rule Suc.IH) simp
  with unat_digit [OF Suc.prems] show ?case by (simp add: div_mult_mod_eq)
qed

lemma be_less_iff:
  "m < 256 ^ k \<Longrightarrow> n < 256 ^ k \<Longrightarrow> be k m < be k n \<longleftrightarrow> m < n"
proof (induction k arbitrary: m n)
  case 0
  then show ?case by simp
next
  case (Suc k)
  let ?B = "256 ^ k :: nat"
  have IH: "be k (m mod ?B) < be k (n mod ?B) \<longleftrightarrow> m mod ?B < n mod ?B"
    by (rule Suc.IH) simp_all
  have head: "(word_of_nat (m div ?B) :: byte) < word_of_nat (n div ?B) \<longleftrightarrow> m div ?B < n div ?B"
    "(word_of_nat (m div ?B) :: byte) = word_of_nat (n div ?B) \<longleftrightarrow> m div ?B = n div ?B"
    using unat_digit [OF Suc.prems(1)] unat_digit [OF Suc.prems(2)]
    by (simp_all add: word_less_nat_alt word_unat_eq_iff)
  have "m < n \<longleftrightarrow> m div ?B < n div ?B \<or> m div ?B = n div ?B \<and> m mod ?B < n mod ?B"
  proof (cases "m div ?B = n div ?B")
    case True
    then show ?thesis
      by (metis div_mult_mod_eq nat_add_left_cancel_less order_less_irrefl)
  next
    case False
    then show ?thesis
      by (metis div_le_mono le_neq_implies_less nat_le_linear nat_less_le not_less)
  qed
  then show ?case
    using IH head by (auto simp: Cons_less_Cons)
qed

section \<open>A self-delimiting encoding\<close>

fun enc_bytes :: "bytes \<Rightarrow> bytes" where
  "enc_bytes [] = [0]"
| "enc_bytes (b # bs) = 1 # b # enc_bytes bs"

fun dec_bytes :: "bytes \<Rightarrow> (bytes \<times> bytes) option" where
  "dec_bytes [] = None"
| "dec_bytes [c] = (if c = 0 then Some ([], []) else None)"
| "dec_bytes (c # b # rest) =
     (if c = 0 then Some ([], b # rest)
      else case dec_bytes rest of None \<Rightarrow> None | Some (bs, r) \<Rightarrow> Some (b # bs, r))"

fun enc_list :: "bytes list \<Rightarrow> bytes" where
  "enc_list [] = [0]"
| "enc_list (x # xs) = 1 # enc_bytes x @ enc_list xs"

fun dec_list :: "nat \<Rightarrow> bytes \<Rightarrow> (bytes list \<times> bytes) option" where
  "dec_list 0 bs = None"
| "dec_list (Suc n) [] = None"
| "dec_list (Suc n) (c # bs) =
     (if c = 0 then Some ([], bs)
      else case dec_bytes bs of None \<Rightarrow> None
        | Some (x, r) \<Rightarrow>
            (case dec_list n r of None \<Rightarrow> None | Some (xs, r') \<Rightarrow> Some (x # xs, r')))"

lemma dec_enc_bytes [simp]: "dec_bytes (enc_bytes bs @ r) = Some (bs, r)"
proof (induction bs)
  case Nil
  then show ?case by (cases r) auto
next
  case (Cons b bs)
  then show ?case by simp
qed

lemma dec_enc_list [simp]:
  "length xs < n \<Longrightarrow> dec_list n (enc_list xs @ r) = Some (xs, r)"
proof (induction xs arbitrary: n)
  case Nil
  then show ?case by (cases n) auto
next
  case (Cons x xs)
  then show ?case by (cases n) auto
qed

lemma length_enc_list: "length xs < length (enc_list xs)"
  by (induction xs) auto

section \<open>Marshalling\<close>

definition enc_qc :: "QuorumCertificateWire \<Rightarrow> bytes" where
  "enc_qc q = enc_bytes (justify q) @ enc_bytes (be 4 (unat (bmp q))) @ enc_list (wire_sigs q)"

definition dec_qc :: "bytes \<Rightarrow> (QuorumCertificateWire \<times> bytes) option" where
  "dec_qc bs =
     Option.bind (dec_bytes bs) (\<lambda>(j, r).
     Option.bind (dec_bytes r) (\<lambda>(m, r).
     Option.bind (dec_list (Suc (length r)) r) (\<lambda>(ss, r).
       Some (\<lparr>justify = j, bmp = word_of_nat (eb m), wire_sigs = ss\<rparr>, r))))"

definition enc_block :: "HotstuffBlockWire \<Rightarrow> bytes" where
  "enc_block b = enc_bytes (parent_hash (header b)) @ enc_qc (header_qc (header b)) @
     enc_bytes (body_hash (header b)) @ enc_bytes (body b)"

definition dec_block :: "bytes \<Rightarrow> HotstuffBlockWire option" where
  "dec_block bs =
     Option.bind (dec_bytes bs) (\<lambda>(p, r).
     Option.bind (dec_qc r) (\<lambda>(q, r).
     Option.bind (dec_bytes r) (\<lambda>(h, r).
     Option.bind (dec_bytes r) (\<lambda>(b, r).
       Some \<lparr>header = \<lparr>parent_hash = p, header_qc = q, body_hash = h\<rparr>, body = b\<rparr>))))"

lemma dec_enc_qc [simp]: "dec_qc (enc_qc q @ r) = Some (q, r)"
proof -
  have "unat (bmp q) < 256 ^ 4"
    using unsigned_less [of "bmp q"] by simp
  then have "word_of_nat (eb (be 4 (unat (bmp q)))) = bmp q"
    by (simp add: eb_be)
  moreover have "dec_list (Suc (length (enc_list (wire_sigs q) @ r))) (enc_list (wire_sigs q) @ r) =
      Some (wire_sigs q, r)"
    using length_enc_list [of "wire_sigs q"] by (intro dec_enc_list) simp
  ultimately show ?thesis
    by (simp add: dec_qc_def enc_qc_def)
qed

lemma dec_enc_block [simp]: "dec_block (enc_block b) = Some b"
proof -
  have "dec_bytes (enc_bytes (body b)) = Some (body b, [])"
    using dec_enc_bytes [of "body b" "[]"] by simp
  then show ?thesis
    by (simp add: dec_block_def enc_block_def)
qed

section \<open>The database\<close>

fun omap_put :: "'k::linorder \<Rightarrow> 'v \<Rightarrow> ('k, 'v) omap \<Rightarrow> ('k, 'v) omap" where
  "omap_put k v [] = [(k, v)]"
| "omap_put k v ((k', v') # m) =
     (if k < k' then (k, v) # (k', v') # m
      else if k = k' then (k, v) # m
      else (k', v') # omap_put k v m)"

lemma fst_set_omap_put: "fst ` set (omap_put k v m) = insert k (fst ` set m)"
  by (induction k v m rule: omap_put.induct) auto

lemma omap_put_wf: "omap_wf m \<Longrightarrow> omap_wf (omap_put k v m)"
proof (induction k v m rule: omap_put.induct)
  case (1 k v)
  then show ?case by (simp add: omap_wf_Cons)
next
  case (2 k v k' v' m)
  then show ?case
    by (auto simp: omap_wf_Cons fst_set_omap_put dest: order.strict_trans)
qed

lemma map_of_omap_put: "map_of (omap_put k v m) = (map_of m)(k \<mapsto> v)"
  by (induction k v m rule: omap_put.induct) (auto simp: fun_eq_iff)

type_synonym demo_map = "(bytes \<times> bytes) list"

definition dm_put :: "bytes \<Rightarrow> bytes \<Rightarrow> demo_map \<Rightarrow> demo_map" where
  "dm_put k v m = (k, v) # m"

fun dm_list :: "demo_map \<Rightarrow> (bytes, bytes) omap" where
  "dm_list [] = []"
| "dm_list ((k, v) # m) = omap_put k v (dm_list m)"

lemma dm_list_sorted: "sorted_wrt (<) (map fst (dm_list m))"
proof -
  have "omap_wf (dm_list m)"
    by (induction m rule: dm_list.induct) (auto intro: omap_put_wf)
  then show ?thesis by (simp add: omap_wf_def)
qed

lemma map_of_dm_list: "map_of (dm_list m) = map_of m"
  by (induction m rule: dm_list.induct) (auto simp: map_of_omap_put)

record demo_db =
  db_data :: demo_map
  db_meta :: demo_map
  db_round :: uint64

definition demo_db_of :: "demo_db \<Rightarrow> dbi \<Rightarrow> demo_map" where
  "demo_db_of db d = (case d of data_dbi \<Rightarrow> db_data db | metadata_dbi \<Rightarrow> db_meta db)"

definition demo_put :: "dbi \<Rightarrow> bytes \<Rightarrow> bytes \<Rightarrow> demo_db \<Rightarrow> demo_db" where
  "demo_put d k v db =
     (case d of data_dbi \<Rightarrow> db\<lparr>db_data := dm_put k v (db_data db)\<rparr>
      | metadata_dbi \<Rightarrow> db\<lparr>db_meta := dm_put k v (db_meta db)\<rparr>)"

definition demo_new_db :: demo_db where
  "demo_new_db = \<lparr>db_data = [], db_meta = [], db_round = 0\<rparr>"

section \<open>The instance\<close>

definition pad32 :: "bytes \<Rightarrow> Hash" where
  "pad32 bs = take 32 (bs @ replicate 32 0)"

lemma pad32_nonzero: "b \<noteq> 0 \<Longrightarrow> pad32 (b # bs) \<noteq> zero_hash"
proof -
  have "pad32 (b # bs) ! 0 = b" by (simp add: pad32_def)
  moreover have "zero_hash ! 0 = 0" by (simp add: zero_hash_def)
  ultimately show "b \<noteq> 0 \<Longrightarrow> pad32 (b # bs) \<noteq> zero_hash" by metis
qed

definition head_or :: "byte \<Rightarrow> bytes \<Rightarrow> byte" where
  "head_or d bs = (case bs of [] \<Rightarrow> d | b # _ \<Rightarrow> b)"

fun lowest_bit :: "nat \<Rightarrow> uint32 \<Rightarrow> nat" where
  "lowest_bit 0 w = 32"
| "lowest_bit (Suc n) w = (if bit w (31 - n) then 31 - n else lowest_bit n w)"

definition demo_env :: "(uint32, demo_db, demo_db) env" where
  "demo_env =
    \<lparr>crypto_generichash = (\<lambda>bs. Some (pad32 bs)),
     crypto_sign_detached = (\<lambda>m sk. Some (sk @ m)),
     crypto_sign_verify_detached = (\<lambda>s m pk. s = pk @ m),
     xdr_header_to_opaque =
       (\<lambda>hd. [head_or 0 (parent_hash hd) + 1, head_or 0 (body_hash hd)]),
     xdr_body_to_opaque = (\<lambda>bs. bs),
     xdr_block_to_opaque = enc_block,
     xdr_block_from_opaque = dec_block,
     xdr_qc_to_opaque = enc_qc,
     xdr_qc_from_opaque = (\<lambda>bs. map_option fst (dec_qc bs)),
     xdr_uint64_to_opaque = (\<lambda>n. be 8 (unat n)),
     xdr_uint64_from_opaque = (\<lambda>bs. if length bs = 8 then Some (word_of_nat (eb bs)) else None),
     write_unsigned_big_endian = (\<lambda>n. be 8 (unat n)),
     read_unsigned_big_endian = (\<lambda>bs. word_of_nat (eb bs)),
     bv_empty = 0,
     bv_init = (\<lambda>w. w),
     bv_size = (\<lambda>w. length (filter (bit w) [0..<32])),
     bv_pop = (\<lambda>w. (word_of_nat (lowest_bit 32 w), unset_bit (lowest_bit 32 w) w)),
     bv_add = (\<lambda>r w. set_bit (unat r) w),
     bv_get = (\<lambda>w. w),
     lmdb_wbegin = (\<lambda>db. db),
     lmdb_put = demo_put,
     lmdb_commit_wtxn = (\<lambda>tx n db. tx\<lparr>db_round := n\<rparr>),
     lmdb_persisted_round_number = db_round,
     lmdb_get = (\<lambda>db d. map_of (demo_db_of db d)),
     lmdb_cursor = (\<lambda>db d. dm_list (demo_db_of db d)),
     lmdb_create_db = (\<lambda>name db. demo_new_db),
     lmdb_open_db = (\<lambda>name db. db),
     fopen_for_writing_ok = (\<lambda>f. True),
     remove_all_ok = (\<lambda>p. True)\<rparr>"

definition demo_held :: "uint32 \<Rightarrow> nat set" where
  "demo_held w = {i. bit w i}"

definition demo_view :: "demo_db \<Rightarrow> dbi \<Rightarrow> bytes \<Rightarrow> bytes option" where
  "demo_view tx d = map_of (demo_db_of tx d)"

section \<open>The instance satisfies the laws\<close>

lemma unat_uint64_bound: "unat (n :: uint64) < 256 ^ 8"
  using unsigned_less [of n] by simp

lemma eb_be_uint64: "eb (be 8 (unat (n :: uint64))) = unat n"
  by (rule eb_be) (rule unat_uint64_bound)

lemma be_less_uint64: "be 8 (unat (m :: uint64)) < be 8 (unat n) \<longleftrightarrow> m < n"
  by (simp only: be_less_iff [OF unat_uint64_bound unat_uint64_bound] word_less_nat_alt)

lemma demo_xdr_laws [simp, intro]: "xdr_laws demo_env"
proof -
  have "dec_qc (enc_qc q) = Some (q, [])" for q
    using dec_enc_qc [of q "[]"] by simp
  then show ?thesis
    by (simp add: xdr_laws_def demo_env_def eb_be_uint64)
qed

lemma demo_big_endian_laws [simp, intro]: "big_endian_laws demo_env"
  by (simp add: big_endian_laws_def demo_env_def eb_be_uint64 be_less_uint64)

lemma demo_hash_laws [simp, intro]: "hash_laws demo_env"
  by (simp add: hash_laws_def demo_env_def pad32_def min_def)

lemma lowest_bit_least:
  assumes "n \<le> 32" "\<forall>i < 32 - n. \<not> bit w i" "bit w j"
  shows "bit w (lowest_bit n w) \<and> (\<forall>i. bit w i \<longrightarrow> lowest_bit n w \<le> i)"
  using assms
proof (induction n)
  case 0
  then show ?case
    using bit_imp_le_length [of w j] by simp
next
  case (Suc n)
  have "31 - n = 32 - Suc n" using Suc.prems(1) by simp
  show ?case
  proof (cases "bit w (31 - n)")
    case True
    have "31 - n \<le> i" if "bit w i" for i
      using Suc.prems(2) that \<open>31 - n = 32 - Suc n\<close> by (metis leI)
    with True show ?thesis by simp
  next
    case False
    have "\<not> bit w i" if "i < 32 - n" for i
    proof (cases "i = 31 - n")
      case True
      with False show ?thesis by simp
    next
      case False
      with that Suc.prems(1) have "i < 32 - Suc n" by arith
      with Suc.prems(2) show ?thesis by simp
    qed
    then show ?thesis
      using Suc False by simp
  qed
qed

lemma demo_bitvector_laws [simp, intro]: "bitvector_laws demo_env demo_held"
proof -
  have bound: "i < 32" if "bit w i" for w :: uint32 and i
    using bit_imp_le_length [OF that] by simp
  have size: "card {i. bit w i} = length (filter (bit w) [0..<32])" for w :: uint32
  proof -
    have "{i. bit w i} = set (filter (bit w) [0..<32])"
      by (auto dest: bound)
    then show ?thesis by (metis distinct_card distinct_filter distinct_upt)
  qed
  have low: "lowest_bit 32 w = Min {i. bit w i} \<and> lowest_bit 32 w < 32"
    if "{i. bit w i} \<noteq> {}" for w :: uint32
  proof -
    have least: "bit w (lowest_bit 32 w)" "\<forall>i. bit w i \<longrightarrow> lowest_bit 32 w \<le> i"
      using that lowest_bit_least [of 32 w] by auto
    have "finite {i. bit w i}"
      by (rule finite_subset [of _ "{..<32}"]) (auto dest: bound)
    then have "Min {i. bit w i} = lowest_bit 32 w"
      using least by (intro Min_eqI) auto
    then show ?thesis
      using bound [OF least(1)] by simp
  qed
  have add: "{i. bit (set_bit (unat r) w) i} = insert (unat r) {i. bit w i}"
    if "r < MAX_REPLICAS" for r w :: uint32
    using that by (auto simp: bit_set_bit_iff MAX_REPLICAS_def word_less_nat_alt)
  have pop: "{i. bit (unset_bit n w) i} = {i. bit w i} - {n}" for n and w :: uint32
    by (auto simp: bit_unset_bit_iff)
  have un: "unat (word_of_nat (lowest_bit 32 w) :: uint32) = lowest_bit 32 w"
    if "{i. bit w i} \<noteq> {}" for w :: uint32
    using low [OF that] by (simp add: unat_of_nat)
  show ?thesis
    unfolding bitvector_laws_def
    using size low add pop un by (simp add: demo_env_def demo_held_def)
qed

lemma demo_lmdb_laws [simp, intro]: "lmdb_laws demo_env demo_view"
proof -
  have "demo_view (demo_put d k v tx) = (demo_view tx)(d := (demo_view tx d)(k \<mapsto> v))" for d k v tx
    by (rule ext, cases d)
      (auto simp: demo_view_def demo_put_def demo_db_of_def dm_put_def
        split: dbi.splits)
  moreover have "demo_db_of (tx\<lparr>db_round := n\<rparr>) d = demo_db_of tx d" for tx n d
    by (cases d) (simp_all add: demo_db_of_def)
  ultimately show ?thesis
    unfolding lmdb_laws_def
    by (simp add: demo_env_def demo_view_def fun_eq_iff dm_list_sorted map_of_dm_list)
qed

text \<open>The demonstration library, evaluated.\<close>

lemma demo_env_simps:
  "crypto_generichash demo_env bs = Some (pad32 bs)"
  "crypto_sign_detached demo_env m sk = Some (sk @ m)"
  "crypto_sign_verify_detached demo_env sg m pk = (sg = pk @ m)"
  "xdr_header_to_opaque demo_env hdr = [head_or 0 (parent_hash hdr) + 1, head_or 0 (body_hash hdr)]"
  "xdr_body_to_opaque demo_env bs = bs"
  "bv_empty demo_env = 0" "bv_init demo_env w = w" "bv_size demo_env w = length (filter (bit w) [0..<32])"
  "bv_pop demo_env w = (word_of_nat (lowest_bit 32 w), unset_bit (lowest_bit 32 w) w)"
  "bv_add demo_env r w = set_bit (unat r) w" "bv_get demo_env w = w" "fopen_for_writing_ok demo_env f"
  by (simp_all add: demo_env_def)

end
