(* ===== verification/Certs.thy ===== *)
theory Certs
  imports Config Demo_Env
begin

text \<open>
  Partial and quorum certificates (\<^verbatim>\<open>src/hotstuff/crypto/certs.cc\<close>, \<^verbatim>\<open>certs.h\<close>) and the hash of
  a serialised value (\<^verbatim>\<open>src/hotstuff/crypto/hash.h\<close>): building a certificate from votes, its wire
  form, and its verification.
\<close>

section \<open>Hashing\<close>

definition hash_xdr :: "('bv, 'db, 'tx) env \<Rightarrow> bytes \<Rightarrow> Hash result" where
  "hash_xdr env serialized =
     of_option (RuntimeError ''error in crypto_generichash'') (crypto_generichash env serialized)"

definition hash_header :: "('bv, 'db, 'tx) env \<Rightarrow> HotstuffBlockHeader \<Rightarrow> Hash result" where
  "hash_header env hdr = hash_xdr env (xdr_header_to_opaque env hdr)"

definition hash_body :: "('bv, 'db, 'tx) env \<Rightarrow> bytes \<Rightarrow> Hash result" where
  "hash_body env bs = hash_xdr env (xdr_body_to_opaque env bs)"

section \<open>PartialCertificate\<close>

definition check_sig ::
  "('bv, 'db, 'tx) env \<Rightarrow> Signature \<Rightarrow> Hash \<Rightarrow> PublicKey \<Rightarrow> bool" where
  "check_sig env sig val pk = crypto_sign_verify_detached env sig val pk"

definition new_PartialCertificate ::
  "('bv, 'db, 'tx) env \<Rightarrow> Hash \<Rightarrow> SecretKey \<Rightarrow> PartialCertificate result" where
  "new_PartialCertificate env hash sk =
     bindE (of_option (RuntimeError ''failed to sign message'') (crypto_sign_detached env hash sk))
       (\<lambda>sig. Inr \<lparr>cert_hash = hash, cert_sig = sig\<rparr>)"

definition PartialCertificate_validate ::
  "('bv, 'db, 'tx) env \<Rightarrow> PartialCertificate \<Rightarrow> ReplicaInfo \<Rightarrow> bool" where
  "PartialCertificate_validate env pc info = check_sig env (cert_sig pc) (cert_hash pc) (info_pk info)"

section \<open>QuorumCertificate\<close>

record QuorumCertificate =
  obj_hash :: Hash
  sigs :: "(ReplicaID, Signature) omap"

definition new_QuorumCertificate :: "Hash \<Rightarrow> QuorumCertificate" where
  "new_QuorumCertificate h = \<lparr>obj_hash = h, sigs = []\<rparr>"

text \<open>The loop that pairs the signatures of the wire form with the popped bit positions.\<close>

fun pop_sigs ::
  "('bv, 'db, 'tx) env \<Rightarrow> 'bv \<Rightarrow> Signature list \<Rightarrow> (ReplicaID, Signature) omap \<Rightarrow>
   (ReplicaID, Signature) omap" where
  "pop_sigs env bv [] acc = acc"
| "pop_sigs env bv (sig # rest) acc =
     (let (rid, bv') = bv_pop env bv in pop_sigs env bv' rest (omap_emplace rid sig acc))"

definition parse_QuorumCertificate ::
  "('bv, 'db, 'tx) env \<Rightarrow> QuorumCertificateWire \<Rightarrow> QuorumCertificate" where
  "parse_QuorumCertificate env w =
     (let bv = bv_init env (bmp w) in
      if bv_size env bv \<noteq> length (wire_sigs w) then \<lparr>obj_hash = justify w, sigs = []\<rparr>
      else \<lparr>obj_hash = justify w, sigs = pop_sigs env bv (wire_sigs w) []\<rparr>)"

fun serialize_sigs ::
  "('bv, 'db, 'tx) env \<Rightarrow> (ReplicaID \<times> Signature) list \<Rightarrow> Signature list \<Rightarrow> 'bv \<Rightarrow>
   Signature list \<times> 'bv" where
  "serialize_sigs env [] out bv = (out, bv)"
| "serialize_sigs env ((rid, sig) # rest) out bv =
     serialize_sigs env rest (out @ [sig]) (bv_add env rid bv)"

definition serialize ::
  "('bv, 'db, 'tx) env \<Rightarrow> QuorumCertificate \<Rightarrow> QuorumCertificateWire" where
  "serialize env qc =
     (let (out, bv) = serialize_sigs env (sigs qc) [] (bv_empty env)
      in \<lparr>justify = obj_hash qc, bmp = bv_get env bv, wire_sigs = out\<rparr>)"

definition add_partial_certificate ::
  "ReplicaID \<Rightarrow> PartialCertificate \<Rightarrow> QuorumCertificate \<Rightarrow> QuorumCertificate result" where
  "add_partial_certificate rid pc qc =
     (if cert_hash pc \<noteq> obj_hash qc
      then Inl (InvalidArgument ''partial certificate merged into different quorum certificate'')
      else if rid \<ge> MAX_REPLICAS then Inl (InvalidArgument ''invalid replica id'')
      else Inr (qc\<lparr>sigs := omap_emplace rid (cert_sig pc) (sigs qc)\<rparr>))"

fun count_valid ::
  "('bv, 'db, 'tx) env \<Rightarrow> ReplicaConfig \<Rightarrow> Hash \<Rightarrow> (ReplicaID \<times> Signature) list \<Rightarrow> nat \<Rightarrow>
   nat result" where
  "count_valid env cfg h [] n = Inr n"
| "count_valid env cfg h ((rid, sig) # rest) n =
     bindE (get_publickey cfg rid) (\<lambda>pk.
       count_valid env cfg h rest (if check_sig env sig h pk then n + 1 else n))"

definition verify ::
  "('bv, 'db, 'tx) env \<Rightarrow> ReplicaConfig \<Rightarrow> QuorumCertificate \<Rightarrow> bool result" where
  "verify env cfg qc =
     (if obj_hash qc = zero_hash then Inr True
      else if length (sigs qc) < nmajority cfg then Inr False
      else bindE (count_valid env cfg (obj_hash qc) (sigs qc) 0)
             (\<lambda>n_valid. Inr (n_valid \<ge> nmajority cfg)))"

definition has_quorum :: "ReplicaConfig \<Rightarrow> QuorumCertificate \<Rightarrow> bool" where
  "has_quorum cfg qc \<longleftrightarrow> nmajority cfg \<le> length (sigs qc)"

section \<open>Well-formed certificates\<close>

definition signers :: "QuorumCertificate \<Rightarrow> ReplicaID set" where
  "signers qc = fst ` set (sigs qc)"

definition qc_wf :: "QuorumCertificate \<Rightarrow> bool" where
  "qc_wf qc \<longleftrightarrow> omap_wf (sigs qc) \<and> (\<forall>rid \<in> signers qc. rid < MAX_REPLICAS)"

text \<open>The replicas of a configuration whose key validates a signature on a hash.\<close>

definition valid_signers ::
  "('bv, 'db, 'tx) env \<Rightarrow> ReplicaConfig \<Rightarrow> QuorumCertificate \<Rightarrow> ReplicaID set" where
  "valid_signers env cfg qc =
     {rid. \<exists>sig pk. (rid, sig) \<in> set (sigs qc) \<and> get_publickey cfg rid = Inr pk \<and>
        check_sig env sig (obj_hash qc) pk}"

lemma qc_wf_new [simp, intro]: "qc_wf (new_QuorumCertificate h)"
  by (simp add: qc_wf_def signers_def new_QuorumCertificate_def)

lemma obj_hash_new [simp]: "obj_hash (new_QuorumCertificate h) = h"
  by (simp add: new_QuorumCertificate_def)

lemma signers_add:
  assumes "add_partial_certificate rid pc qc = Inr qc'"
  shows "signers qc' = insert rid (signers qc)" and "obj_hash qc' = obj_hash qc"
  using assms by (clarsimp simp: add_partial_certificate_def signers_def set_omap_emplace
      split: if_splits)+

lemma qc_wf_add:
  assumes "qc_wf qc" and add: "add_partial_certificate rid pc qc = Inr qc'"
  shows "qc_wf qc'"
  using assms(1) signers_add(1) [OF add] add
  by (auto simp: qc_wf_def add_partial_certificate_def split: if_splits)

lemma card_signers: "qc_wf qc \<Longrightarrow> card (signers qc) = length (sigs qc)"
  unfolding qc_wf_def signers_def
  by (metis distinct_card length_map list.set_map omap_wf_distinct)

lemma pop_sigs_wf: "omap_wf acc \<Longrightarrow> omap_wf (pop_sigs env bv ss acc)"
  by (induction env bv ss acc rule: pop_sigs.induct) (auto split: prod.splits)

lemma parse_wf: "omap_wf (sigs (parse_QuorumCertificate env w))"
  by (auto simp: parse_QuorumCertificate_def Let_def intro: pop_sigs_wf)

lemma parse_obj_hash [simp]: "obj_hash (parse_QuorumCertificate env w) = justify w"
  by (simp add: parse_QuorumCertificate_def Let_def)

lemma serialize_justify [simp]: "justify (serialize env qc) = obj_hash qc"
  by (simp add: serialize_def split: prod.splits)

section \<open>Wire round trip\<close>

lemma serialize_sigs_out: "fst (serialize_sigs env m out bv) = out @ map snd m"
  by (induction env m out bv rule: serialize_sigs.induct) auto

lemma serialize_sigs_bits:
  assumes "bitvector_laws env held" "\<forall>rid \<in> fst ` set m. rid < MAX_REPLICAS"
  shows "held (snd (serialize_sigs env m out bv)) = held bv \<union> unat ` fst ` set m"
  using assms
  by (induction env m out bv rule: serialize_sigs.induct) (auto simp: bitvector_laws_def)

text \<open>Popping a bit vector that holds exactly the keys of a sorted list gives them back in order.\<close>

lemma pop_sigs_restores:
  assumes laws: "bitvector_laws env held"
    and "omap_wf (acc @ m)" "held bv = unat ` fst ` set m"
  shows "pop_sigs env bv (map snd m) acc = acc @ m"
  using assms(2,3)
proof (induction m arbitrary: acc bv)
  case Nil
  then show ?case by simp
next
  case (Cons e m)
  obtain rid sig where e: "e = (rid, sig)" by (cases e)
  have below: "\<forall>k \<in> fst ` set m. rid < k" and above: "\<forall>k \<in> fst ` set acc. k < rid"
    and wf: "omap_wf acc"
    using Cons.prems(1) unfolding e omap_wf_def by (auto simp: sorted_wrt_append)
  have notin: "unat rid \<notin> unat ` fst ` set m"
    using below by (auto simp: word_less_nat_alt)
  have min: "Min (held bv) = unat rid"
    using below by (auto simp: Cons.prems(2) e word_less_nat_alt intro!: Min_eqI)
  have pop: "unat (fst (bv_pop env bv)) = unat rid"
    "held (snd (bv_pop env bv)) = unat ` fst ` set m"
    using laws min notin Cons.prems(2) unfolding e bitvector_laws_def by auto
  then obtain bv' where bv': "bv_pop env bv = (rid, bv')" "held bv' = unat ` fst ` set m"
    by (metis prod.collapse word_unat_eq_iff)
  have "omap_emplace rid sig acc = acc @ [(rid, sig)]"
    using above wf by (induction acc) (auto simp: omap_wf_Cons)
  then have "pop_sigs env bv (map snd (e # m)) acc =
      pop_sigs env bv' (map snd m) (acc @ [(rid, sig)])"
    using bv' by (simp add: e)
  also have "\<dots> = acc @ e # m"
    using Cons.IH [of "acc @ [(rid, sig)]" bv'] Cons.prems(1) bv'(2) by (simp add: e)
  finally show ?case .
qed

lemma parse_serialize:
  assumes "bitvector_laws env held" "qc_wf qc"
  shows "parse_QuorumCertificate env (serialize env qc) = qc"
proof -
  obtain out bv where ser: "serialize_sigs env (sigs qc) [] (bv_empty env) = (out, bv)"
    by fastforce
  have out: "out = map snd (sigs qc)"
    using serialize_sigs_out [of env "sigs qc" "[]" "bv_empty env"] ser by simp
  have bits: "held bv = unat ` fst ` set (sigs qc)"
    using serialize_sigs_bits [of env held "sigs qc" "[]" "bv_empty env"] assms ser
    by (auto simp: qc_wf_def signers_def bitvector_laws_def)
  let ?bv = "bv_init env (bv_get env bv)"
  have held: "held ?bv = unat ` fst ` set (sigs qc)"
    using assms(1) bits by (auto simp: bitvector_laws_def)
  moreover have "card (unat ` fst ` set (sigs qc)) = length (sigs qc)"
    using card_signers [OF assms(2)]
    by (subst card_image) (auto simp: signers_def inj_on_def word_unat_eq_iff)
  ultimately have "bv_size env ?bv = length (sigs qc)"
    using assms(1) by (simp add: bitvector_laws_def)
  moreover have "pop_sigs env ?bv (map snd (sigs qc)) [] = sigs qc"
    using pop_sigs_restores [OF assms(1), of "[]" "sigs qc" ?bv] held assms(2)
    by (simp add: qc_wf_def)
  ultimately show ?thesis
    by (simp add: serialize_def ser out parse_QuorumCertificate_def Let_def)
qed

text \<open>
  C6 --- Wire round trip. A quorum certificate whose signer ids are below \<open>MAX_REPLICAS\<close> is
  restored from its serialised form with every signature under its own signer, whatever the
  signatures are. The hypothesis is the documented behaviour of \<open>utils::BitVector\<close>.
\<close>

theorem qc_wire_roundtrip:
  assumes "bitvector_laws env held" "qc_wf qc"
  shows "parse_QuorumCertificate env (serialize env qc) = qc"
  using assms by (rule parse_serialize)

definition demo_qc :: QuorumCertificate where
  "demo_qc = \<lparr>obj_hash = pad32 [7], sigs = [(0, [0] @ pad32 [7]), (1, [1] @ pad32 [7]),
     (3, [3] @ pad32 [7])]\<rparr>"

lemma demo_qc_wf: "qc_wf demo_qc"
  by (simp add: demo_qc_def qc_wf_def omap_wf_def signers_def MAX_REPLICAS_def)

theorem qc_wire_roundtrip_witness:
  "parse_QuorumCertificate demo_env (serialize demo_env demo_qc) = demo_qc"
  by (rule qc_wire_roundtrip [OF demo_bitvector_laws demo_qc_wf])

section \<open>Verification\<close>

definition sig_ok ::
  "('bv, 'db, 'tx) env \<Rightarrow> ReplicaConfig \<Rightarrow> Hash \<Rightarrow> ReplicaID \<times> Signature \<Rightarrow> bool" where
  "sig_ok env cfg h e \<longleftrightarrow> (\<exists>pk. get_publickey cfg (fst e) = Inr pk \<and> check_sig env (snd e) h pk)"

lemma count_valid_known:
  "fst ` set m \<subseteq> replica_ids cfg \<Longrightarrow>
     count_valid env cfg h m n = Inr (n + length (filter (sig_ok env cfg h) m))"
proof (induction env cfg h m n rule: count_valid.induct)
  case (1 env cfg h n)
  then show ?case by simp
next
  case (2 env cfg h rid sig rest n)
  have "returns (get_publickey cfg rid)"
    using "2.prems" by (simp add: get_publickey_returns_iff)
  then obtain pk where pk: "get_publickey cfg rid = Inr pk" by (auto simp: returns_def)
  have "sig_ok env cfg h (rid, sig) \<longleftrightarrow> check_sig env sig h pk"
    by (simp add: sig_ok_def pk)
  then show ?case using "2" pk by simp
qed

lemma count_valid_unknown:
  "\<not> fst ` set m \<subseteq> replica_ids cfg \<Longrightarrow> \<not> returns (count_valid env cfg h m n)"
proof (induction env cfg h m n rule: count_valid.induct)
  case (1 env cfg h n)
  then show ?case by simp
next
  case (2 env cfg h rid sig rest n)
  show ?case
  proof (cases "get_publickey cfg rid")
    case (Inl e)
    then show ?thesis by simp
  next
    case (Inr pk)
    then have "rid \<in> replica_ids cfg"
      using get_publickey_returns_iff [of cfg rid] by simp
    then show ?thesis using "2" Inr by simp
  qed
qed

lemma valid_signers_filter:
  "valid_signers env cfg qc = fst ` set (filter (sig_ok env cfg (obj_hash qc)) (sigs qc))"
  by (force simp: valid_signers_def sig_ok_def)

lemma card_valid_signers:
  assumes "omap_wf (sigs qc)"
  shows "card (valid_signers env cfg qc) =
    length (filter (sig_ok env cfg (obj_hash qc)) (sigs qc))"
proof -
  have "distinct (map fst (filter (sig_ok env cfg (obj_hash qc)) (sigs qc)))"
    using omap_wf_distinct [OF assms] by (simp add: distinct_map_filter)
  then show ?thesis
    unfolding valid_signers_filter by (metis distinct_card length_map list.set_map)
qed

lemma valid_signers_known: "valid_signers env cfg qc \<subseteq> replica_ids cfg"
  using get_publickey_returns_iff [of cfg] by (fastforce simp: valid_signers_def)

lemma verify_quorum:
  assumes "verify env cfg qc = Inr True" "omap_wf (sigs qc)" "obj_hash qc \<noteq> zero_hash"
  shows "is_quorum cfg (valid_signers env cfg qc)"
proof -
  obtain n where n: "count_valid env cfg (obj_hash qc) (sigs qc) 0 = Inr n" "nmajority cfg \<le> n"
    using assms by (auto simp: verify_def split: if_splits)
  then have "fst ` set (sigs qc) \<subseteq> replica_ids cfg"
    by (metis count_valid_unknown returns_simps(1))
  then have "n = card (valid_signers env cfg qc)"
    using n(1) by (simp add: count_valid_known card_valid_signers [OF assms(2)])
  then show ?thesis
    using n(2) valid_signers_known by (simp add: is_quorum_def)
qed

text \<open>
  C7 --- A certificate that \<open>verify\<close> accepts carries a quorum of valid signatures. For a
  certificate received from the wire and any object other than the genesis block (whose hash is
  all zeros), acceptance means that at least \<open>nmajority\<close> distinct replicas of the configuration
  have a signature on the certified hash that checks under their public key.
\<close>

theorem verify_sound:
  assumes "verify env cfg (parse_QuorumCertificate env w) = Inr True" "justify w \<noteq> zero_hash"
  shows "is_quorum cfg (valid_signers env cfg (parse_QuorumCertificate env w))"
  using assms verify_quorum [OF assms(1) parse_wf] by simp

theorem verify_sound_witness:
  "is_quorum (demo_config 4)
     (valid_signers demo_env (demo_config 4)
       (parse_QuorumCertificate demo_env (serialize demo_env demo_qc)))"
proof (rule verify_sound)
  have "verify demo_env (demo_config 4) demo_qc = Inr True"
    by (simp add: verify_def demo_qc_def pad32_nonzero get_publickey_demo replica_ids_demo_4
        check_sig_def demo_env_def)
  then show "verify demo_env (demo_config 4)
      (parse_QuorumCertificate demo_env (serialize demo_env demo_qc)) = Inr True"
    by (simp add: parse_serialize [OF demo_bitvector_laws demo_qc_wf])
  show "justify (serialize demo_env demo_qc) \<noteq> zero_hash"
    by (simp add: demo_qc_def pad32_nonzero)
qed

text \<open>
  C8 --- A certificate assembled from valid votes survives the wire and verifies. If every
  collected signature is valid and \<open>has_quorum\<close> holds, then the receiver that parses the
  serialised certificate accepts it.
\<close>

theorem verify_complete:
  assumes "bitvector_laws env held" "qc_wf qc" "has_quorum cfg qc"
    and "\<forall>e \<in> set (sigs qc). sig_ok env cfg (obj_hash qc) e"
  shows "verify env cfg (parse_QuorumCertificate env (serialize env qc)) = Inr True"
proof -
  have "fst ` set (sigs qc) \<subseteq> replica_ids cfg"
    using assms(4) get_publickey_returns_iff [of cfg] by (fastforce simp: sig_ok_def)
  then have "count_valid env cfg (obj_hash qc) (sigs qc) 0 = Inr (length (sigs qc))"
    using assms(4) by (simp add: count_valid_known)
  then show ?thesis
    using assms(3) by (simp add: parse_serialize [OF assms(1,2)] verify_def has_quorum_def)
qed

theorem verify_complete_witness:
  "verify demo_env (demo_config 4)
     (parse_QuorumCertificate demo_env (serialize demo_env demo_qc)) = Inr True"
proof (rule verify_complete [OF demo_bitvector_laws demo_qc_wf])
  show "has_quorum (demo_config 4) demo_qc"
    by (simp add: has_quorum_def demo_qc_def)
  show "\<forall>e \<in> set (sigs demo_qc). sig_ok demo_env (demo_config 4) (obj_hash demo_qc) e"
    by (simp add: sig_ok_def demo_qc_def get_publickey_demo replica_ids_demo_4
        check_sig_def demo_env_def)
qed

text \<open>
  C9 --- \<open>verify\<close> is not total on certificates received from the network: when the certified hash
  is not the genesis hash and there are enough signatures, one signer id that is not in the
  configuration makes \<open>get_publickey\<close> throw, and the certificate is neither accepted nor rejected.
  In every other case \<open>verify\<close> returns.
\<close>

theorem verify_throws_iff:
  "\<not> returns (verify env cfg qc) \<longleftrightarrow>
     obj_hash qc \<noteq> zero_hash \<and> has_quorum cfg qc \<and> \<not> signers qc \<subseteq> replica_ids cfg"
proof (cases "signers qc \<subseteq> replica_ids cfg")
  case True
  then have "count_valid env cfg (obj_hash qc) (sigs qc) 0 =
      Inr (length (filter (sig_ok env cfg (obj_hash qc)) (sigs qc)))"
    by (simp add: count_valid_known signers_def)
  then show ?thesis using True by (simp add: verify_def)
next
  case False
  then have "\<not> returns (count_valid env cfg (obj_hash qc) (sigs qc) 0)"
    by (simp add: count_valid_unknown signers_def)
  then obtain e where "count_valid env cfg (obj_hash qc) (sigs qc) 0 = Inl e"
    by (metis returns_def sum.exhaust)
  then show ?thesis using False by (auto simp: verify_def has_quorum_def)
qed

end
