(* ===== verification/Block.thy ===== *)
theory Block
  imports Certs
begin

text \<open>
  Blocks (\<^verbatim>\<open>src/hotstuff/block.cc\<close>, \<^verbatim>\<open>block.h\<close>) and their files (\<^verbatim>\<open>block_storage/io_utils.cc\<close>,
  \<^verbatim>\<open>utils/hs_save_load_xdr.h\<close>). A \<open>block_ptr_t\<close> is a \<open>std::shared_ptr\<close>; the objects live in a
  heap, a list whose positions are the addresses, so that sharing, pointer comparison and
  mutation through one of several pointers are explicit. Objects are never freed here.
\<close>

section \<open>Block objects and the heap\<close>

type_synonym block_addr = nat
type_synonym block_ptr_t = "block_addr option"

record HotstuffBlock =
  wire_block :: HotstuffBlockWire
  parsed_qc :: "QuorumCertificate option"
  proposer :: ReplicaID
  block_height :: uint64
  parent_block_ptr :: block_ptr_t
  justify_block_ptr :: block_ptr_t
  self_qc :: QuorumCertificate
  decided :: bool
  written_to_disk :: bool
  hash_checked :: bool
  hash_valid :: bool
  flushed_from_memory :: bool

type_synonym block_heap = "HotstuffBlock list"

definition deref :: "block_heap \<Rightarrow> block_addr \<Rightarrow> HotstuffBlock result" where
  "deref h a = (if a < length h then Inr (h ! a) else Inl NullDeref)"

definition upd_block :: "block_addr \<Rightarrow> (HotstuffBlock \<Rightarrow> HotstuffBlock) \<Rightarrow> block_heap \<Rightarrow> block_heap"
  where "upd_block a f h = h[a := f (h ! a)]"

definition alloc_block :: "HotstuffBlock \<Rightarrow> block_heap \<Rightarrow> block_addr \<times> block_heap" where
  "alloc_block b h = (length h, h @ [b])"

section \<open>Accessors\<close>

definition get_hash :: "HotstuffBlock \<Rightarrow> Hash" where
  "get_hash b = obj_hash (self_qc b)"

definition get_justify_qc :: "HotstuffBlock \<Rightarrow> QuorumCertificate result" where
  "get_justify_qc b = of_option NullDeref (parsed_qc b)"

definition get_justify_hash :: "HotstuffBlock \<Rightarrow> Hash result" where
  "get_justify_hash b = bindE (get_justify_qc b) (\<lambda>qc. Inr (obj_hash qc))"

definition get_parent_hash :: "HotstuffBlock \<Rightarrow> Hash" where
  "get_parent_hash b = parent_hash (header (wire_block b))"

definition get_wire_body :: "HotstuffBlock \<Rightarrow> bytes" where
  "get_wire_body b = body (wire_block b)"

definition to_wire :: "HotstuffBlock \<Rightarrow> HotstuffBlockWire" where
  "to_wire b = wire_block b"

section \<open>Constructors\<close>

definition new_HotstuffBlock ::
  "('bv, 'db, 'tx) env \<Rightarrow> HotstuffBlockWire \<Rightarrow> ReplicaID \<Rightarrow> HotstuffBlock result" where
  "new_HotstuffBlock env wire rid =
     bindE (hash_header env (header wire)) (\<lambda>hash. Inr
      \<lparr>wire_block = wire,
       parsed_qc = Some (parse_QuorumCertificate env (header_qc (header wire))),
       proposer = rid,
       block_height = 0,
       parent_block_ptr = None,
       justify_block_ptr = None,
       self_qc = new_QuorumCertificate hash,
       decided = False,
       written_to_disk = False,
       hash_checked = False,
       hash_valid = False,
       flushed_from_memory = False\<rparr>)"

definition new_HotstuffBlock_from_disk ::
  "('bv, 'db, 'tx) env \<Rightarrow> HotstuffBlockWire \<Rightarrow> HotstuffBlock result" where
  "new_HotstuffBlock_from_disk env wire =
     bindE (hash_header env (header wire)) (\<lambda>hash. Inr
      \<lparr>wire_block = wire,
       parsed_qc = Some (parse_QuorumCertificate env (header_qc (header wire))),
       proposer = UNKNOWN_REPLICA,
       block_height = 0,
       parent_block_ptr = None,
       justify_block_ptr = None,
       self_qc = new_QuorumCertificate hash,
       decided = True,
       written_to_disk = True,
       hash_checked = True,
       hash_valid = True,
       flushed_from_memory = False\<rparr>)"

definition new_HotstuffBlock_genesis :: HotstuffBlock where
  "new_HotstuffBlock_genesis =
      \<lparr>wire_block =
         \<lparr>header = \<lparr>parent_hash = zero_hash,
                    header_qc = \<lparr>justify = zero_hash, bmp = 0, wire_sigs = []\<rparr>,
                    body_hash = zero_hash\<rparr>,
          body = []\<rparr>,
       parsed_qc = None,
       proposer = UNKNOWN_REPLICA,
       block_height = 0,
       parent_block_ptr = None,
       justify_block_ptr = None,
       self_qc = new_QuorumCertificate zero_hash,
       decided = True,
       written_to_disk = True,
       hash_checked = True,
       hash_valid = True,
       flushed_from_memory = True\<rparr>"

definition genesis_block :: "block_heap \<Rightarrow> block_addr \<times> block_heap" where
  "genesis_block h = alloc_block new_HotstuffBlock_genesis h"

definition receive_block ::
  "('bv, 'db, 'tx) env \<Rightarrow> HotstuffBlockWire \<Rightarrow> ReplicaID \<Rightarrow> block_heap \<Rightarrow>
   (block_addr \<times> block_heap) result" where
  "receive_block env wire source_id h =
     bindE (new_HotstuffBlock env wire source_id) (\<lambda>b. Inr (alloc_block b h))"

definition mint_block ::
  "('bv, 'db, 'tx) env \<Rightarrow> bytes \<Rightarrow> QuorumCertificateWire \<Rightarrow> Hash \<Rightarrow> ReplicaID \<Rightarrow> block_heap \<Rightarrow>
   (block_addr \<times> block_heap) result" where
  "mint_block env bs qc_wire parent_h self_id h =
     bindE (hash_body env bs) (\<lambda>bh.
     bindE (new_HotstuffBlock env
              \<lparr>header = \<lparr>parent_hash = parent_h, header_qc = qc_wire, body_hash = bh\<rparr>,
               body = bs\<rparr> self_id) (\<lambda>b.
     Inr (alloc_block b h)))"

section \<open>Block files\<close>

definition hex_digit :: "nat \<Rightarrow> char" where
  "hex_digit n = ''0123456789abcdef'' ! n"

fun array_to_str :: "bytes \<Rightarrow> string" where
  "array_to_str [] = []"
| "array_to_str (b # bs) =
     hex_digit (unat b div 16) # hex_digit (unat b mod 16) # array_to_str bs"

definition block_filename :: "Hash \<Rightarrow> ReplicaInfo \<Rightarrow> string" where
  "block_filename header_hash info =
     hotstuff_block_data_dir info @ array_to_str header_hash @ ''.block''"

definition save_xdr_to_file ::
  "('bv, 'db, 'tx) env \<Rightarrow> HotstuffBlockWire \<Rightarrow> string \<Rightarrow> disk \<Rightarrow> disk option" where
  "save_xdr_to_file env w filename d =
     (if fopen_for_writing_ok env filename
      then Some (d(filename \<mapsto> xdr_block_to_opaque env w)) else None)"

text \<open>\<open>Inr None\<close> is the return value -1; malformed contents make xdrpp throw.\<close>

definition load_xdr_from_file ::
  "('bv, 'db, 'tx) env \<Rightarrow> string \<Rightarrow> disk \<Rightarrow> HotstuffBlockWire option result" where
  "load_xdr_from_file env filename d =
     (case d filename of
        None \<Rightarrow> Inr None
      | Some contents \<Rightarrow>
          bindE (of_option XdrError (xdr_block_from_opaque env contents)) (\<lambda>w. Inr (Some w)))"

definition save_block ::
  "('bv, 'db, 'tx) env \<Rightarrow> HotstuffBlockWire \<Rightarrow> ReplicaInfo \<Rightarrow> disk \<Rightarrow> disk result" where
  "save_block env w info d =
     bindE (hash_header env (header w)) (\<lambda>header_hash.
     of_option (RuntimeError ''failed to save file'')
       (save_xdr_to_file env w (block_filename header_hash info) d))"

definition load_block ::
  "('bv, 'db, 'tx) env \<Rightarrow> Hash \<Rightarrow> ReplicaInfo \<Rightarrow> disk \<Rightarrow> HotstuffBlockWire option result" where
  "load_block env req_header_hash info d =
     load_xdr_from_file env (block_filename req_header_hash info) d"

definition load_decided_block ::
  "('bv, 'db, 'tx) env \<Rightarrow> Hash \<Rightarrow> ReplicaInfo \<Rightarrow> disk \<Rightarrow> block_heap \<Rightarrow>
   (block_addr \<times> block_heap) result" where
  "load_decided_block env hash info d h =
     bindE (load_block env hash info d) (\<lambda>loaded.
     bindE (of_option (RuntimeError ''failed to load an expected block!'') loaded) (\<lambda>w.
     bindE (new_HotstuffBlock_from_disk env w) (\<lambda>b.
     Inr (alloc_block b h))))"

section \<open>Methods\<close>

definition set_parent :: "block_addr \<Rightarrow> block_addr \<Rightarrow> block_heap \<Rightarrow> block_heap result" where
  "set_parent a parent_block h =
     bindE (deref h parent_block) (\<lambda>p.
     bindE (deref h a) (\<lambda>_.
     Inr (upd_block a (\<lambda>b. b\<lparr>parent_block_ptr := Some parent_block,
                             block_height := block_height p + 1\<rparr>) h)))"

definition set_justify :: "block_addr \<Rightarrow> block_addr \<Rightarrow> block_heap \<Rightarrow> block_heap result" where
  "set_justify a justify_block h =
     bindE (deref h a) (\<lambda>_.
     Inr (upd_block a (\<lambda>b. b\<lparr>justify_block_ptr := Some justify_block\<rparr>) h))"

definition has_body :: "HotstuffBlock \<Rightarrow> bool result" where
  "has_body b =
     (if flushed_from_memory b
      then Inl (RuntimeError ''can't query body if flushed from memory'')
      else Inr (length (body (wire_block b)) > 0))"

definition decide :: "block_addr \<Rightarrow> block_heap \<Rightarrow> block_heap result" where
  "decide a h = bindE (deref h a) (\<lambda>_. Inr (upd_block a (\<lambda>b. b\<lparr>decided := True\<rparr>) h))"

fun supports_nonempty_child_proposal ::
  "block_heap \<Rightarrow> block_addr \<Rightarrow> ReplicaID \<Rightarrow> nat \<Rightarrow> bool result" where
  "supports_nonempty_child_proposal h a self_id 0 = Inr True"
| "supports_nonempty_child_proposal h a self_id (Suc depth) =
     bindE (deref h a) (\<lambda>b.
       if self_id \<noteq> proposer b then Inr False
       else if justify_block_ptr b = None then Inr False
       else case parent_block_ptr b of
              None \<Rightarrow> Inr False
            | Some p \<Rightarrow>
                bindE (get_justify_hash b) (\<lambda>jh.
                  if jh \<noteq> get_parent_hash b then Inr False
                  else supports_nonempty_child_proposal h p self_id depth))"

text \<open>The cached check that the body hashes to the header's \<open>body_hash\<close>.\<close>

definition validate_hash ::
  "('bv, 'db, 'tx) env \<Rightarrow> HotstuffBlock \<Rightarrow> (bool \<times> HotstuffBlock) result" where
  "validate_hash env b =
     (if hash_checked b then Inr (hash_valid b, b)
      else bindE (hash_body env (body (wire_block b))) (\<lambda>hash.
        if hash \<noteq> body_hash (header (wire_block b))
        then Inr (False, b\<lparr>hash_checked := True, hash_valid := False\<rparr>)
        else Inr (True, b\<lparr>hash_checked := True, hash_valid := True\<rparr>)))"

definition validate_hotstuff ::
  "('bv, 'db, 'tx) env \<Rightarrow> ReplicaConfig \<Rightarrow> HotstuffBlock \<Rightarrow> (bool \<times> HotstuffBlock) result" where
  "validate_hotstuff env cfg b =
     bindE (validate_hash env b) (\<lambda>(ok, b).
       if \<not> ok then Inr (False, b)
       else bindE (get_justify_qc b) (\<lambda>qc.
              bindE (verify env cfg qc) (\<lambda>v. Inr (v, b))))"

definition flush_from_memory :: "HotstuffBlock \<Rightarrow> HotstuffBlock" where
  "flush_from_memory b =
     (if flushed_from_memory b then b
      else b\<lparr>flushed_from_memory := True, wire_block := (wire_block b)\<lparr>body := []\<rparr>\<rparr>)"

text \<open>
  \<open>write_to_disk\<close> follows parent pointers until it meets a block that was written before. The
  recursion ends because every call marks one more object of the heap.
\<close>

definition unwritten :: "block_heap \<Rightarrow> nat" where
  "unwritten h = length (filter (\<lambda>b. \<not> written_to_disk b) h)"

lemma filter_update_less:
  "a < length h \<Longrightarrow> P (h ! a) \<Longrightarrow> \<not> P b \<Longrightarrow> length (filter P (h[a := b])) < length (filter P h)"
proof (induction h arbitrary: a)
  case Nil
  then show ?case by simp
next
  case (Cons x h)
  then show ?case by (cases a) auto
qed

lemma unwritten_mark:
  "deref h a = Inr b \<Longrightarrow> \<not> written_to_disk b \<Longrightarrow>
     unwritten (upd_block a (\<lambda>b. b\<lparr>written_to_disk := True\<rparr>) h) < unwritten h"
  unfolding unwritten_def upd_block_def
  by (rule filter_update_less) (auto simp: deref_def split: if_splits)

function write_to_disk ::
  "('bv, 'db, 'tx) env \<Rightarrow> ReplicaInfo \<Rightarrow> block_addr \<Rightarrow> block_heap \<Rightarrow> disk \<Rightarrow>
   (block_heap \<times> disk) result" where
  "write_to_disk env info a h d =
     (case deref h a of
        Inl e \<Rightarrow> Inl e
      | Inr b \<Rightarrow>
          if written_to_disk b then Inr (h, d)
          else case save_block env (wire_block b) info d of
                 Inl e \<Rightarrow> Inl e
               | Inr d' \<Rightarrow>
                   (case parent_block_ptr b of
                      None \<Rightarrow> Inr (upd_block a (\<lambda>b. b\<lparr>written_to_disk := True\<rparr>) h, d')
                    | Some p \<Rightarrow>
                        write_to_disk env info p
                          (upd_block a (\<lambda>b. b\<lparr>written_to_disk := True\<rparr>) h) d'))"
  by pat_completeness auto
termination
  by (relation "measure (\<lambda>(env, info, a, h, d). unwritten h)") (auto intro: unwritten_mark)

declare write_to_disk.simps [simp del]

section \<open>Updating a set of objects\<close>

definition upd_all :: "(HotstuffBlock \<Rightarrow> HotstuffBlock) \<Rightarrow> block_addr set \<Rightarrow> block_heap \<Rightarrow> block_heap" where
  "upd_all f S h = map (\<lambda>a. if a \<in> S then f (h ! a) else h ! a) [0..<length h]"

lemma length_upd_all [simp]: "length (upd_all f S h) = length h"
  by (simp add: upd_all_def)

lemma nth_upd_all: "a < length h \<Longrightarrow> upd_all f S h ! a = (if a \<in> S then f (h ! a) else h ! a)"
  by (simp add: upd_all_def)

lemma upd_block_all: "upd_block a f h = upd_all f {a} h"
  by (rule nth_equalityI) (auto simp: upd_block_def nth_upd_all nth_list_update)

lemma upd_all_Un: "(\<And>b. f (f b) = f b) \<Longrightarrow> upd_all f S (upd_all f T h) = upd_all f (S \<union> T) h"
  by (rule nth_equalityI) (auto simp: nth_upd_all)

lemma upd_all_id: "(\<And>a. a \<in> S \<Longrightarrow> a < length h \<Longrightarrow> f (h ! a) = h ! a) \<Longrightarrow> upd_all f S h = h"
  by (rule nth_equalityI) (auto simp: nth_upd_all)

lemma upd_all_empty [simp]: "upd_all f {} h = h"
  by (rule upd_all_id) simp

section \<open>From the proposer to the receiver\<close>

lemma mint_block_fields:
  assumes "mint_block env bs qc_wire parent_h self_id h = Inr (a, h')"
  shows "parent_hash (header (wire_block (h' ! a))) = parent_h" "header_qc (header (wire_block (h' ! a))) = qc_wire"
    "hash_body env bs = Inr (body_hash (header (wire_block (h' ! a))))" "body (wire_block (h' ! a)) = bs"
    "hash_header env (header (wire_block (h' ! a))) = Inr (get_hash (h' ! a))" "take (length h) h' = h" "a = length h"
  using assms
  by (auto simp: mint_block_def new_HotstuffBlock_def alloc_block_def nth_append get_hash_def new_QuorumCertificate_def
      elim!: bindE_InrE)

text \<open>
  C35 --- A block on its way from the proposer to a receiver. Whatever body arrives under the header
  of a minted block, the receiver computes the same hash of the block. It accepts the block exactly when
  the digest of the body is that of the body the proposer used and the certificate verifies; a
  body that was tampered with is rejected without looking at the certificate.
\<close>

theorem receiver_validates_minted:
  assumes "mint_block env bs qc_wire parent_h self_id h = Inr (a, h')"
    and "receive_block env w rid g = Inr (a', g')" "header w = header (to_wire (h' ! a))"
  shows "get_hash (g' ! a') = get_hash (h' ! a) \<and>
    bindE (validate_hotstuff env cfg (g' ! a')) (\<lambda>(ok, _). Inr ok) =
      bindE (hash_body env (body w)) (\<lambda>bh.
        if hash_body env bs = Inr bh then verify env cfg (parse_QuorumCertificate env qc_wire) else Inr False)"
proof -
  note m = mint_block_fields [OF assms(1)]
  let ?hdr = "header (wire_block (h' ! a))"
  obtain b where b: "new_HotstuffBlock env w rid = Inr b" "g' ! a' = b"
    using assms(2) by (auto simp: receive_block_def alloc_block_def elim!: bindE_InrE)
  have f: "get_hash b = get_hash (h' ! a)" "wire_block b = w" "parsed_qc b = Some (parse_QuorumCertificate env qc_wire)"
    "\<not> hash_checked b"
    using b(1) m(2,5) assms(3)
    by (auto simp: new_HotstuffBlock_def to_wire_def get_hash_def new_QuorumCertificate_def elim!: bindE_InrE)
  have "header w = ?hdr" using assms(3) by (simp add: to_wire_def)
  then have "bindE (validate_hotstuff env cfg b) (\<lambda>(ok, _). Inr ok) =
      bindE (hash_body env (body w)) (\<lambda>bh.
        if hash_body env bs = Inr bh then verify env cfg (parse_QuorumCertificate env qc_wire) else Inr False)"
    using f m(3)
    by (cases "hash_body env (body w)"; cases "verify env cfg (parse_QuorumCertificate env qc_wire)")
      (auto simp: validate_hotstuff_def validate_hash_def get_justify_qc_def)
  then show ?thesis using b(2) f(1) by simp
qed

theorem receiver_validates_minted_witness:
  "\<exists>a h' a' g'. mint_block demo_env [7] (serialize demo_env demo_qc) zero_hash 0 [] = Inr (a, h') \<and>
     receive_block demo_env \<lparr>header = header (to_wire (h' ! a)), body = [8]\<rparr> 0 [] = Inr (a', g') \<and>
     get_hash (g' ! a') = get_hash (h' ! a) \<and>
     bindE (validate_hotstuff demo_env (demo_config 4) (g' ! a')) (\<lambda>(ok, _). Inr ok) = Inr False"
proof -
  have hb: "hash_body demo_env bs = Inr (pad32 bs)" for bs by (simp add: hash_body_def hash_xdr_def demo_env_def)
  have hh: "\<exists>x. hash_header demo_env hdr = Inr x" for hdr by (simp add: hash_header_def hash_xdr_def demo_env_def)
  obtain a h' where m: "mint_block demo_env [7] (serialize demo_env demo_qc) zero_hash 0 [] = Inr (a, h')"
    using hh [of "\<lparr>parent_hash = zero_hash, header_qc = serialize demo_env demo_qc, body_hash = pad32 [7]\<rparr>"]
    by (auto simp: mint_block_def new_HotstuffBlock_def alloc_block_def hb)
  let ?w = "\<lparr>header = header (to_wire (h' ! a)), body = [8]\<rparr>"
  obtain a' g' where r: "receive_block demo_env ?w 0 [] = Inr (a', g')"
    using hh [of "header ?w"] by (auto simp: receive_block_def new_HotstuffBlock_def alloc_block_def)
  have "pad32 [7] \<noteq> pad32 [8]" by (simp add: pad32_def)
  then show ?thesis
    using receiver_validates_minted [OF m r, of "demo_config 4"] m r hb by auto
qed

end
