(* ===== verification/BlockStorage.thy ===== *)
theory BlockStorage
  imports Block
begin

text \<open>
  The in-memory block store (\<^verbatim>\<open>src/hotstuff/block_storage/block_store.cc\<close>, \<^verbatim>\<open>block_store.h\<close>) and
  its garbage collector (\<^verbatim>\<open>garbage_collector.cc\<close>, \<^verbatim>\<open>garbage_collector.h\<close>). Both operate on the
  shared heap of blocks. The collector's thread is one definition, the body of its loop.
\<close>

section \<open>BlockGarbageCollector\<close>

record BlockGarbageCollector =
  hotstuff_height_to_gc :: "uint64 option"
  gc_list :: "block_addr list"
  gc_list_buffer :: "block_addr list"

definition new_BlockGarbageCollector :: BlockGarbageCollector where
  "new_BlockGarbageCollector =
     \<lparr>hotstuff_height_to_gc = None, gc_list = [], gc_list_buffer = []\<rparr>"

definition push_buffer_to_gc_list :: "BlockGarbageCollector \<Rightarrow> BlockGarbageCollector" where
  "push_buffer_to_gc_list gc = gc\<lparr>gc_list := gc_list gc @ gc_list_buffer gc, gc_list_buffer := []\<rparr>"

definition gc_exists_work_to_do :: "BlockGarbageCollector \<Rightarrow> bool" where
  "gc_exists_work_to_do gc \<longleftrightarrow> hotstuff_height_to_gc gc \<noteq> None"

text \<open>The loop of \<open>do_gc\<close>; \<open>i\<close> is the position of the iterator.\<close>

function do_gc :: "uint64 \<Rightarrow> nat \<Rightarrow> block_addr list \<Rightarrow> block_heap \<Rightarrow> (block_addr list \<times> block_heap) result"
  where
  "do_gc hotstuff_height i xs h =
     (if i < length xs then
        (case deref h (xs ! i) of
           Inl e \<Rightarrow> Inl e
         | Inr blk \<Rightarrow>
             if block_height blk < hotstuff_height
             then do_gc hotstuff_height i (butlast (xs[i := last xs]))
                    (upd_block (xs ! i) flush_from_memory h)
             else do_gc hotstuff_height (Suc i) xs h)
      else Inr (xs, h))"
  by pat_completeness auto
termination
  by (relation "measure (\<lambda>(hh, i, xs, h). length xs - i)") auto

declare do_gc.simps [simp del]

text \<open>One iteration of \<open>run\<close>, entered when there is work.\<close>

definition gc_run_step ::
  "BlockGarbageCollector \<Rightarrow> block_heap \<Rightarrow> (BlockGarbageCollector \<times> block_heap) result" where
  "gc_run_step gc h =
     (let gc = push_buffer_to_gc_list gc in
      bindE (of_option NullDeref (hotstuff_height_to_gc gc)) (\<lambda>hotstuff_height.
      let gc = gc\<lparr>hotstuff_height_to_gc := None\<rparr> in
      bindE (do_gc hotstuff_height 0 (gc_list gc) h) (\<lambda>(xs, h).
      Inr (gc\<lparr>gc_list := xs\<rparr>, h))))"

definition invoke_gc :: "uint64 \<Rightarrow> BlockGarbageCollector \<Rightarrow> BlockGarbageCollector" where
  "invoke_gc hotstuff_height gc = gc\<lparr>hotstuff_height_to_gc := Some hotstuff_height\<rparr>"

definition gc_add_block :: "block_addr \<Rightarrow> BlockGarbageCollector \<Rightarrow> BlockGarbageCollector" where
  "gc_add_block blk gc = gc\<lparr>gc_list_buffer := gc_list_buffer gc @ [blk]\<rparr>"

section \<open>BlockStore\<close>

record BlockStore =
  block_cache :: "Hash \<rightharpoonup> block_addr"
  gc_collector :: BlockGarbageCollector

record MissingDependencies =
  missing_parent :: "Hash option"
  missing_justify :: "Hash option"

definition MissingDependencies_bool :: "MissingDependencies \<Rightarrow> bool" where
  "MissingDependencies_bool m \<longleftrightarrow> missing_parent m \<noteq> None \<or> missing_justify m \<noteq> None"

definition emplace :: "Hash \<Rightarrow> block_addr \<Rightarrow> (Hash \<rightharpoonup> block_addr) \<Rightarrow> (Hash \<rightharpoonup> block_addr)" where
  "emplace k v m = (if m k = None then m(k \<mapsto> v) else m)"

definition new_BlockStore :: "block_addr \<Rightarrow> block_heap \<Rightarrow> BlockStore result" where
  "new_BlockStore genesis h =
     bindE (deref h genesis) (\<lambda>g.
     Inr \<lparr>block_cache = emplace (get_hash g) genesis Map.empty,
          gc_collector = new_BlockGarbageCollector\<rparr>)"

definition store_write_to_disk ::
  "('bv, 'db, 'tx) env \<Rightarrow> Hash \<Rightarrow> ReplicaInfo \<Rightarrow> BlockStore \<Rightarrow> block_heap \<Rightarrow> disk \<Rightarrow>
   (block_heap \<times> disk) result" where
  "store_write_to_disk env hash info bs h d =
     (case block_cache bs hash of
        None \<Rightarrow> Inl (RuntimeError ''could not find block that needs to go to disk!'')
      | Some a \<Rightarrow> write_to_disk env info a h d)"

definition insert_block ::
  "block_addr \<Rightarrow> block_heap \<Rightarrow> BlockStore \<Rightarrow>
   (MissingDependencies \<times> block_heap \<times> BlockStore) result" where
  "insert_block block h bs =
     bindE (deref h block) (\<lambda>b.
     bindE (get_justify_hash b) (\<lambda>justify_hash.
       let parent = get_parent_hash b;
           deps = \<lparr>missing_parent = (if block_cache bs parent = None then Some parent else None),
                   missing_justify =
                     (if block_cache bs justify_hash = None then Some justify_hash else None)\<rparr>
       in
       case (block_cache bs parent, block_cache bs justify_hash) of
         (Some parent_it, Some justify_it) \<Rightarrow>
           bindE (set_parent block parent_it h) (\<lambda>h.
           bindE (set_justify block justify_it h) (\<lambda>h.
           Inr (deps, h,
                bs\<lparr>block_cache := emplace (get_hash b) block (block_cache bs),
                   gc_collector := gc_add_block block (gc_collector bs)\<rparr>)))
       | _ \<Rightarrow> Inr (deps, h, bs)))"

definition get_block :: "Hash \<Rightarrow> BlockStore \<Rightarrow> block_ptr_t" where
  "get_block block_hash bs = block_cache bs block_hash"

definition prune_below_height :: "uint64 \<Rightarrow> BlockStore \<Rightarrow> BlockStore" where
  "prune_below_height prune_height bs =
     bs\<lparr>gc_collector := invoke_gc prune_height (gc_collector bs)\<rparr>"

section \<open>Serving block fetch requests\<close>

text \<open>
  \<open>BlockFetchHandler::fetch\<close> (\<^verbatim>\<open>block_fetch_server.cc\<close>): the bodies of flushed blocks are gone, so
  those blocks are left out of the response.
\<close>

fun BlockFetchHandler_fetch :: "BlockStore \<Rightarrow> block_heap \<Rightarrow> Hash list \<Rightarrow> HotstuffBlockWire list result"
  where
  "BlockFetchHandler_fetch bs h [] = Inr []"
| "BlockFetchHandler_fetch bs h (hash # reqs) =
     (case get_block hash bs of
        None \<Rightarrow> BlockFetchHandler_fetch bs h reqs
      | Some a \<Rightarrow>
          bindE (deref h a) (\<lambda>b.
          bindE (BlockFetchHandler_fetch bs h reqs) (\<lambda>rest.
          Inr (if flushed_from_memory b then rest else to_wire b # rest))))"

section \<open>The collector\<close>

abbreviation flush_all :: "block_addr set \<Rightarrow> block_heap \<Rightarrow> block_heap" where
  "flush_all \<equiv> upd_all flush_from_memory"

lemma flush_height [simp]: "block_height (flush_from_memory b) = block_height b"
  by (simp add: flush_from_memory_def)

lemma flush_twice [simp]: "flush_from_memory (flush_from_memory b) = flush_from_memory b"
  by (simp add: flush_from_memory_def)

definition stale :: "uint64 \<Rightarrow> block_heap \<Rightarrow> block_addr \<Rightarrow> bool" where
  "stale hh h a \<longleftrightarrow> block_height (h ! a) < hh"

lemma stale_flush_all [simp]: "a < length h \<Longrightarrow> stale hh (flush_all S h) a \<longleftrightarrow> stale hh h a"
  by (simp add: stale_def nth_upd_all)

lemma swap_with_last_sets:
  assumes "i < length xs"
  shows "set (butlast (xs[i := last xs])) \<subseteq> set xs"
    and "set (drop i (butlast (xs[i := last xs]))) = set (drop (Suc i) xs)"
proof -
  have "set (xs[i := last xs]) \<subseteq> set xs"
    using assms by (intro set_update_subsetI) (auto intro: last_in_set)
  then show "set (butlast (xs[i := last xs])) \<subseteq> set xs"
    by (meson in_set_butlastD subset_iff)
  show "set (drop i (butlast (xs[i := last xs]))) = set (drop (Suc i) xs)"
    using swap_with_last(1) [OF assms] by (metis set_mset_mset)
qed

lemma swap_remove_cong:
  "(\<And>x. x \<in> set xs \<Longrightarrow> P x = Q x) \<Longrightarrow> swap_remove P i xs = swap_remove Q i xs"
proof (induction Q i xs rule: swap_remove.induct)
  case (1 Q i xs)
  show ?case
  proof (cases "i < length xs")
    case False
    then show ?thesis by (simp add: swap_remove.simps [of P i xs] swap_remove.simps [of Q i xs])
  next
    case True
    note sub = swap_with_last_sets(1) [OF True]
    show ?thesis
    proof (cases "Q (xs ! i)")
      case q: True
      then have "swap_remove P i (butlast (xs[i := last xs])) = swap_remove Q i (butlast (xs[i := last xs]))"
        using "1.IH"(1) [OF True q] "1.prems" sub by blast
      then show ?thesis
        using q True "1.prems" [of "xs ! i"]
        by (simp add: swap_remove.simps [of P i xs] swap_remove.simps [of Q i xs])
    next
      case q: False
      then have "swap_remove P (Suc i) xs = swap_remove Q (Suc i) xs"
        using "1.IH"(2) [OF True q] "1.prems" by blast
      then show ?thesis
        using q True "1.prems" [of "xs ! i"]
        by (simp add: swap_remove.simps [of P i xs] swap_remove.simps [of Q i xs])
    qed
  qed
qed

lemma do_gc_result:
  "set xs \<subseteq> {..<length h} \<Longrightarrow>
     do_gc hh i xs h =
       Inr (swap_remove (stale hh h) i xs, flush_all {a \<in> set (drop i xs). stale hh h a} h)"
proof (induction hh i xs h rule: do_gc.induct)
  case (1 hh i xs h)
  show ?case
  proof (cases "i < length xs")
    case False
    then show ?thesis by (simp add: do_gc.simps [of hh i xs h] swap_remove.simps [of _ i xs])
  next
    case True
    let ?a = "xs ! i" and ?ys = "butlast (xs[i := last xs])"
    have a: "?a < length h" using "1.prems" True nth_mem by blast
    have dr: "deref h ?a = Inr (h ! ?a)" using a by (simp add: deref_def)
    have split: "set (drop i xs) = insert ?a (set (drop (Suc i) xs))"
      using True by (metis Cons_nth_drop_Suc list.simps(15))
    show ?thesis
    proof (cases "stale hh h ?a")
      case st: True
      let ?h = "flush_all {?a} h"
      note tail = swap_with_last_sets(2) [OF True]
      have ys: "set ?ys \<subseteq> {..<length h}"
        using swap_with_last_sets(1) [OF True] "1.prems" by blast
      have "do_gc hh i xs h = do_gc hh i ?ys ?h"
        using True a st by (subst do_gc.simps) (simp add: deref_def stale_def upd_block_all)
      also have "\<dots> = Inr (swap_remove (stale hh ?h) i ?ys,
          flush_all {b \<in> set (drop i ?ys). stale hh ?h b} ?h)"
        using "1.IH"(1) [OF True dr] a st ys by (simp add: stale_def [symmetric] upd_block_all)
      also have "swap_remove (stale hh ?h) i ?ys = swap_remove (stale hh h) i xs"
      proof -
        have "swap_remove (stale hh ?h) i ?ys = swap_remove (stale hh h) i ?ys"
          using ys by (intro swap_remove_cong) auto
        then show ?thesis using True st by (simp add: swap_remove.simps [of _ i xs])
      qed
      also have "flush_all {b \<in> set (drop i ?ys). stale hh ?h b} ?h =
          flush_all {b \<in> set (drop i xs). stale hh h b} h"
      proof -
        have "set (drop (Suc i) xs) \<subseteq> {..<length h}"
          using "1.prems" by (auto dest: in_set_dropD)
        then have "{b \<in> set (drop i ?ys). stale hh ?h b} \<union> {?a} = {b \<in> set (drop i xs). stale hh h b}"
          unfolding tail split using st by auto
        then show ?thesis by (simp only: upd_all_Un [OF flush_twice])
      qed
      finally show ?thesis .
    next
      case st: False
      have "do_gc hh i xs h = do_gc hh (Suc i) xs h"
        using True a st by (subst do_gc.simps) (simp add: deref_def stale_def)
      also have "\<dots> = Inr (swap_remove (stale hh h) (Suc i) xs,
          flush_all {b \<in> set (drop (Suc i) xs). stale hh h b} h)"
        using "1.IH"(2) [OF True dr] st "1.prems" by (simp add: stale_def [symmetric])
      also have "{b \<in> set (drop (Suc i) xs). stale hh h b} = {b \<in> set (drop i xs). stale hh h b}"
        unfolding split using st by auto
      also have "swap_remove (stale hh h) (Suc i) xs = swap_remove (stale hh h) i xs"
        using True st by (simp add: swap_remove.simps [of _ i xs])
      finally show ?thesis .
    qed
  qed
qed

text \<open>
  C15 --- Garbage collection. One iteration of the collector, invoked for a height, returns; it
  flushes exactly the collected blocks below that height, keeps every other block as it is, and
  goes on tracking exactly the blocks at or above the height, each as often as before, including
  the ones that were buffered while it was asleep.
\<close>

theorem gc_run_step_correct:
  assumes "hotstuff_height_to_gc gc = Some hh"
    and "set (gc_list gc @ gc_list_buffer gc) \<subseteq> {..<length h}"
  shows "\<exists>xs. gc_run_step gc h =
      Inr (\<lparr>hotstuff_height_to_gc = None, gc_list = xs, gc_list_buffer = []\<rparr>,
           flush_all {a \<in> set (gc_list gc @ gc_list_buffer gc). block_height (h ! a) < hh} h) \<and>
    mset xs = filter_mset (\<lambda>a. \<not> block_height (h ! a) < hh) (mset (gc_list gc @ gc_list_buffer gc))"
proof -
  let ?xs = "gc_list gc @ gc_list_buffer gc"
  have "gc_run_step gc h =
      Inr (\<lparr>hotstuff_height_to_gc = None, gc_list = swap_remove (stale hh h) 0 ?xs, gc_list_buffer = []\<rparr>,
           flush_all {a \<in> set ?xs. stale hh h a} h)"
    using assms do_gc_result [of ?xs h hh 0]
    by (simp add: gc_run_step_def push_buffer_to_gc_list_def Let_def)
  then show ?thesis
    using mset_swap_remove [of "stale hh h" ?xs] by (simp add: stale_def)
qed

theorem gc_run_step_correct_witness:
  "let b = \<lambda>n. new_HotstuffBlock_genesis\<lparr>block_height := n\<rparr>;
       h = [b 4, b 9, b 2];
       gc = \<lparr>hotstuff_height_to_gc = Some 5, gc_list = [0, 1], gc_list_buffer = [2]\<rparr>
   in \<exists>xs. gc_run_step gc h =
        Inr (\<lparr>hotstuff_height_to_gc = None, gc_list = xs, gc_list_buffer = []\<rparr>,
             flush_all {a \<in> {0, 1, 2}. block_height (h ! a) < 5} h) \<and> mset xs = {#1#}"
proof -
  let ?b = "\<lambda>n. new_HotstuffBlock_genesis\<lparr>block_height := n\<rparr>"
  have set: "set [0, 1, 2 :: nat] = {0, 1, 2}" by simp
  show ?thesis
    using gc_run_step_correct [of "\<lparr>hotstuff_height_to_gc = Some 5, gc_list = [0, 1], gc_list_buffer = [2]\<rparr>"
        5 "[?b 4, ?b 9, ?b 2]"]
    by (simp add: Let_def)
qed

end
