(* ===== verification/Index.thy ===== *)
theory Index
  imports Block
begin

text \<open>
  The index of decided blocks (\<^verbatim>\<open>src/hotstuff/lmdb.cc\<close>, \<^verbatim>\<open>lmdb.h\<close>), block ids of the virtual
  machine (\<^verbatim>\<open>include/hotstuff/vm/vm_block_id.h\<close>), and the read access to the log that a virtual
  machine is given on a restart (\<^verbatim>\<open>log_access_wrapper.cc\<close>). The index maps a height, as eight
  big-endian bytes, to the block's hash followed by the serialised block id.
\<close>

section \<open>VMBlockID\<close>

type_synonym VMBlockID = "bytes option"

definition VMBlockID_of_bytes :: "bytes \<Rightarrow> VMBlockID" where
  "VMBlockID_of_bytes bs = Some bs"

definition VMBlockID_serialize :: "VMBlockID \<Rightarrow> bytes" where
  "VMBlockID_serialize i = (case i of None \<Rightarrow> [] | Some v \<Rightarrow> v)"

definition VMBlockID_bool :: "VMBlockID \<Rightarrow> bool" where
  "VMBlockID_bool i \<longleftrightarrow> i \<noteq> None"

section \<open>HotstuffLMDB\<close>

definition DB_NAME :: string where
  "DB_NAME = ''hotstuff''"

text \<open>The key \<open>"qc"\<close> of the metadata database.\<close>

definition qc_key :: bytes where
  "qc_key = [0x71, 0x63]"

definition create_db :: "('bv, 'db, 'tx) env \<Rightarrow> 'db \<Rightarrow> 'db" where
  "create_db env db = lmdb_create_db env DB_NAME db"

definition open_db :: "('bv, 'db, 'tx) env \<Rightarrow> 'db \<Rightarrow> 'db" where
  "open_db env db = lmdb_open_db env DB_NAME db"

definition open_txn :: "('bv, 'db, 'tx) env \<Rightarrow> 'db \<Rightarrow> 'tx" where
  "open_txn env db = lmdb_wbegin env db"

definition commit :: "('bv, 'db, 'tx) env \<Rightarrow> 'tx \<Rightarrow> 'db \<Rightarrow> 'db" where
  "commit env tx db = lmdb_commit_wtxn env tx (lmdb_persisted_round_number env db + 1) db"

definition add_decided_block_bytes ::
  "('bv, 'db, 'tx) env \<Rightarrow> HotstuffBlock \<Rightarrow> bytes \<Rightarrow> 'tx \<Rightarrow> 'tx" where
  "add_decided_block_bytes env blk serialized_vm_blk_id tx =
     lmdb_put env data_dbi
       (write_unsigned_big_endian env (block_height blk))
       (get_hash blk @ serialized_vm_blk_id) tx"

definition add_decided_block ::
  "('bv, 'db, 'tx) env \<Rightarrow> HotstuffBlock \<Rightarrow> VMBlockID \<Rightarrow> 'tx \<Rightarrow> 'tx" where
  "add_decided_block env blk vid tx = add_decided_block_bytes env blk (VMBlockID_serialize vid) tx"

definition set_qc_on_top_block ::
  "('bv, 'db, 'tx) env \<Rightarrow> QuorumCertificate \<Rightarrow> 'tx \<Rightarrow> 'tx" where
  "set_qc_on_top_block env qc tx =
     lmdb_put env metadata_dbi qc_key (xdr_qc_to_opaque env (serialize env qc)) tx"

definition get_highest_qc :: "('bv, 'db, 'tx) env \<Rightarrow> 'db \<Rightarrow> QuorumCertificate result" where
  "get_highest_qc env db =
     bindE (of_option (RuntimeError ''failed to get highest qc when loading from db'')
              (lmdb_get env db metadata_dbi qc_key)) (\<lambda>bs.
     bindE (of_option XdrError (xdr_qc_from_opaque env bs)) (\<lambda>w.
     Inr (parse_QuorumCertificate env w)))"

definition get_hash_from_lmdb_value :: "bytes \<Rightarrow> Hash result" where
  "get_hash_from_lmdb_value value_bytes =
     (if length value_bytes < 32 then Inl (RuntimeError ''invalid bytes length from lmdb'')
      else Inr (take 32 value_bytes))"

definition get_decided_hash_id_pair_bytes ::
  "('bv, 'db, 'tx) env \<Rightarrow> 'db \<Rightarrow> uint64 \<Rightarrow> (Hash \<times> bytes) option result" where
  "get_decided_hash_id_pair_bytes env db h =
     (case lmdb_get env db data_dbi (write_unsigned_big_endian env h) of
        None \<Rightarrow> Inr None
      | Some value_bytes \<Rightarrow>
          bindE (get_hash_from_lmdb_value value_bytes) (\<lambda>hash. Inr (Some (hash, value_bytes))))"

definition get_decided_hash_id_pair ::
  "('bv, 'db, 'tx) env \<Rightarrow> 'db \<Rightarrow> uint64 \<Rightarrow> (Hash \<times> VMBlockID) option result" where
  "get_decided_hash_id_pair env db h =
     bindE (get_decided_hash_id_pair_bytes env db h) (\<lambda>out.
     Inr (case out of None \<Rightarrow> None | Some (hash, bs) \<Rightarrow> Some (hash, VMBlockID_of_bytes bs)))"

text \<open>A forward cursor over the index, entry by entry.\<close>

definition cursor_deref ::
  "('bv, 'db, 'tx) env \<Rightarrow> bytes \<times> bytes \<Rightarrow> (uint64 \<times> Hash) result" where
  "cursor_deref env kv =
     bindE (get_hash_from_lmdb_value (snd kv)) (\<lambda>hash.
     Inr (read_unsigned_big_endian env (fst kv), hash))"

definition get_hs_hash_and_vm_data :: "bytes \<times> bytes \<Rightarrow> (Hash \<times> VMBlockID) result" where
  "get_hs_hash_and_vm_data kv =
     bindE (get_hash_from_lmdb_value (snd kv)) (\<lambda>hash.
     Inr (hash, VMBlockID_of_bytes (drop 32 (snd kv))))"

definition load_block_unparsed ::
  "('bv, 'db, 'tx) env \<Rightarrow> ReplicaInfo \<Rightarrow> disk \<Rightarrow> Hash \<Rightarrow> bytes option result" where
  "load_block_unparsed env info d hash =
     bindE (load_block env hash info d) (\<lambda>res.
     Inr (case res of None \<Rightarrow> None | Some w \<Rightarrow> Some (body w)))"

section \<open>LogAccessWrapper\<close>

text \<open>What a virtual machine can read of the log: the entries in order, and the block bodies.\<close>

record LogAccessWrapper =
  log_entries :: "(bytes \<times> bytes) list"
  log_load_block_unparsed :: "Hash \<Rightarrow> bytes option result"

definition new_LogAccessWrapper ::
  "('bv, 'db, 'tx) env \<Rightarrow> ReplicaInfo \<Rightarrow> disk \<Rightarrow> 'db \<Rightarrow> LogAccessWrapper" where
  "new_LogAccessWrapper env info d db =
     \<lparr>log_entries = lmdb_cursor env db data_dbi,
      log_load_block_unparsed = load_block_unparsed env info d\<rparr>"

text \<open>\<open>parse\<close> is the constructor of the block type from bytes, which may throw.\<close>

definition load_vm_block ::
  "(bytes \<Rightarrow> 'vb result) \<Rightarrow> LogAccessWrapper \<Rightarrow> Hash \<Rightarrow> 'vb result" where
  "load_vm_block parse log hash =
     bindE (log_load_block_unparsed log hash) (\<lambda>unparsed_opt.
     bindE (of_option (RuntimeError ''failed to load expected block'') unparsed_opt) parse)"

section \<open>Reading back what was committed\<close>

lemma take_hash_prefix: "length hash = 32 \<Longrightarrow> get_hash_from_lmdb_value (hash @ bs) = Inr hash"
  by (simp add: get_hash_from_lmdb_value_def)

text \<open>
  C10 --- The index is durable and addressable by height. After \<open>add_decided_block\<close>,
  \<open>set_qc_on_top_block\<close> and \<open>commit\<close> of one transaction, a look-up at the block's height finds the
  block's hash, every other height is as before, and the stored quorum certificate is read back
  unchanged, whatever id bytes the virtual machine supplied.
\<close>

theorem index_committed:
  assumes "lmdb_laws env view" "big_endian_laws env" "xdr_laws env" "bitvector_laws env held"
    and "length (get_hash blk) = 32" "qc_wf qc"
    and db': "db' = commit env (set_qc_on_top_block env qc
                 (add_decided_block env blk vid (open_txn env db))) db"
  shows "bindE (get_decided_hash_id_pair env db' (block_height blk)) (\<lambda>r. Inr (map_option fst r)) =
           Inr (Some (get_hash blk)) \<and>
         (\<forall>h. h \<noteq> block_height blk \<longrightarrow>
           get_decided_hash_id_pair env db' h = get_decided_hash_id_pair env db h) \<and>
         get_highest_qc env db' = Inr qc"
proof -
  have inj: "write_unsigned_big_endian env m = write_unsigned_big_endian env n \<longleftrightarrow> m = n" for m n
    using assms(2) by (metis big_endian_laws_def)
  have lookup: "lmdb_get env db' =
      ((lmdb_get env db)
        (data_dbi := (lmdb_get env db data_dbi)
           (write_unsigned_big_endian env (block_height blk) \<mapsto>
              get_hash blk @ VMBlockID_serialize vid),
         metadata_dbi := (lmdb_get env db metadata_dbi)
           (qc_key \<mapsto> xdr_qc_to_opaque env (serialize env qc))))"
    using assms(1) by (simp add: db' lmdb_laws_def commit_def set_qc_on_top_block_def open_txn_def
        add_decided_block_def add_decided_block_bytes_def)
  have "bindE (get_decided_hash_id_pair env db' (block_height blk)) (\<lambda>r. Inr (map_option fst r)) =
      Inr (Some (get_hash blk))"
    by (simp add: get_decided_hash_id_pair_def get_decided_hash_id_pair_bytes_def lookup
        take_hash_prefix [OF assms(5)])
  moreover have "get_decided_hash_id_pair env db' h = get_decided_hash_id_pair env db h"
    if "h \<noteq> block_height blk" for h
    using that by (simp add: get_decided_hash_id_pair_def get_decided_hash_id_pair_bytes_def lookup
        inj)
  moreover have "get_highest_qc env db' = Inr qc"
    using assms(3) by (simp add: get_highest_qc_def lookup xdr_laws_def
        parse_serialize [OF assms(4,6)])
  ultimately show ?thesis by blast
qed

definition demo_block :: HotstuffBlock where
  "demo_block = new_HotstuffBlock_genesis\<lparr>block_height := 5, self_qc := new_QuorumCertificate (pad32 [9])\<rparr>"

theorem index_committed_witness:
  "let db' = commit demo_env (set_qc_on_top_block demo_env demo_qc
               (add_decided_block demo_env demo_block (Some [1, 2]) (open_txn demo_env demo_new_db)))
               demo_new_db
   in bindE (get_decided_hash_id_pair demo_env db' 5) (\<lambda>r. Inr (map_option fst r)) =
        Inr (Some (pad32 [9])) \<and>
      get_decided_hash_id_pair demo_env db' 4 = get_decided_hash_id_pair demo_env demo_new_db 4 \<and>
      get_highest_qc demo_env db' = Inr demo_qc"
proof -
  have len: "length (get_hash demo_block) = 32"
    by (simp add: demo_block_def get_hash_def pad32_def)
  have h: "block_height demo_block = 5" "get_hash demo_block = pad32 [9]"
    by (simp_all add: demo_block_def get_hash_def)
  show ?thesis
    using index_committed [OF demo_lmdb_laws demo_big_endian_laws demo_xdr_laws demo_bitvector_laws
        len demo_qc_wf refl, of "Some [1, 2]" demo_new_db]
    unfolding Let_def h by simp
qed

text \<open>
  C39 --- The id of a decided block does not survive the index. A look-up by height returns, in place
  of the id that was stored, the block's hash followed by the id. The log that a machine
  reads on a restart returns the id itself, except that an absent id comes back as a present one
  without bytes.
\<close>

theorem index_id_readback:
  assumes "lmdb_laws env view" "length (get_hash blk) = 32"
    and db': "db' = commit env (set_qc_on_top_block env qc
                 (add_decided_block env blk vid (open_txn env db))) db"
    and key: "key = write_unsigned_big_endian env (block_height blk)"
  shows "get_decided_hash_id_pair env db' (block_height blk) =
           Inr (Some (get_hash blk, Some (get_hash blk @ VMBlockID_serialize vid))) \<and>
         (\<exists>v. (key, v) \<in> set (lmdb_cursor env db' data_dbi) \<and>
            get_hs_hash_and_vm_data (key, v) = Inr (get_hash blk, Some (VMBlockID_serialize vid))) \<and>
         (Some (VMBlockID_serialize vid) = vid \<longleftrightarrow> VMBlockID_bool vid)"
proof -
  let ?v = "get_hash blk @ VMBlockID_serialize vid"
  have lookup: "lmdb_get env db' data_dbi key = Some ?v"
    using assms(1) by (simp add: db' key lmdb_laws_def commit_def set_qc_on_top_block_def open_txn_def
        add_decided_block_def add_decided_block_bytes_def)
  moreover have "map_of (lmdb_cursor env db' data_dbi) = lmdb_get env db' data_dbi"
    using assms(1) by (simp add: lmdb_laws_def)
  ultimately have "(key, ?v) \<in> set (lmdb_cursor env db' data_dbi)"
    using map_of_SomeD by metis
  moreover have "get_hs_hash_and_vm_data (key, ?v) = Inr (get_hash blk, Some (VMBlockID_serialize vid))"
    using assms(2) by (simp add: get_hs_hash_and_vm_data_def take_hash_prefix VMBlockID_of_bytes_def)
  moreover have "get_decided_hash_id_pair env db' (block_height blk) = Inr (Some (get_hash blk, Some ?v))"
    using lookup by (simp add: get_decided_hash_id_pair_def get_decided_hash_id_pair_bytes_def key
        take_hash_prefix [OF assms(2)] VMBlockID_of_bytes_def)
  moreover have "Some (VMBlockID_serialize vid) = vid \<longleftrightarrow> VMBlockID_bool vid"
    by (cases vid) (simp_all add: VMBlockID_serialize_def VMBlockID_bool_def)
  ultimately show ?thesis by blast
qed

theorem index_id_readback_witness:
  "get_decided_hash_id_pair demo_env
     (commit demo_env (set_qc_on_top_block demo_env demo_qc
        (add_decided_block demo_env demo_block (Some [1, 2]) (open_txn demo_env demo_new_db))) demo_new_db) 5 =
     Inr (Some (pad32 [9], Some (pad32 [9] @ [1, 2])))"
proof -
  have b: "length (get_hash demo_block) = 32" "block_height demo_block = 5" "get_hash demo_block = pad32 [9]"
    by (simp_all add: demo_block_def get_hash_def pad32_def)
  show ?thesis
    using index_id_readback [OF demo_lmdb_laws b(1) refl refl, of demo_qc "Some [1, 2]" demo_new_db]
    by (simp add: b VMBlockID_serialize_def)
qed

end
