(* ===== verification/Consensus.thy ===== *)
theory Consensus
  imports BlockStorage Index
begin

text \<open>
  The consensus state machine \<open>HotstuffCore\<close> (\<^verbatim>\<open>src/hotstuff/consensus.cc\<close>, \<^verbatim>\<open>consensus.h\<close>). Its state is
  an extensible record: the application classes derive from it and add their own fields. The
  pure virtual methods are a record of functions on the state of the derived class, an argument
  of every method that calls one of them. The heap of blocks and the files of the replica are
  part of the state.
\<close>

section \<open>State and virtual methods\<close>

record 'db HotstuffCore =
  heap :: block_heap
  files :: disk
  genesis :: block_addr
  hqc :: "block_addr \<times> QuorumCertificateWire"
  b_lock :: block_addr
  b_exec :: block_addr
  vheight :: uint32
  self_id :: ReplicaID
  config :: ReplicaConfig
  b_leaf :: block_addr
  decided_hash_index :: 'db

record ('tx, 's) core_virtuals =
  find_block_by_hash :: "Hash \<Rightarrow> 's \<Rightarrow> block_addr result"
  do_vote :: "block_addr \<Rightarrow> ReplicaID \<Rightarrow> 's \<Rightarrow> 's result"
  on_new_qc :: "Hash \<Rightarrow> 's \<Rightarrow> 's result"
  apply_block :: "block_addr \<Rightarrow> 'tx \<Rightarrow> 's \<Rightarrow> ('tx \<times> 's) result"
  notify_vm_of_commitment :: "block_addr \<Rightarrow> 's \<Rightarrow> 's result"
  notify_vm_of_qc_on_nonself_block :: "block_addr \<Rightarrow> 's \<Rightarrow> 's result"
  notify_ok_to_prune_blocks :: "uint64 \<Rightarrow> 's \<Rightarrow> 's result"

text \<open>
  The constructor. The directories it creates are implicit in the model of the disk; \<open>db\<close> is the
  unopened database.
\<close>

definition new_HotstuffCore ::
  "('bv, 'db, 'tx) env \<Rightarrow> ReplicaConfig \<Rightarrow> ReplicaID \<Rightarrow> 'db \<Rightarrow> disk \<Rightarrow> 'db HotstuffCore result" where
  "new_HotstuffCore env cfg rid db d =
     (let (g, h) = genesis_block [] in
      bindE (deref h g) (\<lambda>gb.
      bindE (get_info cfg rid) (\<lambda>_.
      Inr \<lparr>heap = h, files = d, genesis = g,
           hqc = (g, serialize env (self_qc gb)),
           b_lock = g, b_exec = g, vheight = 0, self_id = rid, config = cfg, b_leaf = g,
           decided_hash_index = db\<rparr>)))"

definition get_last_proposer :: "('db, 'm) HotstuffCore_scheme \<Rightarrow> ReplicaID result" where
  "get_last_proposer st = bindE (deref (heap st) (fst (hqc st))) (\<lambda>b. Inr (proposer b))"

section \<open>Loops along parent pointers\<close>

text \<open>
  Both loops of the class have the form
  \<^verbatim>\<open>for (b = start; b->get_height() > height; b = b->get_parent())\<close>. The result is the final
  \<open>b\<close> and the blocks that were visited, last one first. \<open>None\<close> is a loop that does not end.
\<close>

partial_function (option) descend ::
  "block_heap \<Rightarrow> uint64 \<Rightarrow> block_addr \<Rightarrow> block_addr list \<Rightarrow> (block_addr \<times> block_addr list) result option"
  where
  "descend h height b visited =
     (case deref h b of
        Inl e \<Rightarrow> Some (Inl e)
      | Inr blk \<Rightarrow>
          if block_height blk > height
          then (case parent_block_ptr blk of
                  None \<Rightarrow> Some (Inl NullDeref)
                | Some p \<Rightarrow> descend h height p (b # visited))
          else Some (Inr (b, visited)))"

definition loop_result :: "'a result option \<Rightarrow> 'a result" where
  "loop_result r = (case r of None \<Rightarrow> Inl Nonterminating | Some x \<Rightarrow> x)"

section \<open>update\<close>

definition update_hqc ::
  "('tx, ('db, 'm) HotstuffCore_scheme) core_virtuals \<Rightarrow> ('bv, 'db, 'tx) env \<Rightarrow> block_addr \<Rightarrow>
   QuorumCertificate \<Rightarrow> ('db, 'm) HotstuffCore_scheme \<Rightarrow> ('db, 'm) HotstuffCore_scheme result" where
  "update_hqc vt env qc_block qc st =
     bindE (deref (heap st) qc_block) (\<lambda>qb.
     bindE (deref (heap st) (fst (hqc st))) (\<lambda>hb.
       if block_height qb > block_height hb then
         let st = st\<lparr>hqc := (qc_block, serialize env qc), b_leaf := qc_block\<rparr> in
         if proposer qb \<noteq> self_id st
         then notify_vm_of_qc_on_nonself_block vt qc_block st else Inr st
       else Inr st))"

text \<open>The loop that applies the newly committed blocks, lowest height first.\<close>

definition commit_one ::
  "('tx, ('db, 'm) HotstuffCore_scheme) core_virtuals \<Rightarrow> block_addr \<Rightarrow>
   'tx \<times> ('db, 'm) HotstuffCore_scheme \<Rightarrow> ('tx \<times> ('db, 'm) HotstuffCore_scheme) result" where
  "commit_one vt blk ts =
     (case ts of (txn, st) \<Rightarrow>
      bindE (decide blk (heap st)) (\<lambda>h.
      bindE (apply_block vt blk txn (st\<lparr>heap := h\<rparr>)) (\<lambda>(txn, st).
      bindE (notify_vm_of_commitment vt blk st) (\<lambda>st.
      Inr (txn, st)))))"

text \<open>What follows the loop: the index is committed and old blocks may be pruned.\<close>

definition finish_commit ::
  "('tx, ('db, 'm) HotstuffCore_scheme) core_virtuals \<Rightarrow> ('bv, 'db, 'tx) env \<Rightarrow>
   block_addr \<Rightarrow> block_addr \<Rightarrow> 'tx \<times> ('db, 'm) HotstuffCore_scheme \<Rightarrow>
   ('db, 'm) HotstuffCore_scheme result" where
  "finish_commit vt env blk1 blk ts =
     (case ts of (txn, st) \<Rightarrow>
      let st = st\<lparr>b_exec := blk\<rparr> in
      bindE (deref (heap st) blk1) (\<lambda>b1.
      bindE (get_justify_qc b1) (\<lambda>qc1.
      let txn = set_qc_on_top_block env qc1 txn;
          st = st\<lparr>decided_hash_index := commit env txn (decided_hash_index st)\<rparr>
      in
      bindE (deref (heap st) (b_exec st)) (\<lambda>eb.
      notify_ok_to_prune_blocks vt (block_height eb) st))))"

text \<open>The end of \<open>update\<close>: everything from the comment "otherwise commit" on.\<close>

definition update_commit ::
  "('tx, ('db, 'm) HotstuffCore_scheme) core_virtuals \<Rightarrow> ('bv, 'db, 'tx) env \<Rightarrow>
   block_addr \<Rightarrow> block_addr \<Rightarrow> ('db, 'm) HotstuffCore_scheme \<Rightarrow>
   ('db, 'm) HotstuffCore_scheme result" where
  "update_commit vt env blk1 blk st =
     bindE (deref (heap st) (b_exec st)) (\<lambda>exec_b.
     bindE (loop_result (descend (heap st) (block_height exec_b) blk [])) (\<lambda>(b, commit_queue).
       if b \<noteq> b_exec st then Inl (RuntimeError ''safety breached'')
       else
         bindE (foldE (commit_one vt) commit_queue
                  (open_txn env (decided_hash_index st), st))
           (finish_commit vt env blk1 blk)))"

text \<open>The test for the commit, from \<open>blk = blk1->get_justify()\<close> on.\<close>

definition update_try_commit ::
  "('tx, ('db, 'm) HotstuffCore_scheme) core_virtuals \<Rightarrow> ('bv, 'db, 'tx) env \<Rightarrow>
   block_addr \<Rightarrow> block_addr \<Rightarrow> ('db, 'm) HotstuffCore_scheme \<Rightarrow>
   ('db, 'm) HotstuffCore_scheme result" where
  "update_try_commit vt env blk2 blk1 st =
     bindE (deref (heap st) blk1) (\<lambda>b1.
     case justify_block_ptr b1 of
       None \<Rightarrow> Inr st
     | Some blk \<Rightarrow>
         bindE (deref (heap st) blk) (\<lambda>b.
         if decided b then Inr st
         else
           bindE (deref (heap st) blk2) (\<lambda>b2.
           if parent_block_ptr b2 \<noteq> Some blk1 \<or> parent_block_ptr b1 \<noteq> Some blk then Inr st
           else update_commit vt env blk1 blk st)))"

text \<open>The middle of \<open>update\<close>: from \<open>blk1\<close> on, the lock and the write to disk.\<close>

definition update_lock ::
  "('tx, ('db, 'm) HotstuffCore_scheme) core_virtuals \<Rightarrow> ('bv, 'db, 'tx) env \<Rightarrow>
   block_addr \<Rightarrow> ('db, 'm) HotstuffCore_scheme \<Rightarrow> ('db, 'm) HotstuffCore_scheme result" where
  "update_lock vt env blk2 st =
     bindE (deref (heap st) blk2) (\<lambda>b2.
     case justify_block_ptr b2 of
       None \<Rightarrow> Inr st
     | Some blk1 \<Rightarrow>
         bindE (deref (heap st) blk1) (\<lambda>b1.
         if decided b1 then Inr st
         else
           bindE (deref (heap st) (b_lock st)) (\<lambda>lb.
           let st = (if block_height b1 > block_height lb then st\<lparr>b_lock := blk1\<rparr> else st) in
           bindE (get_info (config st) (self_id st)) (\<lambda>info.
           bindE (write_to_disk env info (b_lock st) (heap st) (files st)) (\<lambda>(h, d).
           update_try_commit vt env blk2 blk1 (st\<lparr>heap := h, files := d\<rparr>))))))"

definition update ::
  "('tx, ('db, 'm) HotstuffCore_scheme) core_virtuals \<Rightarrow> ('bv, 'db, 'tx) env \<Rightarrow>
   block_addr \<Rightarrow> ('db, 'm) HotstuffCore_scheme \<Rightarrow> ('db, 'm) HotstuffCore_scheme result" where
  "update vt env nblk st =
     bindE (deref (heap st) nblk) (\<lambda>nb.
     case justify_block_ptr nb of
       None \<Rightarrow> Inr st
     | Some blk2 \<Rightarrow>
         bindE (deref (heap st) blk2) (\<lambda>b2.
         if decided b2 then Inr st
         else
           bindE (get_justify_qc nb) (\<lambda>qc.
           bindE (update_hqc vt env blk2 qc st) (\<lambda>st.
           update_lock vt env blk2 st))))"

section \<open>Votes and proposals\<close>

definition on_receive_vote ::
  "('tx, ('db, 'm) HotstuffCore_scheme) core_virtuals \<Rightarrow> ('bv, 'db, 'tx) env \<Rightarrow>
   PartialCertificate \<Rightarrow> block_addr \<Rightarrow> ReplicaID \<Rightarrow>
   ('db, 'm) HotstuffCore_scheme \<Rightarrow> ('db, 'm) HotstuffCore_scheme result" where
  "on_receive_vote vt env partial_cert certified_block voterid st =
     bindE (deref (heap st) certified_block) (\<lambda>b.
     let had_quorum_before = has_quorum (config st) (self_qc b) in
     bindE (add_partial_certificate voterid partial_cert (self_qc b)) (\<lambda>qc.
     let st = st\<lparr>heap := upd_block certified_block (\<lambda>b. b\<lparr>self_qc := qc\<rparr>) (heap st)\<rparr>;
         has_quorum_after = has_quorum (config st) qc
     in
     if has_quorum_after \<and> \<not> had_quorum_before then
       bindE (update_hqc vt env certified_block qc st) (\<lambda>st.
       on_new_qc vt (get_hash b) st)
     else Inr st))"

text \<open>The local variable \<open>opinion\<close> of \<open>on_receive_proposal\<close>.\<close>

definition proposal_opinion ::
  "block_addr \<Rightarrow> ('db, 'm) HotstuffCore_scheme \<Rightarrow> bool result" where
  "proposal_opinion bnew st =
     bindE (deref (heap st) bnew) (\<lambda>nb.
     if block_height nb > ucast (vheight st) then
       bindE (of_option NullDeref (justify_block_ptr nb)) (\<lambda>j.
       bindE (deref (heap st) j) (\<lambda>jb.
       bindE (deref (heap st) (b_lock st)) (\<lambda>lb.
         if block_height jb > block_height lb then Inr True
         else
           bindE (loop_result (descend (heap st) (block_height lb) bnew [])) (\<lambda>(b, _).
           Inr (b = b_lock st)))))
     else Inr False)"

text \<open>
  The handler up to the vote, and the whole handler. The two parts are separate because the second
  may fail when the vote has already left.
\<close>

definition proposal_vote ::
  "('tx, ('db, 'm) HotstuffCore_scheme) core_virtuals \<Rightarrow> block_addr \<Rightarrow> ReplicaID \<Rightarrow>
   ('db, 'm) HotstuffCore_scheme \<Rightarrow> ('db, 'm) HotstuffCore_scheme result" where
  "proposal_vote vt bnew rid st =
     bindE (proposal_opinion bnew st) (\<lambda>opinion.
       if opinion then
         bindE (deref (heap st) bnew) (\<lambda>nb.
         do_vote vt bnew rid (st\<lparr>vheight := ucast (block_height nb)\<rparr>))
       else Inr st)"

definition on_receive_proposal ::
  "('tx, ('db, 'm) HotstuffCore_scheme) core_virtuals \<Rightarrow> ('bv, 'db, 'tx) env \<Rightarrow>
   block_addr \<Rightarrow> ReplicaID \<Rightarrow>
   ('db, 'm) HotstuffCore_scheme \<Rightarrow> ('db, 'm) HotstuffCore_scheme result" where
  "on_receive_proposal vt env bnew rid st =
     bindE (proposal_vote vt bnew rid st) (update vt env bnew)"

definition reload_state_from_index ::
  "('tx, ('db, 'm) HotstuffCore_scheme) core_virtuals \<Rightarrow> ('bv, 'db, 'tx) env \<Rightarrow>
   ('db, 'm) HotstuffCore_scheme \<Rightarrow> ('db, 'm) HotstuffCore_scheme result" where
  "reload_state_from_index vt env st =
     bindE (get_highest_qc env (decided_hash_index st)) (\<lambda>highest_qc.
     bindE (find_block_by_hash vt (obj_hash highest_qc) st) (\<lambda>highest_block_ptr.
     bindE (update_hqc vt env highest_block_ptr highest_qc st) (\<lambda>st.
     bindE (deref (heap st) highest_block_ptr) (\<lambda>b.
     Inr (st\<lparr>vheight := ucast (block_height b), b_exec := highest_block_ptr,
            b_lock := highest_block_ptr\<rparr>)))))"

end
