(* ===== verification/Events.thy ===== *)
theory Events
  imports BlockStorage
begin

text \<open>
  The events of the protocol state machine (\<^verbatim>\<open>src/hotstuff/event.cc\<close>), the events that arrive from
  the network (\<^verbatim>\<open>network_event.cc\<close>), and the queue both kinds wait in (\<^verbatim>\<open>generic_event_queue.h\<close>).
  The queue's worker thread takes the whole vector of events under the lock and handles the
  entries one after the other outside of it, while other threads go on adding; the entries it
  has taken and not yet handled are therefore part of the state.
\<close>

section \<open>Event\<close>

datatype Event =
    VoteEvent (ev_rid: ReplicaID) (ev_cert: PartialCertificate) (ev_block: block_addr)
  | ProposalEvent (ev_rid: ReplicaID) (ev_block: block_addr)

fun Event_validate :: "block_heap \<Rightarrow> Event \<Rightarrow> bool result" where
  "Event_validate h (VoteEvent rid cert block) =
     bindE (deref h block) (\<lambda>b.
       if get_hash b \<noteq> cert_hash cert
       then Inl (RuntimeError ''built a VoteEvent where blk->get_hash() != cert.hash'')
       else Inr True)"
| "Event_validate h (ProposalEvent rid block) =
     bindE (deref h block) (\<lambda>b. Inr (block_height b \<noteq> 0))"

section \<open>NetEvent\<close>

datatype NetEvent =
    VoteNetEvent (ne_cert: PartialCertificate) (ne_sender: ReplicaID)
  | ProposalNetEvent (ne_block: block_addr) (ne_sender: ReplicaID)
  | BlockReceiveNetEvent (ne_block: block_addr) (ne_sender: ReplicaID)

definition new_VoteNetEvent :: "VoteMessage \<Rightarrow> NetEvent" where
  "new_VoteNetEvent v = VoteNetEvent (msg_vote v) (msg_voter v)"

definition new_ProposalNetEvent ::
  "('bv, 'db, 'tx) env \<Rightarrow> ProposeMessage \<Rightarrow> block_heap \<Rightarrow> (NetEvent \<times> block_heap) result" where
  "new_ProposalNetEvent env p h =
     bindE (receive_block env (msg_proposal p) (msg_proposer p) h) (\<lambda>(a, h).
     Inr (ProposalNetEvent a (msg_proposer p), h))"

text \<open>\<open>validate_hotstuff\<close> on a pointer: it caches its outcome in the object.\<close>

definition validate_hotstuff_at ::
  "('bv, 'db, 'tx) env \<Rightarrow> ReplicaConfig \<Rightarrow> block_addr \<Rightarrow> block_heap \<Rightarrow> (bool \<times> block_heap) result" where
  "validate_hotstuff_at env cfg a h =
     bindE (deref h a) (\<lambda>b.
     bindE (validate_hotstuff env cfg b) (\<lambda>(ok, b').
     Inr (ok, upd_block a (\<lambda>_. b') h)))"

fun NetEvent_validate ::
  "('bv, 'db, 'tx) env \<Rightarrow> ReplicaConfig \<Rightarrow> NetEvent \<Rightarrow> block_heap \<Rightarrow> (bool \<times> block_heap) result" where
  "NetEvent_validate env cfg (VoteNetEvent cert voter) h =
     bindE (get_info cfg voter) (\<lambda>info. Inr (PartialCertificate_validate env cert info, h))"
| "NetEvent_validate env cfg (ProposalNetEvent a rid) h = validate_hotstuff_at env cfg a h"
| "NetEvent_validate env cfg (BlockReceiveNetEvent a rid) h = validate_hotstuff_at env cfg a h"

text \<open>\<open>to_hotstuff_event\<close> of a vote and of a proposal.\<close>

definition VoteNetEvent_to_hotstuff_event ::
  "PartialCertificate \<Rightarrow> ReplicaID \<Rightarrow> block_addr \<Rightarrow> Event" where
  "VoteNetEvent_to_hotstuff_event cert voter voted_block = VoteEvent voter cert voted_block"

definition ProposalNetEvent_to_hotstuff_event :: "block_addr \<Rightarrow> ReplicaID \<Rightarrow> Event" where
  "ProposalNetEvent_to_hotstuff_event proposed_block rid = ProposalEvent rid proposed_block"

section \<open>GenericEventQueue\<close>

record 'e GenericEventQueue =
  work_list :: "'e list"
  events :: "'e list"

definition new_GenericEventQueue :: "'e GenericEventQueue" where
  "new_GenericEventQueue = \<lparr>work_list = [], events = []\<rparr>"

definition add_event :: "'e \<Rightarrow> 'e GenericEventQueue \<Rightarrow> 'e GenericEventQueue" where
  "add_event e q = q\<lparr>events := events q @ [e]\<rparr>"

definition add_events :: "'e list \<Rightarrow> 'e GenericEventQueue \<Rightarrow> 'e GenericEventQueue" where
  "add_events es q = q\<lparr>events := events q @ es\<rparr>"

definition queue_exists_work_to_do :: "'e GenericEventQueue \<Rightarrow> bool" where
  "queue_exists_work_to_do q \<longleftrightarrow> length (events q) > 0"

text \<open>
  The two parts of an iteration of \<open>run\<close>: take everything, when the previous work list is done,
  and hand the next entry of the work list to \<open>on_event\<close> (\<open>None\<close> when there is none).
\<close>

definition queue_take :: "'e GenericEventQueue \<Rightarrow> 'e GenericEventQueue" where
  "queue_take q =
     (if work_list q = [] \<and> queue_exists_work_to_do q
      then q\<lparr>work_list := events q, events := []\<rparr> else q)"

definition queue_next :: "'e GenericEventQueue \<Rightarrow> ('e \<times> 'e GenericEventQueue) option" where
  "queue_next q = (case work_list q of [] \<Rightarrow> None | e # es \<Rightarrow> Some (e, q\<lparr>work_list := es\<rparr>))"

section \<open>The queue is a FIFO queue\<close>

text \<open>
  The interleavings of producers and consumer: an event is added, the consumer takes what has
  accumulated, or it handles its next event. \<open>run_queue\<close> runs a sequence of them and returns the
  events that were handled.
\<close>

datatype 'e queue_op = QAdd 'e | QTake | QNext

fun run_queue ::
  "('e \<Rightarrow> 'q \<Rightarrow> 'q) \<Rightarrow> ('q \<Rightarrow> 'q) \<Rightarrow> ('q \<Rightarrow> ('e \<times> 'q) option) \<Rightarrow> 'e queue_op list \<Rightarrow> 'q \<Rightarrow> 'e list \<times> 'q"
  where
  "run_queue qadd qtake qnext [] q = ([], q)"
| "run_queue qadd qtake qnext (QAdd e # ops) q = run_queue qadd qtake qnext ops (qadd e q)"
| "run_queue qadd qtake qnext (QTake # ops) q = run_queue qadd qtake qnext ops (qtake q)"
| "run_queue qadd qtake qnext (QNext # ops) q =
     (case qnext q of
        None \<Rightarrow> run_queue qadd qtake qnext ops q
      | Some (e, q') \<Rightarrow>
          (let (es, q'') = run_queue qadd qtake qnext ops q' in (e # es, q'')))"

fun added :: "'e queue_op list \<Rightarrow> 'e list" where
  "added [] = []"
| "added (QAdd e # ops) = e # added ops"
| "added (_ # ops) = added ops"

lemma run_queue_append:
  "run_queue qadd qtake qnext (xs @ ys) q =
     (let (es, q) = run_queue qadd qtake qnext xs q; (es', q) = run_queue qadd qtake qnext ys q
      in (es @ es', q))"
proof (induction xs arbitrary: q)
  case (Cons op xs)
  then show ?case by (cases op) (auto simp: case_prod_beta Let_def split: option.split)
qed simp

text \<open>
  What the producers and the consumer of an event queue rely on: seen as the list of events not
  yet handled, adding appends, the next handled event is the first of the list, and the
  internal transfer to the work list is not visible; the queue is never stuck while it holds
  an event.
\<close>

locale fifo_queue =
  fixes pending :: "'q \<Rightarrow> 'e list"
    and qempty :: 'q
    and qadd :: "'e \<Rightarrow> 'q \<Rightarrow> 'q"
    and qtake :: "'q \<Rightarrow> 'q"
    and qnext :: "'q \<Rightarrow> ('e \<times> 'q) option"
  assumes pending_empty: "pending qempty = []"
    and pending_add: "pending (qadd e q) = pending q @ [e]"
    and pending_take: "pending (qtake q) = pending q"
    and pending_next: "qnext q = Some (e, q') \<Longrightarrow> pending q = e # pending q'"
    and next_after_take: "pending q \<noteq> [] \<Longrightarrow> qnext (qtake q) \<noteq> None"
begin

lemma next_None: "qnext (qtake q) = None \<longleftrightarrow> pending q = []"
  using next_after_take pending_next [of "qtake q"] pending_take [of q]
  by (metis list.discI option.exhaust surj_pair)

lemma next_oldest:
  assumes "pending q = e # es"
  shows "\<exists>q'. qnext (qtake q) = Some (e, q') \<and> pending q' = es"
proof -
  obtain x q' where n: "qnext (qtake q) = Some (x, q')"
    using next_after_take [of q] assms by fastforce
  then show ?thesis
    using pending_next [OF n] assms by (simp add: pending_take)
qed

text \<open>
  Whatever the producers and the consumer do, what has been handed out followed by what is still
  pending is what was added, in order.
\<close>

lemma run_queue_conserves:
  "fst (run_queue qadd qtake qnext ops q) @ pending (snd (run_queue qadd qtake qnext ops q)) =
     pending q @ added ops"
proof (induction ops arbitrary: q)
  case Nil
  then show ?case by simp
next
  case (Cons op ops)
  then show ?case
    by (cases op)
      (auto simp: pending_add pending_take case_prod_beta dest: pending_next split: option.split)
qed

text \<open>The consumer alone hands out everything that is pending.\<close>

lemma consumer_drains:
  "length (pending q) \<le> n \<Longrightarrow>
     fst (run_queue qadd qtake qnext (concat (replicate n [QTake, QNext])) q) = pending q"
proof (induction n arbitrary: q)
  case 0
  then show ?case by simp
next
  case (Suc n)
  show ?case
  proof (cases "pending q")
    case Nil
    then have "pending (qtake q) = []" "qnext (qtake q) = None"
      by (simp_all add: pending_take next_None)
    then show ?thesis using Suc.IH [of "qtake q"] Nil by simp
  next
    case (Cons e es)
    then obtain q' where "qnext (qtake q) = Some (e, q')" "pending q' = es"
      using next_oldest by blast
    then show ?thesis using Suc Cons by (simp add: case_prod_beta)
  qed
qed

lemma fifo:
  "fst (run_queue qadd qtake qnext
          (ops @ concat (replicate (length (added ops)) [QTake, QNext])) qempty) = added ops"
proof -
  let ?r = "run_queue qadd qtake qnext ops qempty"
  have all: "fst ?r @ pending (snd ?r) = added ops"
    using run_queue_conserves [of ops qempty] by (simp add: pending_empty)
  then have "length (pending (snd ?r)) \<le> length (added ops)"
    by (metis length_append le_add2)
  from consumer_drains [OF this] show ?thesis
    using all by (simp add: run_queue_append case_prod_beta Let_def)
qed

end

definition pending_events :: "'e GenericEventQueue \<Rightarrow> 'e list" where
  "pending_events q = work_list q @ events q"

interpretation gq: fifo_queue pending_events new_GenericEventQueue add_event queue_take
    queue_next
  by unfold_locales
    (auto simp: pending_events_def new_GenericEventQueue_def add_event_def queue_take_def
      queue_next_def queue_exists_work_to_do_def split: list.splits)

lemma pending_add_events: "pending_events (add_events es q) = pending_events q @ es"
  by (simp add: pending_events_def add_events_def)

text \<open>
  C31 --- Event queues are fair. Whatever the threads that add events and the worker thread do,
  and in whatever order, the events the worker has handled followed by the events that still wait are
  the events that were added, in order; and when the worker runs on alone, it handles all of them.
\<close>

theorem event_queue_fifo:
  "(let r = run_queue add_event queue_take queue_next ops new_GenericEventQueue
    in fst r @ pending_events (snd r) = added ops) \<and>
   fst (run_queue add_event queue_take queue_next
          (ops @ concat (replicate (length (added ops)) [QTake, QNext])) new_GenericEventQueue) =
     added ops"
  using gq.run_queue_conserves [of ops new_GenericEventQueue]
  by (simp add: gq.fifo gq.pending_empty)

end
