(* ===== verification/Fetch.thy ===== *)
theory Fetch
  imports Events
begin

text \<open>
  Fetching missing blocks: the request contexts and the per-replica queues of
  \<^verbatim>\<open>src/hotstuff/block_storage/block_fetch_manager.cc\<close>, and the request set of
  \<^verbatim>\<open>block_fetch_worker.cc\<close>. A \<open>RequestContext\<close> is shared between the manager's index and the
  queues through \<open>std::shared_ptr\<close>, so the contexts live in a heap of their own.
\<close>

unbundle bit_operations_syntax

section \<open>RequestContext\<close>

record RequestContext =
  request :: Hash
  block_is_received :: bool
  dependent_network_events :: "NetEvent list"
  requested_from :: uint32

type_synonym ctx_addr = nat
type_synonym ctx_heap = "RequestContext list"

definition new_RequestContext :: "Hash \<Rightarrow> RequestContext" where
  "new_RequestContext hash =
     \<lparr>request = hash, block_is_received = False, dependent_network_events = [], requested_from = 0\<rparr>"

definition mark_received :: "RequestContext \<Rightarrow> RequestContext" where
  "mark_received ctx = ctx\<lparr>block_is_received := True\<rparr>"

definition add_network_events :: "NetEvent list \<Rightarrow> RequestContext \<Rightarrow> RequestContext" where
  "add_network_events es ctx =
     ctx\<lparr>dependent_network_events := dependent_network_events ctx @ es\<rparr>"

text \<open>\<open>(requested_from >> rid) & 1\<close>; the shift is defined for ids below the width.\<close>

definition was_requested_from :: "ReplicaID \<Rightarrow> RequestContext \<Rightarrow> bool" where
  "was_requested_from rid ctx \<longleftrightarrow> drop_bit (unat rid) (requested_from ctx) AND 1 \<noteq> 0"

section \<open>BlockFetchWorker\<close>

text \<open>
  The set of hashes to ask one peer for. \<open>in_flight\<close> is the local variable \<open>req\<close> of \<open>run\<close>: the
  hashes of the call that is under way.
\<close>

record BlockFetchWorker =
  reqs :: "Hash list"
  in_flight :: "Hash list"

definition new_BlockFetchWorker :: BlockFetchWorker where
  "new_BlockFetchWorker = \<lparr>reqs = [], in_flight = []\<rparr>"

definition worker_add_request :: "Hash \<Rightarrow> BlockFetchWorker \<Rightarrow> BlockFetchWorker" where
  "worker_add_request hash w = w\<lparr>reqs := oset_insert hash (reqs w)\<rparr>"

definition readd_request :: "BlockFetchWorker \<Rightarrow> BlockFetchWorker" where
  "readd_request w = w\<lparr>reqs := fold oset_insert (in_flight w) (reqs w), in_flight := []\<rparr>"

definition extract_reqs :: "BlockFetchWorker \<Rightarrow> BlockFetchWorker" where
  "extract_reqs w = w\<lparr>in_flight := reqs w, reqs := []\<rparr>"

definition fetch_exists_work_to_do :: "BlockFetchWorker \<Rightarrow> bool" where
  "fetch_exists_work_to_do w \<longleftrightarrow> length (reqs w) > 0"

section \<open>ReplicaFetchQueue\<close>

definition GC_FREQ :: nat where
  "GC_FREQ = 10"

record ReplicaFetchQueue =
  fq_info :: ReplicaInfo
  fq_outstanding_reqs :: "ctx_addr list"
  fq_worker :: BlockFetchWorker

definition new_ReplicaFetchQueue :: "ReplicaInfo \<Rightarrow> ReplicaFetchQueue" where
  "new_ReplicaFetchQueue info =
     \<lparr>fq_info = info, fq_outstanding_reqs = [], fq_worker = new_BlockFetchWorker\<rparr>"

definition fq_do_gc :: "ctx_heap \<Rightarrow> ReplicaFetchQueue \<Rightarrow> ReplicaFetchQueue" where
  "fq_do_gc ctxs q =
     q\<lparr>fq_outstanding_reqs :=
         swap_remove (\<lambda>c. block_is_received (ctxs ! c)) 0 (fq_outstanding_reqs q)\<rparr>"

definition fq_add_request :: "ctx_heap \<Rightarrow> ctx_addr \<Rightarrow> ReplicaFetchQueue \<Rightarrow> ReplicaFetchQueue" where
  "fq_add_request ctxs c q =
     (let q = q\<lparr>fq_outstanding_reqs := fq_outstanding_reqs q @ [c],
                fq_worker := worker_add_request (request (ctxs ! c)) (fq_worker q)\<rparr>
      in if length (fq_outstanding_reqs q) > GC_FREQ then fq_do_gc ctxs q else q)"

section \<open>BlockFetchManager\<close>

record BlockFetchManager =
  queues :: "ReplicaID \<rightharpoonup> ReplicaFetchQueue"
  outstanding_reqs :: "(Hash, ctx_addr) omap"
  request_ctxs :: ctx_heap

definition new_BlockFetchManager :: BlockFetchManager where
  "new_BlockFetchManager = \<lparr>queues = Map.empty, outstanding_reqs = [], request_ctxs = []\<rparr>"

definition fm_add_replica :: "ReplicaInfo \<Rightarrow> BlockFetchManager \<Rightarrow> BlockFetchManager" where
  "fm_add_replica info fm =
     (if queues fm (info_id info) = None
      then fm\<lparr>queues := (queues fm)(info_id info \<mapsto> new_ReplicaFetchQueue info)\<rparr> else fm)"

definition init_configs :: "ReplicaConfig \<Rightarrow> BlockFetchManager \<Rightarrow> BlockFetchManager" where
  "init_configs cfg fm = fold fm_add_replica (list_info cfg) fm"

definition add_fetch_request ::
  "ReplicaConfig \<Rightarrow> Hash \<Rightarrow> ReplicaID \<Rightarrow> NetEvent list \<Rightarrow> BlockFetchManager \<Rightarrow>
   BlockFetchManager result" where
  "add_fetch_request cfg requested_block request_target dependent_events fm =
     (if \<not> is_valid_replica cfg request_target then Inr fm
      else
        let (ctx, fm) =
          (case omap_find (outstanding_reqs fm) requested_block of
             None \<Rightarrow>
               (length (request_ctxs fm),
                fm\<lparr>request_ctxs := request_ctxs fm @ [new_RequestContext requested_block],
                   outstanding_reqs :=
                     omap_emplace requested_block (length (request_ctxs fm)) (outstanding_reqs fm)\<rparr>)
           | Some c \<Rightarrow> (c, fm))
        in
        bindE
          (if \<not> was_requested_from request_target (request_ctxs fm ! ctx) then
             bindE (of_option OutOfRange (queues fm request_target)) (\<lambda>q.
               Inr (fm\<lparr>queues := (queues fm)(request_target \<mapsto>
                          fq_add_request (request_ctxs fm) ctx q)\<rparr>))
           else Inr fm)
          (\<lambda>fm. Inr (fm\<lparr>request_ctxs :=
             (request_ctxs fm)[ctx := add_network_events dependent_events (request_ctxs fm ! ctx)]\<rparr>)))"

definition deliver_block ::
  "Hash \<Rightarrow> BlockFetchManager \<Rightarrow> NetEvent list \<times> BlockFetchManager" where
  "deliver_block hash fm =
     (case omap_find (outstanding_reqs fm) hash of
        None \<Rightarrow> ([], fm)
      | Some c \<Rightarrow>
          (dependent_network_events (request_ctxs fm ! c),
           fm\<lparr>request_ctxs := (request_ctxs fm)[c := mark_received (request_ctxs fm ! c)],
              outstanding_reqs := omap_erase hash (outstanding_reqs fm)\<rparr>))"

section \<open>Well-formedness\<close>

text \<open>
  Every outstanding request has a context of its own, for its hash, that is not received; every
  queue entry points to a context.
\<close>

definition fetch_wf :: "BlockFetchManager \<Rightarrow> bool" where
  "fetch_wf fm \<longleftrightarrow>
     omap_wf (outstanding_reqs fm) \<and>
     (\<forall>hash c. omap_find (outstanding_reqs fm) hash = Some c \<longrightarrow>
        c < length (request_ctxs fm) \<and> request (request_ctxs fm ! c) = hash \<and>
        \<not> block_is_received (request_ctxs fm ! c)) \<and>
     (\<forall>rid q c. queues fm rid = Some q \<longrightarrow> c \<in> set (fq_outstanding_reqs q) \<longrightarrow>
        c < length (request_ctxs fm)) \<and>
     (\<forall>c < length (request_ctxs fm). requested_from (request_ctxs fm ! c) = 0)"

text \<open>The events that wait for a block.\<close>

definition waiting_events :: "BlockFetchManager \<Rightarrow> Hash \<Rightarrow> NetEvent list" where
  "waiting_events fm hash =
     (case omap_find (outstanding_reqs fm) hash of
        None \<Rightarrow> [] | Some c \<Rightarrow> dependent_network_events (request_ctxs fm ! c))"

definition dependents :: "BlockFetchManager \<Rightarrow> NetEvent set" where
  "dependents fm = (\<Union>c \<in> set (request_ctxs fm). set (dependent_network_events c))"

lemma dependents_update:
  assumes "c < length (request_ctxs fm)" "request_ctxs fm' = (request_ctxs fm)[c := ctx]"
    "set (dependent_network_events ctx) \<subseteq> set (dependent_network_events (request_ctxs fm ! c)) \<union> E"
  shows "dependents fm' \<subseteq> dependents fm \<union> E"
proof -
  have "set ((request_ctxs fm)[c := ctx]) \<subseteq> insert ctx (set (request_ctxs fm))"
    by (rule set_update_subset_insert)
  moreover have "set (dependent_network_events (request_ctxs fm ! c)) \<subseteq> dependents fm"
    using nth_mem [OF assms(1)] by (auto simp: dependents_def)
  ultimately show ?thesis using assms(2,3) by (auto simp: dependents_def)
qed

lemma fetch_wfD:
  assumes "fetch_wf fm"
  shows "omap_wf (outstanding_reqs fm)"
    and "omap_find (outstanding_reqs fm) hash = Some c \<Longrightarrow> c < length (request_ctxs fm)"
    and "omap_find (outstanding_reqs fm) hash = Some c \<Longrightarrow> request (request_ctxs fm ! c) = hash"
    and "omap_find (outstanding_reqs fm) hash = Some c \<Longrightarrow> \<not> block_is_received (request_ctxs fm ! c)"
    and "queues fm rid = Some q \<Longrightarrow> c \<in> set (fq_outstanding_reqs q) \<Longrightarrow> c < length (request_ctxs fm)"
    and "c < length (request_ctxs fm) \<Longrightarrow> requested_from (request_ctxs fm ! c) = 0"
  using assms unfolding fetch_wf_def by blast+

lemma fetch_wf_new: "fetch_wf new_BlockFetchManager"
  by (simp add: fetch_wf_def new_BlockFetchManager_def)

lemma fetch_wf_init: "fetch_wf (init_configs cfg new_BlockFetchManager)"
proof -
  have "fetch_wf (fold fm_add_replica infos fm) \<and> request_ctxs (fold fm_add_replica infos fm) = []"
    if "fetch_wf fm" "request_ctxs fm = []" "\<forall>q \<in> ran (queues fm). fq_outstanding_reqs q = []" for infos fm
    using that
  proof (induction infos arbitrary: fm)
    case (Cons i infos)
    have "fetch_wf (fm_add_replica i fm) \<and> request_ctxs (fm_add_replica i fm) = [] \<and>
        (\<forall>q \<in> ran (queues (fm_add_replica i fm)). fq_outstanding_reqs q = [])"
      using Cons.prems
      by (auto simp: fm_add_replica_def fetch_wf_def new_ReplicaFetchQueue_def ran_def split: if_splits)
    then show ?case using Cons.IH by simp
  qed simp
  from this [OF fetch_wf_new] show ?thesis
    by (simp add: init_configs_def new_BlockFetchManager_def)
qed

text \<open>
  Nothing ever sets a bit of \<open>requested_from\<close>, so the test that should suppress a second request
  to the same replica never does.
\<close>

lemma never_requested: "requested_from ctx = 0 \<Longrightarrow> \<not> was_requested_from rid ctx"
  by (simp add: was_requested_from_def)

lemma set_fq_add_request:
  "set (fq_outstanding_reqs (fq_add_request ctxs c q)) \<subseteq> insert c (set (fq_outstanding_reqs q))"
proof -
  have "set (swap_remove P 0 xs) \<subseteq> set xs" for P and xs :: "ctx_addr list"
    using mset_swap_remove [of P xs] by (metis mset_filter set_mset_mset set_filter subsetI mem_Collect_eq)
  from this [of "\<lambda>c. block_is_received (ctxs ! c)" "fq_outstanding_reqs q @ [c]"] show ?thesis
    by (auto simp: fq_add_request_def fq_do_gc_def Let_def)
qed

lemma fq_add_request_worker [simp]:
  "fq_worker (fq_add_request ctxs c q) = worker_add_request (request (ctxs ! c)) (fq_worker q)"
  by (simp add: fq_add_request_def fq_do_gc_def Let_def)

text \<open>The two halves of \<open>add_fetch_request\<close>: the context of the hash, and the rest.\<close>

definition with_context :: "Hash \<Rightarrow> BlockFetchManager \<Rightarrow> ctx_addr \<times> BlockFetchManager" where
  "with_context hash fm =
     (case omap_find (outstanding_reqs fm) hash of
        None \<Rightarrow>
          (length (request_ctxs fm),
           fm\<lparr>request_ctxs := request_ctxs fm @ [new_RequestContext hash],
              outstanding_reqs := omap_emplace hash (length (request_ctxs fm)) (outstanding_reqs fm)\<rparr>)
      | Some c \<Rightarrow> (c, fm))"

lemma with_context_ok:
  assumes wf: "fetch_wf fm" and w: "with_context hash fm = (c, fm1)"
  shows "fetch_wf fm1" and "omap_find (outstanding_reqs fm1) hash = Some c"
    and "waiting_events fm1 = waiting_events fm" and "dependents fm1 = dependents fm"
    and "queues fm1 = queues fm"
proof -
  note D = fetch_wfD [OF wf]
  have "fetch_wf fm1 \<and> omap_find (outstanding_reqs fm1) hash = Some c \<and>
    waiting_events fm1 = waiting_events fm \<and> dependents fm1 = dependents fm \<and> queues fm1 = queues fm"
  proof (cases "omap_find (outstanding_reqs fm) hash")
    case (Some c')
    then show ?thesis using w wf by (simp add: with_context_def)
  next
    case None
    let ?n = "length (request_ctxs fm)"
    have fm1: "c = ?n" "queues fm1 = queues fm"
      "request_ctxs fm1 = request_ctxs fm @ [new_RequestContext hash]"
      "outstanding_reqs fm1 = omap_emplace hash ?n (outstanding_reqs fm)"
      using w None by (auto simp: with_context_def)
    have find: "omap_find (outstanding_reqs fm1) k = (if k = hash then Some ?n else omap_find (outstanding_reqs fm) k)" for k
      using omap_find_emplace [OF D(1), of hash ?n k] None by (simp add: fm1)
    have "fetch_wf fm1"
      unfolding fetch_wf_def find
    proof (intro conjI allI impI)
      show "omap_wf (outstanding_reqs fm1)" using D(1) by (simp add: fm1)
      show "c < length (request_ctxs fm1)" "request (request_ctxs fm1 ! c) = k"
        "\<not> block_is_received (request_ctxs fm1 ! c)"
        if "(if k = hash then Some ?n else omap_find (outstanding_reqs fm) k) = Some c" for k c
        using that D(2-4) [of k c] by (auto simp: fm1 nth_append new_RequestContext_def split: if_splits)
      show "c < length (request_ctxs fm1)"
        if "queues fm1 rid = Some q" "c \<in> set (fq_outstanding_reqs q)" for rid q c
        using that D(5) [of rid q c] by (simp add: fm1)
      show "requested_from (request_ctxs fm1 ! c) = 0" if "c < length (request_ctxs fm1)" for c
        using that D(6) [of c] by (auto simp: fm1 nth_append new_RequestContext_def less_Suc_eq)
    qed
    moreover have "waiting_events fm1 k = waiting_events fm k" for k
      using None D(2) [of k] unfolding waiting_events_def find
      by (auto simp: fm1 nth_append new_RequestContext_def split: option.split)
    moreover have "dependents fm1 = dependents fm"
      by (auto simp: dependents_def fm1 new_RequestContext_def)
    ultimately show ?thesis using find fm1 by auto
  qed
  then show "fetch_wf fm1" "omap_find (outstanding_reqs fm1) hash = Some c"
    "waiting_events fm1 = waiting_events fm" "dependents fm1 = dependents fm" "queues fm1 = queues fm"
    by auto
qed

lemma add_fetch_request_eq:
  assumes "is_valid_replica cfg target" "with_context hash fm = (c, fm1)" "fetch_wf fm"
  shows "add_fetch_request cfg hash target es fm =
    bindE (of_option OutOfRange (queues fm target)) (\<lambda>q.
      Inr (fm1\<lparr>queues := (queues fm)(target \<mapsto> fq_add_request (request_ctxs fm1) c q),
        request_ctxs := (request_ctxs fm1)[c := add_network_events es (request_ctxs fm1 ! c)]\<rparr>))"
proof -
  note ok = with_context_ok [OF assms(3,2)]
  have "\<not> was_requested_from target (request_ctxs fm1 ! c)"
    using never_requested fetch_wfD(2,6) [OF ok(1)] ok(2) by blast
  then show ?thesis
    using assms(1) ok(5) unfolding add_fetch_request_def with_context_def [symmetric] assms(2)
    by (cases "queues fm target") simp_all
qed

lemma add_fetch_request_ok:
  assumes wf: "fetch_wf fm" and v: "is_valid_replica cfg target"
    and add: "add_fetch_request cfg hash target es fm = Inr fm'"
  shows "fetch_wf fm'" and "waiting_events fm' = (waiting_events fm)(hash := waiting_events fm hash @ es)"
    and "dependents fm' \<subseteq> dependents fm \<union> set es"
    and "\<exists>q. queues fm' target = Some q \<and> hash \<in> set (reqs (fq_worker q))"
proof -
  obtain c fm1 where w: "with_context hash fm = (c, fm1)" by (cases "with_context hash fm")
  note ok = with_context_ok [OF wf w]
  note D = fetch_wfD [OF ok(1)]
  obtain q where q: "queues fm target = Some q" and fm': "fm' = fm1\<lparr>
      queues := (queues fm)(target \<mapsto> fq_add_request (request_ctxs fm1) c q),
      request_ctxs := (request_ctxs fm1)[c := add_network_events es (request_ctxs fm1 ! c)]\<rparr>"
    using add add_fetch_request_eq [OF v w wf] by (cases "queues fm target") auto
  have c: "c < length (request_ctxs fm1)" using D(2) ok(2) .
  have nth: "request_ctxs fm' ! d = (if d = c then add_network_events es (request_ctxs fm1 ! c)
      else request_ctxs fm1 ! d)" for d
    using c by (auto simp: fm')
  have find: "outstanding_reqs fm' = outstanding_reqs fm1" by (simp add: fm')
  have len: "length (request_ctxs fm') = length (request_ctxs fm1)" by (simp add: fm')
  have keep: "request (request_ctxs fm' ! d) = request (request_ctxs fm1 ! d)"
    "block_is_received (request_ctxs fm' ! d) = block_is_received (request_ctxs fm1 ! d)"
    "requested_from (request_ctxs fm' ! d) = requested_from (request_ctxs fm1 ! d)" for d
    by (simp_all add: nth add_network_events_def)
  show "fetch_wf fm'"
    unfolding fetch_wf_def find keep len
  proof (intro conjI allI impI)
    show "omap_wf (outstanding_reqs fm1)" by (rule D)
    show "d < length (request_ctxs fm1)" "request (request_ctxs fm1 ! d) = k"
      "\<not> block_is_received (request_ctxs fm1 ! d)"
      if "omap_find (outstanding_reqs fm1) k = Some d" for k d using D(2-4) [OF that] by simp_all
    show "requested_from (request_ctxs fm1 ! d) = 0" if "d < length (request_ctxs fm1)" for d
      using D(6) [OF that] .
    show "d < length (request_ctxs fm1)"
      if "queues fm' rid = Some q'" "d \<in> set (fq_outstanding_reqs q')" for rid q' d
      using that D(5) [of rid q' d] D(5) [of target q d] set_fq_add_request [of "request_ctxs fm1" c q] c q ok(5)
      by (cases "rid = target") (auto simp: fm')
  qed
  have inj: "k = hash" if "omap_find (outstanding_reqs fm1) k = Some c" for k
    using D(3) [OF that] D(3) [OF ok(2)] by simp
  have "waiting_events fm' k = ((waiting_events fm1)(hash := waiting_events fm1 hash @ es)) k" for k
  proof (cases "k = hash")
    case True
    then show ?thesis using ok(2) by (simp add: waiting_events_def find nth add_network_events_def)
  next
    case False
    then show ?thesis
      using inj [of k] by (cases "omap_find (outstanding_reqs fm1) k") (auto simp: waiting_events_def find nth)
  qed
  then show "waiting_events fm' = (waiting_events fm)(hash := waiting_events fm hash @ es)"
    using ok(3) by auto
  have "dependents fm' \<subseteq> dependents fm1 \<union> set es"
    using dependents_update [OF c, of fm' "add_network_events es (request_ctxs fm1 ! c)" "set es"]
    by (simp add: fm' add_network_events_def)
  then show "dependents fm' \<subseteq> dependents fm \<union> set es" using ok(4) by simp
  show "\<exists>q. queues fm' target = Some q \<and> hash \<in> set (reqs (fq_worker q))"
    using D(3) [OF ok(2)] by (simp add: fm' worker_add_request_def)
qed

lemma add_fetch_request_cases:
  assumes "fetch_wf fm" "add_fetch_request cfg hash target es fm = Inr fm'"
  shows "fetch_wf fm'" and "dependents fm' \<subseteq> dependents fm \<union> set es"
proof -
  have "fetch_wf fm' \<and> dependents fm' \<subseteq> dependents fm \<union> set es"
  proof (cases "is_valid_replica cfg target")
    case True
    then show ?thesis using add_fetch_request_ok [OF assms(1) _ assms(2)] by blast
  next
    case False
    then have "fm' = fm" using assms(2) by (simp add: add_fetch_request_def)
    then show ?thesis using assms(1) by simp
  qed
  then show "fetch_wf fm'" "dependents fm' \<subseteq> dependents fm \<union> set es" by auto
qed

lemma deliver_block_ok:
  assumes wf: "fetch_wf fm" and d: "deliver_block hash fm = (es, fm')"
  shows "fetch_wf fm'" and "es = waiting_events fm hash"
    and "waiting_events fm' = (waiting_events fm)(hash := [])"
    and "dependents fm' \<subseteq> dependents fm" and "set es \<subseteq> dependents fm"
    and "omap_find (outstanding_reqs fm') hash = None"
proof -
  note D = fetch_wfD [OF wf]
  have "fetch_wf fm' \<and> es = waiting_events fm hash \<and> waiting_events fm' = (waiting_events fm)(hash := []) \<and>
    dependents fm' \<subseteq> dependents fm \<and> set es \<subseteq> dependents fm \<and> omap_find (outstanding_reqs fm') hash = None"
  proof (cases "omap_find (outstanding_reqs fm) hash")
    case None
    then show ?thesis using wf d by (auto simp: deliver_block_def waiting_events_def)
  next
    case (Some c)
    then have fm': "es = dependent_network_events (request_ctxs fm ! c)"
      "fm' = fm\<lparr>request_ctxs := (request_ctxs fm)[c := mark_received (request_ctxs fm ! c)],
         outstanding_reqs := omap_erase hash (outstanding_reqs fm)\<rparr>"
      using d by (auto simp: deliver_block_def)
    note c = D(2-4) [OF Some]
    have find: "omap_find (outstanding_reqs fm') k = (if k = hash then None else omap_find (outstanding_reqs fm) k)" for k
      by (simp add: fm' omap_find_erase)
    have nth: "request_ctxs fm' ! d = (if d = c then mark_received (request_ctxs fm ! c)
        else request_ctxs fm ! d)" for d
      using c(1) by (auto simp: fm')
    have other: "d \<noteq> c" if "k \<noteq> hash" "omap_find (outstanding_reqs fm) k = Some d" for k d
      using D(3) [OF that(2)] c(2) that(1) by auto
    have len: "length (request_ctxs fm') = length (request_ctxs fm)" "queues fm' = queues fm"
      by (simp_all add: fm')
    have keep: "request (request_ctxs fm' ! d) = request (request_ctxs fm ! d)"
      "d \<noteq> c \<Longrightarrow> block_is_received (request_ctxs fm' ! d) = block_is_received (request_ctxs fm ! d)"
      "requested_from (request_ctxs fm' ! d) = requested_from (request_ctxs fm ! d)" for d
      by (simp_all add: nth mark_received_def)
    have "fetch_wf fm'"
      unfolding fetch_wf_def len find
    proof (intro conjI allI impI)
      show "omap_wf (outstanding_reqs fm')" using D(1) by (simp add: fm')
      show "d < length (request_ctxs fm)"
        if "queues fm rid = Some q" "d \<in> set (fq_outstanding_reqs q)" for rid q d
        using that D(5) by blast
      show "requested_from (request_ctxs fm' ! d) = 0" if "d < length (request_ctxs fm)" for d
        using D(6) [OF that] keep(3) by simp
      fix k d assume "(if k = hash then None else omap_find (outstanding_reqs fm) k) = Some d"
      then have k: "k \<noteq> hash" "omap_find (outstanding_reqs fm) k = Some d" by (auto split: if_splits)
      show "d < length (request_ctxs fm)" "request (request_ctxs fm' ! d) = k"
        "\<not> block_is_received (request_ctxs fm' ! d)"
        using D(2-4) [OF k(2)] keep [of d] other [OF k] by simp_all
    qed
    moreover have "waiting_events fm' k = ((waiting_events fm)(hash := [])) k" for k
      using other [of k]
      by (cases "omap_find (outstanding_reqs fm) k") (auto simp: waiting_events_def find nth)
    moreover have "dependents fm' \<subseteq> dependents fm"
      using dependents_update [OF c(1), of fm' "mark_received (request_ctxs fm ! c)" "{}"]
      by (simp add: fm' mark_received_def)
    moreover have "set es \<subseteq> dependents fm" using nth_mem [OF c(1)] by (auto simp: dependents_def fm')
    ultimately show ?thesis using find Some by (auto simp: waiting_events_def fm'(1))
  qed
  then show "fetch_wf fm'" "es = waiting_events fm hash" "waiting_events fm' = (waiting_events fm)(hash := [])"
    "dependents fm' \<subseteq> dependents fm" "set es \<subseteq> dependents fm" "omap_find (outstanding_reqs fm') hash = None"
    by auto
qed

text \<open>
  C26 --- The block fetch manager. Seen as the map from a missing hash to the network events that
  wait for that block, a request to a replica of the configuration appends its events and queues
  the hash for that replica, also when the same hash was requested from it before. Delivering a
  block hands out the waiting events, each once and in the order they were added, and forgets them.
  No other waiting event is touched, and the manager stays well-formed.
\<close>

theorem fetch_manager_refines:
  assumes wf: "fetch_wf fm" and v: "is_valid_replica cfg target" and q: "queues fm target = Some q"
  shows "\<exists>fm1 q1 fm2.
    add_fetch_request cfg hash target es fm = Inr fm1 \<and> fetch_wf fm1 \<and>
    waiting_events fm1 = (waiting_events fm)(hash := waiting_events fm hash @ es) \<and>
    queues fm1 target = Some q1 \<and> hash \<in> set (reqs (fq_worker q1)) \<and>
    deliver_block hash fm1 = (waiting_events fm hash @ es, fm2) \<and> fetch_wf fm2 \<and>
    waiting_events fm2 = (waiting_events fm)(hash := [])"
proof -
  obtain c fm0 where "with_context hash fm = (c, fm0)" by (cases "with_context hash fm")
  then obtain fm1 where add: "add_fetch_request cfg hash target es fm = Inr fm1"
    using add_fetch_request_eq [OF v _ wf] q by force
  note ok = add_fetch_request_ok [OF wf v add]
  obtain ds fm2 where d: "deliver_block hash fm1 = (ds, fm2)" by (cases "deliver_block hash fm1")
  show ?thesis
    using add ok d deliver_block_ok [OF ok(1) d] by auto
qed

theorem fetch_manager_refines_witness:
  "let fm = fm_add_replica (demo_info 2) new_BlockFetchManager;
       vote = VoteNetEvent \<lparr>cert_hash = zero_hash, cert_sig = []\<rparr> 2
   in fetch_wf fm \<and> is_valid_replica (demo_config 4) 2 \<and>
     (\<exists>fm1 fm2. add_fetch_request (demo_config 4) zero_hash 2 [vote] fm = Inr fm1 \<and>
        waiting_events fm1 zero_hash = [vote] \<and> deliver_block zero_hash fm1 = ([vote], fm2) \<and>
        waiting_events fm2 zero_hash = [])"
proof -
  let ?fm = "fm_add_replica (demo_info 2) new_BlockFetchManager"
  let ?vote = "VoteNetEvent \<lparr>cert_hash = zero_hash, cert_sig = []\<rparr> 2"
  have wf: "fetch_wf ?fm"
    by (simp add: fetch_wf_def fm_add_replica_def new_BlockFetchManager_def new_ReplicaFetchQueue_def)
  have q: "queues ?fm 2 = Some (new_ReplicaFetchQueue (demo_info 2))"
    by (simp add: fm_add_replica_def new_BlockFetchManager_def demo_info_def)
  have v: "is_valid_replica (demo_config 4) 2" by (simp add: replica_ids_demo_4)
  have "waiting_events ?fm = (\<lambda>_. [])"
    by (auto simp: fm_add_replica_def new_BlockFetchManager_def waiting_events_def)
  then show ?thesis
    using fetch_manager_refines [OF wf v q, of zero_hash "[?vote]"] wf v by (auto simp: Let_def)
qed

end
