(* ===== verification/AppBase.thy ===== *)
theory AppBase
  imports Consensus Fetch
begin

text \<open>
  The application layer around the consensus core: \<open>HotstuffAppBase\<close> (\<^verbatim>\<open>src/hotstuff/hotstuff.cc\<close>), the
  outbound messages (\<^verbatim>\<open>protocol/hotstuff_protocol_manager.cc\<close>, \<^verbatim>\<open>hotstuff_protocol_client.cc\<close>), the
  inbound messages (\<^verbatim>\<open>protocol/hotstuff_server.cc\<close>), and the two event queues
  (\<^verbatim>\<open>event_queue.cc\<close>, \<^verbatim>\<open>network_event_queue.cc\<close>). The objects of the class refer to each other, so
  their methods are functions on the state of the whole application; only the virtual method
  \<open>get_next_vm_block\<close> is left to the two derived classes.
\<close>

section \<open>HotstuffProtocolClient\<close>

text \<open>
  Outbound messages to one peer. The worker thread takes the vector \<open>work\<close> and sends the entries
  in order, repeating each until the call succeeds; \<open>todo\<close> is what it has taken. When \<open>done_flag\<close>
  is set, \<open>run\<close> returns instead of taking more, and \<open>do_work\<close> returns at its start or after
  a failed call, leaving the rest of what it was given unsent. The argument \<open>done_flag\<close> of the
  operations is the value the test reads.
\<close>

datatype msg_t = VoteMsg VoteMessage | ProposeMsg ProposeMessage

record HotstuffProtocolClient =
  todo :: "msg_t list"
  work :: "msg_t list"

definition new_HotstuffProtocolClient :: HotstuffProtocolClient where
  "new_HotstuffProtocolClient = \<lparr>todo = [], work = []\<rparr>"

definition client_propose :: "ProposeMessage \<Rightarrow> HotstuffProtocolClient \<Rightarrow> HotstuffProtocolClient" where
  "client_propose proposal c = c\<lparr>work := work c @ [ProposeMsg proposal]\<rparr>"

definition client_vote :: "VoteMessage \<Rightarrow> HotstuffProtocolClient \<Rightarrow> HotstuffProtocolClient" where
  "client_vote vote c = c\<lparr>work := work c @ [VoteMsg vote]\<rparr>"

definition client_take :: "bool \<Rightarrow> HotstuffProtocolClient \<Rightarrow> HotstuffProtocolClient" where
  "client_take done_flag c =
     (if done_flag then c
      else if todo c = [] \<and> length (work c) > 0 then c\<lparr>todo := work c, work := []\<rparr> else c)"

text \<open>The test at the start of \<open>do_work\<close>.\<close>

definition client_start_work :: "bool \<Rightarrow> HotstuffProtocolClient \<Rightarrow> HotstuffProtocolClient" where
  "client_start_work done_flag c = (if done_flag then c\<lparr>todo := []\<rparr> else c)"

text \<open>
  One pass of the retry loop of \<open>do_work\<close>: \<open>ok\<close> is whether the remote call succeeded. The result
  is the message that was delivered, if any.
\<close>

definition client_do_work ::
  "bool \<Rightarrow> bool \<Rightarrow> HotstuffProtocolClient \<Rightarrow> msg_t option \<times> HotstuffProtocolClient" where
  "client_do_work done_flag ok c =
     (case todo c of
        [] \<Rightarrow> (None, c)
      | m # ms \<Rightarrow>
          if ok then (Some m, c\<lparr>todo := ms\<rparr>)
          else if done_flag then (None, c\<lparr>todo := []\<rparr>)
          else (None, c))"

section \<open>HotstuffAppBase\<close>

record 'db HotstuffAppBase = "'db HotstuffCore" +
  block_store :: BlockStore
  block_fetch_manager :: BlockFetchManager
  event_queue :: "Event GenericEventQueue"
  network_event_queue :: "NetEvent GenericEventQueue"
  other_clients :: "ReplicaID \<rightharpoonup> HotstuffProtocolClient"
  secret_key :: SecretKey
  latest_new_qc :: "Hash option"
  cancel_wait :: bool

text \<open>The clients the constructor of \<open>HotstuffProtocolManager\<close> creates.\<close>

definition new_other_clients :: "ReplicaConfig \<Rightarrow> ReplicaID \<Rightarrow> (ReplicaID \<rightharpoonup> HotstuffProtocolClient)" where
  "new_other_clients cfg rid =
     fold (\<lambda>info m. if info_id info \<noteq> rid \<and> m (info_id info) = None
                    then m(info_id info \<mapsto> new_HotstuffProtocolClient) else m)
       (list_info cfg) Map.empty"

definition new_HotstuffAppBase ::
  "('bv, 'db, 'tx) env \<Rightarrow> ReplicaConfig \<Rightarrow> ReplicaID \<Rightarrow> SecretKey \<Rightarrow> 'db \<Rightarrow> disk \<Rightarrow>
   'db HotstuffAppBase result" where
  "new_HotstuffAppBase env cfg rid sk db d =
     bindE (new_HotstuffCore env cfg rid db d) (\<lambda>core.
     bindE (new_BlockStore (genesis core) (heap core)) (\<lambda>bs.
     Inr (HotstuffCore.extend core
       (HotstuffAppBase.fields bs (init_configs cfg new_BlockFetchManager)
          new_GenericEventQueue new_GenericEventQueue (new_other_clients cfg rid)
          sk None False))))"

section \<open>EventQueue\<close>

definition validate_and_add_event ::
  "Event \<Rightarrow> ('db, 'm) HotstuffAppBase_scheme \<Rightarrow> ('db, 'm) HotstuffAppBase_scheme result" where
  "validate_and_add_event e st =
     bindE (Event_validate (heap st) e) (\<lambda>ok.
     Inr (if \<not> ok then st else st\<lparr>event_queue := add_event e (event_queue st)\<rparr>))"

text \<open>\<open>EventQueue::on_event\<close> applies the event to the core.\<close>

fun on_event ::
  "('tx, ('db, 'm) HotstuffCore_scheme) core_virtuals \<Rightarrow> ('bv, 'db, 'tx) env \<Rightarrow> Event \<Rightarrow>
   ('db, 'm) HotstuffCore_scheme \<Rightarrow> ('db, 'm) HotstuffCore_scheme result" where
  "on_event vt env (VoteEvent rid cert block) st = on_receive_vote vt env cert block rid st"
| "on_event vt env (ProposalEvent rid block) st = on_receive_proposal vt env block rid st"

section \<open>HotstuffProtocolManager\<close>

definition self_client_vote ::
  "block_addr \<Rightarrow> PartialCertificate \<Rightarrow> ('db, 'm) HotstuffAppBase_scheme \<Rightarrow>
   ('db, 'm) HotstuffAppBase_scheme result" where
  "self_client_vote block pc st = validate_and_add_event (VoteEvent (self_id st) pc block) st"

definition self_client_propose ::
  "block_addr \<Rightarrow> ('db, 'm) HotstuffAppBase_scheme \<Rightarrow> ('db, 'm) HotstuffAppBase_scheme result" where
  "self_client_propose block st = validate_and_add_event (ProposalEvent (self_id st) block) st"

definition send_vote_to ::
  "block_addr \<Rightarrow> PartialCertificate \<Rightarrow> ReplicaID \<Rightarrow> ('db, 'm) HotstuffAppBase_scheme \<Rightarrow>
   ('db, 'm) HotstuffAppBase_scheme result" where
  "send_vote_to block pc target st =
     (if target = self_id st then self_client_vote block pc st
      else
        bindE (of_option OutOfRange (other_clients st target)) (\<lambda>c.
        Inr (st\<lparr>other_clients := (other_clients st)
                  (target \<mapsto> client_vote \<lparr>msg_vote = pc, msg_voter = self_id st\<rparr> c)\<rparr>)))"

definition broadcast_proposal ::
  "block_addr \<Rightarrow> ('db, 'm) HotstuffAppBase_scheme \<Rightarrow> ('db, 'm) HotstuffAppBase_scheme result" where
  "broadcast_proposal block st =
     bindE (self_client_propose block st) (\<lambda>st.
     bindE (deref (heap st) block) (\<lambda>b.
     let p = \<lparr>msg_proposal = to_wire b, msg_proposer = self_id st\<rparr> in
     Inr (st\<lparr>other_clients := (\<lambda>r. map_option (client_propose p) (other_clients st r))\<rparr>)))"

section \<open>The virtual methods HotstuffAppBase implements\<close>

definition base_do_vote ::
  "('bv, 'db, 'tx) env \<Rightarrow> block_addr \<Rightarrow> ReplicaID \<Rightarrow> ('db, 'm) HotstuffAppBase_scheme \<Rightarrow>
   ('db, 'm) HotstuffAppBase_scheme result" where
  "base_do_vote env block rid st =
     bindE (deref (heap st) block) (\<lambda>b.
     bindE (new_PartialCertificate env (get_hash b) (secret_key st)) (\<lambda>cert.
     send_vote_to block cert rid st))"

definition base_notify_ok_to_prune_blocks ::
  "uint64 \<Rightarrow> ('db, 'm) HotstuffAppBase_scheme \<Rightarrow> ('db, 'm) HotstuffAppBase_scheme result" where
  "base_notify_ok_to_prune_blocks committed_hotstuff_height st =
     Inr (st\<lparr>block_store :=
           prune_below_height
             (if committed_hotstuff_height > 100 then committed_hotstuff_height - 100 else 0)
             (block_store st)\<rparr>)"

definition base_find_block_by_hash ::
  "Hash \<Rightarrow> ('db, 'm) HotstuffAppBase_scheme \<Rightarrow> block_addr result" where
  "base_find_block_by_hash hash st =
     of_option (RuntimeError ''Failed to find block during initialization'')
       (get_block hash (block_store st))"

definition base_on_new_qc ::
  "Hash \<Rightarrow> ('db, 'm) HotstuffAppBase_scheme \<Rightarrow> ('db, 'm) HotstuffAppBase_scheme result" where
  "base_on_new_qc hash st = Inr (st\<lparr>latest_new_qc := Some hash\<rparr>)"

section \<open>Proposing\<close>

text \<open>\<open>get_next_vm_block nonempty_proposal hotstuff_height\<close> is the virtual method of the class.\<close>

definition propose_with_body ::
  "('bv, 'db, 'tx) env \<Rightarrow> bytes \<Rightarrow> ('db, 'm) HotstuffAppBase_scheme \<Rightarrow>
   (Hash \<times> ('db, 'm) HotstuffAppBase_scheme) result" where
  "propose_with_body env bs st =
     bindE (deref (heap st) (b_leaf st)) (\<lambda>leaf.
     bindE (mint_block env bs (snd (hqc st)) (get_hash leaf) (self_id st) (heap st)) (\<lambda>(a, h).
     bindE (insert_block a h (block_store st)) (\<lambda>(missing, h, store).
       if MissingDependencies_bool missing
       then Inl (RuntimeError ''failed to insert newly minted block?'')
       else
         let st = st\<lparr>heap := h, block_store := store, b_leaf := a\<rparr> in
         bindE (broadcast_proposal a st) (\<lambda>st.
         bindE (deref (heap st) (b_leaf st)) (\<lambda>b.
         Inr (get_hash b, st))))))"

definition do_propose ::
  "(bool \<Rightarrow> uint64 \<Rightarrow> ('db, 'm) HotstuffAppBase_scheme \<Rightarrow>
     (bytes \<times> ('db, 'm) HotstuffAppBase_scheme) result) \<Rightarrow>
   ('bv, 'db, 'tx) env \<Rightarrow> ('db, 'm) HotstuffAppBase_scheme \<Rightarrow>
   (Hash \<times> ('db, 'm) HotstuffAppBase_scheme) result" where
  "do_propose get_next_vm_block env st =
     bindE (deref (heap st) (b_leaf st)) (\<lambda>leaf.
     bindE (supports_nonempty_child_proposal (heap st) (b_leaf st) (self_id st) 3) (\<lambda>nonempty.
     bindE (get_next_vm_block nonempty (block_height leaf + 1) st) (\<lambda>(bs, st).
     propose_with_body env bs st)))"

definition do_empty_propose ::
  "(bool \<Rightarrow> uint64 \<Rightarrow> ('db, 'm) HotstuffAppBase_scheme \<Rightarrow>
     (bytes \<times> ('db, 'm) HotstuffAppBase_scheme) result) \<Rightarrow>
   ('bv, 'db, 'tx) env \<Rightarrow> ('db, 'm) HotstuffAppBase_scheme \<Rightarrow>
   (Hash \<times> ('db, 'm) HotstuffAppBase_scheme) result" where
  "do_empty_propose get_next_vm_block env st =
     bindE (deref (heap st) (b_leaf st)) (\<lambda>leaf.
     bindE (get_next_vm_block False (block_height leaf + 1) st) (\<lambda>(bs, st).
     propose_with_body env bs st))"

section \<open>Waiting for a quorum certificate\<close>

text \<open>
  \<open>wait_for_new_qc\<close> from the moment its wait condition holds; \<open>None\<close> while it does not.
\<close>

definition wait_for_new_qc ::
  "Hash \<Rightarrow> ('db, 'm) HotstuffAppBase_scheme \<Rightarrow> (bool \<times> ('db, 'm) HotstuffAppBase_scheme) option" where
  "wait_for_new_qc expected_next_qc st =
     (if cancel_wait st then Some (False, st\<lparr>cancel_wait := False\<rparr>)
      else case latest_new_qc st of
             None \<Rightarrow> None
           | Some q \<Rightarrow> Some (q = expected_next_qc, st\<lparr>latest_new_qc := None\<rparr>))"

definition cancel_wait_for_new_qc ::
  "('db, 'm) HotstuffAppBase_scheme \<Rightarrow> ('db, 'm) HotstuffAppBase_scheme" where
  "cancel_wait_for_new_qc st = st\<lparr>cancel_wait := True\<rparr>"

section \<open>Restarting from disk\<close>

definition reload_one ::
  "('bv, 'db, 'tx) env \<Rightarrow> bytes \<times> bytes \<Rightarrow> uint64 \<times> ('db, 'm) HotstuffAppBase_scheme \<Rightarrow>
   (uint64 \<times> ('db, 'm) HotstuffAppBase_scheme) result" where
  "reload_one env kv hs =
     (case hs of (highest_decision, st) \<Rightarrow>
      bindE (cursor_deref env kv) (\<lambda>(_, hash).
      bindE (get_info (config st) (self_id st)) (\<lambda>info.
      bindE (load_decided_block env hash info (files st) (heap st)) (\<lambda>(blk, h).
      bindE (insert_block blk h (block_store st)) (\<lambda>(res, h, store).
        if MissingDependencies_bool res
        then Inl (RuntimeError ''unable to properly load data into block store'')
        else
          bindE (deref h blk) (\<lambda>b.
          Inr (block_height b, st\<lparr>heap := h, block_store := store\<rparr>)))))))"

definition reload_decided_blocks ::
  "('tx, ('db, 'm) HotstuffAppBase_scheme) core_virtuals \<Rightarrow> ('bv, 'db, 'tx) env \<Rightarrow>
   ('db, 'm) HotstuffAppBase_scheme \<Rightarrow> (uint64 \<times> ('db, 'm) HotstuffAppBase_scheme) result" where
  "reload_decided_blocks vt env st =
     bindE (foldE (reload_one env) (lmdb_cursor env (decided_hash_index st) data_dbi) (0, st))
       (\<lambda>(highest_decision, st).
     bindE (reload_state_from_index vt env st) (\<lambda>st.
     Inr (highest_decision, st)))"

section \<open>NetworkEventQueue\<close>

definition net_validate_and_add_event ::
  "('bv, 'db, 'tx) env \<Rightarrow> NetEvent \<Rightarrow> ('db, 'm) HotstuffAppBase_scheme \<Rightarrow>
   ('db, 'm) HotstuffAppBase_scheme result" where
  "net_validate_and_add_event env e st =
     bindE (NetEvent_validate env (config st) e (heap st)) (\<lambda>(ok, h).
     let st = st\<lparr>heap := h\<rparr> in
     Inr (if ok then st\<lparr>network_event_queue := add_event e (network_event_queue st)\<rparr> else st))"

definition fetch_request ::
  "Hash \<Rightarrow> ReplicaID \<Rightarrow> NetEvent list \<Rightarrow> ('db, 'm) HotstuffAppBase_scheme \<Rightarrow>
   ('db, 'm) HotstuffAppBase_scheme result" where
  "fetch_request hash target es st =
     bindE (add_fetch_request (config st) hash target es (block_fetch_manager st)) (\<lambda>fm.
     Inr (st\<lparr>block_fetch_manager := fm\<rparr>))"

text \<open>
  The part the lambdas for proposals and for received blocks share: \<open>missing\<close> dependencies are
  requested from \<open>sender\<close>, the first of them carrying the events that wait.
\<close>

definition request_dependencies ::
  "MissingDependencies \<Rightarrow> ReplicaID \<Rightarrow> NetEvent list \<Rightarrow> ('db, 'm) HotstuffAppBase_scheme \<Rightarrow>
   ('db, 'm) HotstuffAppBase_scheme result" where
  "request_dependencies missing sender dep_events st =
     bindE (case missing_parent missing of
              None \<Rightarrow> Inr (dep_events, st)
            | Some hash \<Rightarrow>
                bindE (fetch_request hash sender dep_events st) (\<lambda>st. Inr ([], st)))
       (\<lambda>(dep_events, st).
     case missing_justify missing of
       None \<Rightarrow> Inr st
     | Some hash \<Rightarrow> fetch_request hash sender dep_events st)"

definition net_insert ::
  "NetEvent \<Rightarrow> block_addr \<Rightarrow> ReplicaID \<Rightarrow> ('db, 'm) HotstuffAppBase_scheme \<Rightarrow>
   (bool \<times> ('db, 'm) HotstuffAppBase_scheme) result" where
  "net_insert event blk sender st =
     bindE (insert_block blk (heap st) (block_store st)) (\<lambda>(missing, h, store).
     bindE (deref h blk) (\<lambda>b.
     let st = st\<lparr>heap := h, block_store := store\<rparr>;
         (dep_events, fm) = deliver_block (get_hash b) (block_fetch_manager st);
         st = st\<lparr>block_fetch_manager := fm\<rparr>
     in
     if \<not> MissingDependencies_bool missing then
       Inr (True, st\<lparr>network_event_queue := add_events dep_events (network_event_queue st)\<rparr>)
     else
       bindE (request_dependencies missing sender (dep_events @ [event]) st) (\<lambda>st.
       Inr (False, st))))"

fun net_on_event ::
  "NetEvent \<Rightarrow> ('db, 'm) HotstuffAppBase_scheme \<Rightarrow> ('db, 'm) HotstuffAppBase_scheme result" where
  "net_on_event (VoteNetEvent cert voter) st =
     (case get_block (cert_hash cert) (block_store st) of
        Some block_ptr \<Rightarrow>
          validate_and_add_event (VoteNetEvent_to_hotstuff_event cert voter block_ptr) st
      | None \<Rightarrow> fetch_request (cert_hash cert) voter [VoteNetEvent cert voter] st)"
| "net_on_event (ProposalNetEvent blk rid) st =
     bindE (net_insert (ProposalNetEvent blk rid) blk rid st) (\<lambda>(inserted, st).
       if inserted
       then validate_and_add_event (ProposalNetEvent_to_hotstuff_event blk rid) st
       else Inr st)"
| "net_on_event (BlockReceiveNetEvent blk sender) st =
     bindE (net_insert (BlockReceiveNetEvent blk sender) blk sender st) (\<lambda>(_, st). Inr st)"

section \<open>HotstuffProtocolHandler: inbound messages\<close>

definition handler_vote ::
  "('bv, 'db, 'tx) env \<Rightarrow> VoteMessage \<Rightarrow> ('db, 'm) HotstuffAppBase_scheme \<Rightarrow>
   ('db, 'm) HotstuffAppBase_scheme result" where
  "handler_vote env v st =
     (if \<not> is_valid_replica (config st) (msg_voter v) then Inr st
      else net_validate_and_add_event env (new_VoteNetEvent v) st)"

definition handler_propose ::
  "('bv, 'db, 'tx) env \<Rightarrow> ProposeMessage \<Rightarrow> ('db, 'm) HotstuffAppBase_scheme \<Rightarrow>
   ('db, 'm) HotstuffAppBase_scheme result" where
  "handler_propose env p st =
     (if \<not> is_valid_replica (config st) (msg_proposer p) then Inr st
      else
        bindE (new_ProposalNetEvent env p (heap st)) (\<lambda>(e, h).
        net_validate_and_add_event env e (st\<lparr>heap := h\<rparr>)))"

section \<open>BlockFetchWorker: one exchange with a peer\<close>

definition upd_worker ::
  "ReplicaID \<Rightarrow> (BlockFetchWorker \<Rightarrow> BlockFetchWorker) \<Rightarrow> ('db, 'm) HotstuffAppBase_scheme \<Rightarrow>
   ('db, 'm) HotstuffAppBase_scheme" where
  "upd_worker rid f st =
     st\<lparr>block_fetch_manager := (block_fetch_manager st)\<lparr>queues :=
          (queues (block_fetch_manager st))(rid := map_option (\<lambda>q. q\<lparr>fq_worker := f (fq_worker q)\<rparr>)
             (queues (block_fetch_manager st) rid))\<rparr>\<rparr>"

text \<open>
  The first half of an iteration of \<open>run\<close>: take the pending hashes. The thread sleeps while there
  are none, and does not come back to this point while a call is under way.
\<close>

definition fetch_worker_begin ::
  "ReplicaID \<Rightarrow> ('db, 'm) HotstuffAppBase_scheme \<Rightarrow> ('db, 'm) HotstuffAppBase_scheme" where
  "fetch_worker_begin rid st =
     upd_worker rid (\<lambda>w. if fetch_exists_work_to_do w \<and> in_flight w = [] then extract_reqs w else w) st"

text \<open>A call to the peer is under way.\<close>

definition fetch_under_way :: "ReplicaID \<Rightarrow> ('db, 'm) HotstuffAppBase_scheme \<Rightarrow> bool" where
  "fetch_under_way rid st \<longleftrightarrow>
     (case queues (block_fetch_manager st) rid of
        None \<Rightarrow> False | Some q \<Rightarrow> in_flight (fq_worker q) \<noteq> [])"

definition fetch_deliver ::
  "('bv, 'db, 'tx) env \<Rightarrow> ReplicaID \<Rightarrow> HotstuffBlockWire \<Rightarrow> ('db, 'm) HotstuffAppBase_scheme \<Rightarrow>
   ('db, 'm) HotstuffAppBase_scheme result" where
  "fetch_deliver env rid response st =
     bindE (receive_block env response rid (heap st)) (\<lambda>(blk, h).
     bindE (deref h blk) (\<lambda>b.
     bindE (validate_hash env b) (\<lambda>(_, b').
     net_validate_and_add_event env (BlockReceiveNetEvent blk rid)
       (st\<lparr>heap := upd_block blk (\<lambda>_. b') h\<rparr>))))"

text \<open>
  The second half, given the outcome of the call: \<open>None\<close> is a failed call. Without a call under way
  there is no outcome to handle.
\<close>

definition fetch_worker_end ::
  "('bv, 'db, 'tx) env \<Rightarrow> ReplicaID \<Rightarrow> HotstuffBlockWire list option \<Rightarrow>
   ('db, 'm) HotstuffAppBase_scheme \<Rightarrow> ('db, 'm) HotstuffAppBase_scheme result" where
  "fetch_worker_end env rid res st =
     (if \<not> fetch_under_way rid st then Inr st
      else case res of
        None \<Rightarrow> Inr (upd_worker rid readd_request st)
      | Some responses \<Rightarrow>
          foldE (fetch_deliver env rid) responses (upd_worker rid (\<lambda>w. w\<lparr>in_flight := []\<rparr>) st))"

lemma fetch_worker_end_cases:
  assumes "fetch_worker_end env rid res st = Inr st'"
  obtains (idle) "st' = st"
  | (failed) "res = None" "st' = upd_worker rid readd_request st"
  | (answered) responses where "res = Some responses"
      "foldE (fetch_deliver env rid) responses (upd_worker rid (\<lambda>w. w\<lparr>in_flight := []\<rparr>) st) = Inr st'"
  using assms by (auto simp: fetch_worker_end_def split: if_splits option.splits)

text \<open>Answering a peer's fetch request.\<close>

definition serve_fetch ::
  "Hash list \<Rightarrow> ('db, 'm) HotstuffAppBase_scheme \<Rightarrow> HotstuffBlockWire list result" where
  "serve_fetch hashes st = BlockFetchHandler_fetch (block_store st) (heap st) hashes"

end
