(* ===== verification/SpecGadget.thy ===== *)
theory SpecGadget
  imports Index
begin

text \<open>
  \<open>SpeculativeExecGadget\<close> (\<^verbatim>\<open>src/hotstuff/vm/speculative_exec_gadget.h\<close>): the queue of block ids that
  the virtual machine has executed ahead of consensus. The C++ keeps a singly linked
  \<open>std::forward_list\<close> with an iterator to its last element, and a mutex that some methods take
  and others expect the caller to hold. Nodes carry an identity here, so that the iterator can
  dangle, and the mutex has a state, so that a second acquisition by the same thread is visible.
\<close>

section \<open>The gadget\<close>

record 'v gadget_node =
  node_id :: nat
  node_height :: uint64
  node_value :: 'v

text \<open>\<open>last_elt_iter\<close> is \<open>None\<close> for \<open>height_map.end()\<close>; \<open>next_node\<close> supplies node identities.\<close>

record 'v SpeculativeExecGadget =
  height_map :: "'v gadget_node list"
  last_elt_iter :: "nat option"
  next_node :: nat
  mtx_held :: bool
  speculation_head_hotstuff_height :: uint64
  highest_committed_height :: uint64

definition new_SpeculativeExecGadget :: "'v SpeculativeExecGadget" where
  "new_SpeculativeExecGadget =
     \<lparr>height_map = [], last_elt_iter = None, next_node = 0, mtx_held = False,
      speculation_head_hotstuff_height = 1, highest_committed_height = 0\<rparr>"

text \<open>\<open>mtx.lock()\<close> on a mutex that this thread already owns does not return.\<close>

definition gadget_lock :: "'v SpeculativeExecGadget \<Rightarrow> 'v SpeculativeExecGadget result" where
  "gadget_lock g = (if mtx_held g then Inl Deadlock else Inr (g\<lparr>mtx_held := True\<rparr>))"

definition gadget_unlock :: "'v SpeculativeExecGadget \<Rightarrow> 'v SpeculativeExecGadget" where
  "gadget_unlock g = g\<lparr>mtx_held := False\<rparr>"

definition gadget_empty :: "'v SpeculativeExecGadget \<Rightarrow> bool" where
  "gadget_empty g \<longleftrightarrow> last_elt_iter g = None"

definition get_lowest_speculative_hotstuff_height ::
  "'v SpeculativeExecGadget \<Rightarrow> (uint64 \<times> 'v) result" where
  "get_lowest_speculative_hotstuff_height g =
     (if gadget_empty g then Inl (RuntimeError ''can't access from empty list!'')
      else case height_map g of
             [] \<Rightarrow> Inl DanglingIterator
           | n # _ \<Rightarrow> Inr (node_height n, node_value n))"

text \<open>\<open>std::forward_list::insert_after\<close> at the node an iterator designates.\<close>

fun insert_after :: "nat \<Rightarrow> 'v gadget_node \<Rightarrow> 'v gadget_node list \<Rightarrow> 'v gadget_node list result" where
  "insert_after it n [] = Inl DanglingIterator"
| "insert_after it n (m # ms) =
     (if node_id m = it then Inr (m # n # ms)
      else bindE (insert_after it n ms) (\<lambda>ms'. Inr (m # ms')))"

definition add_height_pair ::
  "uint64 \<Rightarrow> 'v \<Rightarrow> 'v SpeculativeExecGadget \<Rightarrow> 'v SpeculativeExecGadget result" where
  "add_height_pair hotstuff_height vm_value g =
     (if speculation_head_hotstuff_height g \<noteq> hotstuff_height then Inr g
      else
        let n = \<lparr>node_id = next_node g, node_height = hotstuff_height, node_value = vm_value\<rparr>;
            g = g\<lparr>speculation_head_hotstuff_height := speculation_head_hotstuff_height g + 1,
                  next_node := next_node g + 1\<rparr>
        in
        case last_elt_iter g of
          None \<Rightarrow> Inr (g\<lparr>height_map := n # height_map g, last_elt_iter := Some (node_id n)\<rparr>)
        | Some it \<Rightarrow>
            bindE (insert_after it n (height_map g)) (\<lambda>l.
            Inr (g\<lparr>height_map := l, last_elt_iter := Some (node_id n)\<rparr>)))"

definition on_commit_hotstuff ::
  "uint64 \<Rightarrow> 'v SpeculativeExecGadget \<Rightarrow> ('v \<times> 'v SpeculativeExecGadget) result" where
  "on_commit_hotstuff hotstuff_height g =
     (if mtx_held g then Inl Deadlock
      else if gadget_empty g then Inl (RuntimeError ''committing on empty map at hs height'')
      else case height_map g of
             [] \<Rightarrow> Inl DanglingIterator
           | front # rest \<Rightarrow>
               if hotstuff_height \<noteq> node_height front
               then Inl (RuntimeError ''gap in commit log!'')
               else Inr (node_value front,
                      g\<lparr>highest_committed_height := node_height front,
                        height_map := rest,
                        last_elt_iter := (if rest = [] then None else last_elt_iter g)\<rparr>))"

definition gadget_clear :: "'v SpeculativeExecGadget \<Rightarrow> 'v SpeculativeExecGadget result" where
  "gadget_clear g =
     (if mtx_held g then Inl Deadlock
      else Inr (g\<lparr>height_map := [], last_elt_iter := None,
                  speculation_head_hotstuff_height := highest_committed_height g + 1\<rparr>))"

definition gadget_init_from_disk ::
  "uint64 \<Rightarrow> 'v SpeculativeExecGadget \<Rightarrow> 'v SpeculativeExecGadget result" where
  "gadget_init_from_disk highest_decided_height g =
     gadget_clear (g\<lparr>highest_committed_height := highest_decided_height\<rparr>)"

section \<open>Invariant\<close>

text \<open>
  The iterator designates the last node, node identities are distinct, and the queued heights
  are the consecutive heights from the one after the last commit up to the speculation head.
\<close>

definition gadget_inv :: "'v SpeculativeExecGadget \<Rightarrow> bool" where
  "gadget_inv g \<longleftrightarrow>
     last_elt_iter g = (if height_map g = [] then None else Some (node_id (last (height_map g)))) \<and>
     distinct (map node_id (height_map g)) \<and>
     (\<forall>n \<in> set (height_map g). node_id n < next_node g) \<and>
     map node_height (height_map g) =
       map (\<lambda>i. highest_committed_height g + 1 + of_nat i) [0..<length (height_map g)] \<and>
     speculation_head_hotstuff_height g =
       highest_committed_height g + 1 + of_nat (length (height_map g))"

text \<open>The abstract view: the queued values, oldest first.\<close>

definition speculated :: "'v SpeculativeExecGadget \<Rightarrow> 'v list" where
  "speculated g = map node_value (height_map g)"

lemma gadget_inv_new [simp, intro]: "gadget_inv new_SpeculativeExecGadget"
  by (simp add: gadget_inv_def new_SpeculativeExecGadget_def)

lemma speculated_new [simp]: "speculated new_SpeculativeExecGadget = []"
  by (simp add: speculated_def new_SpeculativeExecGadget_def)

lemma gadget_inv_mtx [simp]: "gadget_inv (g\<lparr>mtx_held := b\<rparr>) \<longleftrightarrow> gadget_inv g"
  by (simp add: gadget_inv_def)

lemma speculated_mtx [simp]: "speculated (g\<lparr>mtx_held := b\<rparr>) = speculated g"
  by (simp add: speculated_def)

lemma gadget_empty_iff: "gadget_inv g \<Longrightarrow> gadget_empty g \<longleftrightarrow> speculated g = []"
  by (auto simp: gadget_inv_def gadget_empty_def speculated_def)

lemma head_height:
  "gadget_inv g \<Longrightarrow> speculation_head_hotstuff_height g =
     highest_committed_height g + 1 + of_nat (length (speculated g))"
  by (simp add: gadget_inv_def speculated_def)

lemma insert_after_last:
  "ms \<noteq> [] \<Longrightarrow> distinct (map node_id ms) \<Longrightarrow>
     insert_after (node_id (last ms)) n ms = Inr (ms @ [n])"
proof (induction ms)
  case Nil
  then show ?case by simp
next
  case (Cons m ms)
  show ?case
  proof (cases "ms = []")
    case True
    then show ?thesis by simp
  next
    case False
    then have "node_id m \<noteq> node_id (last ms)"
      using Cons.prems(2) by (metis distinct.simps(2) image_eqI last_in_set list.set_map
          list.simps(9))
    then show ?thesis using Cons False by simp
  qed
qed

section \<open>Functional behaviour\<close>

lemma add_height_pair_skip:
  "h \<noteq> speculation_head_hotstuff_height g \<Longrightarrow> add_height_pair h v g = Inr g"
  by (simp add: add_height_pair_def)

lemma add_height_pair_ok:
  assumes "gadget_inv g" "h = speculation_head_hotstuff_height g"
  obtains g' where "add_height_pair h v g = Inr g'" "gadget_inv g'"
    "speculated g' = speculated g @ [v]" "mtx_held g' = mtx_held g"
    "highest_committed_height g' = highest_committed_height g"
proof -
  let ?n = "\<lparr>node_id = next_node g, node_height = h, node_value = v\<rparr>"
  let ?g = "g\<lparr>speculation_head_hotstuff_height := h + 1, next_node := next_node g + 1,
              height_map := height_map g @ [?n], last_elt_iter := Some (next_node g)\<rparr>"
  have add: "add_height_pair h v g = Inr ?g"
  proof (cases "height_map g = []")
    case True
    then show ?thesis using assms by (simp add: add_height_pair_def gadget_inv_def Let_def)
  next
    case False
    then show ?thesis
      using assms by (simp add: add_height_pair_def gadget_inv_def Let_def insert_after_last)
  qed
  have "gadget_inv ?g"
    using assms by (auto simp: gadget_inv_def)
  then show thesis
    using add that by (simp add: speculated_def)
qed

lemma on_commit_ok:
  assumes "gadget_inv g" "\<not> mtx_held g" "speculated g = v # vs"
    and h: "h = highest_committed_height g + 1"
  obtains g' where "on_commit_hotstuff h g = Inr (v, g')" "gadget_inv g'" "speculated g' = vs"
    "\<not> mtx_held g'" "highest_committed_height g' = h"
    "speculation_head_hotstuff_height g' = speculation_head_hotstuff_height g"
proof -
  obtain n ns where ns: "height_map g = n # ns" "node_value n = v" "map node_value ns = vs"
    using assms(3) by (auto simp: speculated_def)
  have hts: "node_height n = h"
    "map node_height ns = map (\<lambda>i. h + 1 + of_nat i) [0..<length ns]"
    using assms(1) unfolding gadget_inv_def ns(1) h
    by (simp_all add: upt_conv_Cons map_Suc_upt [symmetric] ac_simps del: upt_Suc)
  let ?g = "g\<lparr>highest_committed_height := h, height_map := ns,
              last_elt_iter := (if ns = [] then None else last_elt_iter g)\<rparr>"
  have "on_commit_hotstuff h g = Inr (v, ?g)"
    using assms ns hts by (simp add: on_commit_hotstuff_def gadget_empty_def gadget_inv_def)
  moreover have "gadget_inv ?g"
    using assms(1) hts unfolding gadget_inv_def ns(1) h by (auto simp: ac_simps)
  ultimately show thesis
    using that assms(2) ns by (simp add: speculated_def)
qed

lemma on_commit_errors:
  assumes "gadget_inv g" "\<not> mtx_held g"
  shows "returns (on_commit_hotstuff h g) \<longleftrightarrow>
    speculated g \<noteq> [] \<and> h = highest_committed_height g + 1"
proof (cases "height_map g")
  case Nil
  then show ?thesis using assms by (simp add: on_commit_hotstuff_def gadget_inv_def gadget_empty_def
      speculated_def)
next
  case (Cons n ns)
  then have "node_height n = highest_committed_height g + 1"
    using assms(1) by (simp add: gadget_inv_def upt_conv_Cons del: upt_Suc)
  then show ?thesis
    using assms Cons by (simp add: on_commit_hotstuff_def gadget_inv_def gadget_empty_def
        speculated_def)
qed

lemma gadget_clear_ok:
  assumes "gadget_clear g = Inr g'"
  shows "gadget_inv g'" "speculated g' = []" "\<not> mtx_held g'"
    "highest_committed_height g' = highest_committed_height g"
  using assms by (auto simp: gadget_clear_def gadget_inv_def speculated_def split: if_splits)

section \<open>Refinement of a queue of values\<close>

text \<open>
  The specification of the gadget is a queue of values above a committed height. \<open>GAdd\<close> queues a
  value if it is for the next height and is ignored otherwise, \<open>GCommit\<close> removes the oldest value
  if it is asked for the next height and throws otherwise, \<open>GClear\<close> drops all speculation.
\<close>

datatype 'v gadget_op = GAdd uint64 'v | GCommit uint64 | GClear

fun gadget_step ::
  "'v gadget_op \<Rightarrow> 'v SpeculativeExecGadget \<Rightarrow> ('v option \<times> 'v SpeculativeExecGadget) result" where
  "gadget_step (GAdd h v) g = bindE (add_height_pair h v g) (\<lambda>g. Inr (None, g))"
| "gadget_step (GCommit h) g = bindE (on_commit_hotstuff h g) (\<lambda>(v, g). Inr (Some v, g))"
| "gadget_step GClear g = bindE (gadget_clear g) (\<lambda>g. Inr (None, g))"

fun spec_step :: "'v gadget_op \<Rightarrow> uint64 \<times> 'v list \<Rightarrow> ('v option \<times> uint64 \<times> 'v list) result" where
  "spec_step (GAdd h v) (c, q) =
     Inr (None, c, if h = c + 1 + of_nat (length q) then q @ [v] else q)"
| "spec_step (GCommit h) (c, q) =
     (case q of
        [] \<Rightarrow> Inl (RuntimeError ''committing on empty map at hs height'')
      | v # vs \<Rightarrow>
          if h = c + 1 then Inr (Some v, h, vs) else Inl (RuntimeError ''gap in commit log!''))"
| "spec_step GClear (c, q) = Inr (None, c, [])"

definition gadget_abs :: "'v SpeculativeExecGadget \<Rightarrow> uint64 \<times> 'v list" where
  "gadget_abs g = (highest_committed_height g, speculated g)"

definition gadget_ok :: "'v SpeculativeExecGadget \<Rightarrow> bool" where
  "gadget_ok g \<longleftrightarrow> gadget_inv g \<and> \<not> mtx_held g"

lemma gadget_commit_refines:
  assumes "gadget_ok g"
  shows "case on_commit_hotstuff h g of
      Inl e \<Rightarrow> spec_step (GCommit h) (gadget_abs g) = Inl e
    | Inr (v, g') \<Rightarrow> spec_step (GCommit h) (gadget_abs g) = Inr (Some v, gadget_abs g') \<and> gadget_ok g'"
proof (cases "speculated g")
  case Nil
  then show ?thesis
    using assms gadget_empty_iff [of g] by (simp add: gadget_ok_def gadget_abs_def on_commit_hotstuff_def)
next
  case (Cons v vs)
  show ?thesis
  proof (cases "h = highest_committed_height g + 1")
    case True
    have "gadget_inv g" "\<not> mtx_held g"
      using assms by (simp_all add: gadget_ok_def)
    then obtain g' where "on_commit_hotstuff h g = Inr (v, g')" "gadget_inv g'"
      "speculated g' = vs" "\<not> mtx_held g'" "highest_committed_height g' = h"
      by (rule on_commit_ok [OF _ _ Cons True])
    then show ?thesis
      using Cons True by (simp add: gadget_ok_def gadget_abs_def)
  next
    case False
    obtain n ns where n: "height_map g = n # ns"
      using Cons by (auto simp: speculated_def)
    then have "node_height n = highest_committed_height g + 1" "last_elt_iter g \<noteq> None"
      using assms by (simp_all add: gadget_ok_def gadget_inv_def upt_conv_Cons del: upt_Suc)
    then have "on_commit_hotstuff h g = Inl (RuntimeError ''gap in commit log!'')"
      using False assms n by (simp add: on_commit_hotstuff_def gadget_empty_def gadget_ok_def)
    then show ?thesis using Cons False by (simp add: gadget_abs_def)
  qed
qed

text \<open>
  C11 --- The linked list with its tail iterator implements the queue. Every operation on a gadget
  whose mutex is free returns what the specification returns, throws exactly the exceptions the
  specification throws, and leads to a gadget whose queue is the specified one; in particular
  the iterator never dangles and the mutex is free again afterwards.
\<close>

theorem gadget_refines_queue:
  assumes "gadget_ok g"
  shows "case gadget_step op g of
      Inl e \<Rightarrow> spec_step op (gadget_abs g) = Inl e
    | Inr (r, g') \<Rightarrow> spec_step op (gadget_abs g) = Inr (r, gadget_abs g') \<and> gadget_ok g'"
proof (cases op)
  case (GAdd h v)
  have inv: "gadget_inv g" "\<not> mtx_held g"
    using assms by (simp_all add: gadget_ok_def)
  show ?thesis
  proof (cases "h = speculation_head_hotstuff_height g")
    case True
    then obtain g' where "add_height_pair h v g = Inr g'" "gadget_inv g'"
      "speculated g' = speculated g @ [v]" "mtx_held g' = mtx_held g"
      "highest_committed_height g' = highest_committed_height g"
      by (rule add_height_pair_ok [OF inv(1), of h v])
    then show ?thesis
      using GAdd True inv head_height [OF inv(1)] by (simp add: gadget_abs_def gadget_ok_def)
  next
    case False
    then show ?thesis
      using GAdd inv head_height [OF inv(1)]
      by (simp add: add_height_pair_skip gadget_abs_def gadget_ok_def)
  qed
next
  case (GCommit h)
  then show ?thesis
    using gadget_commit_refines [OF assms, of h]
    by (cases "on_commit_hotstuff h g") (simp_all add: case_prod_beta)
next
  case GClear
  obtain g' where clear: "gadget_clear g = Inr g'"
    using assms by (simp add: gadget_clear_def gadget_ok_def)
  then have "gadget_abs g' = (highest_committed_height g, [])" "gadget_ok g'"
    using gadget_clear_ok [OF clear] by (simp_all add: gadget_abs_def gadget_ok_def)
  then show ?thesis
    using GClear clear by (simp add: gadget_abs_def)
qed

theorem gadget_refines_queue_witness:
  "gadget_ok (new_SpeculativeExecGadget :: nat SpeculativeExecGadget) \<and>
   (case gadget_step (GAdd 1 (7 :: nat)) new_SpeculativeExecGadget of
      Inl e \<Rightarrow> spec_step (GAdd 1 (7 :: nat)) (0, []) = Inl e
    | Inr (r, g') \<Rightarrow> spec_step (GAdd 1 7) (0, []) = Inr (r, gadget_abs g') \<and> gadget_ok g')"
proof -
  have "gadget_ok (new_SpeculativeExecGadget :: nat SpeculativeExecGadget)"
    by (simp add: gadget_ok_def new_SpeculativeExecGadget_def gadget_inv_def)
  moreover have "gadget_abs (new_SpeculativeExecGadget :: nat SpeculativeExecGadget) = (0, [])"
    by (simp add: gadget_abs_def) (simp add: new_SpeculativeExecGadget_def)
  ultimately show ?thesis
    using gadget_refines_queue [of "new_SpeculativeExecGadget :: nat SpeculativeExecGadget" "GAdd 1 7"]
    by (simp only: simp_thms HOL.True_implies_equals)
qed

end
