(* ===== verification/VMControl.thy ===== *)
theory VMControl
  imports SpecGadget
begin

text \<open>
  The interface of a replicated state machine (\<^verbatim>\<open>include/hotstuff/vm/vm_base.h\<close>), the example
  machine (\<^verbatim>\<open>examples/vm/counting_vm.cc\<close>), and the asynchronous wrapper that runs a machine in its
  own thread (\<^verbatim>\<open>src/hotstuff/vm/vm_control_interface.cc\<close>).
\<close>

section \<open>VMBase\<close>

text \<open>
  The virtual methods of \<open>VMBlock\<close> and \<open>VMBase\<close>, a parameter of everything that drives a machine:
  \<open>'vb\<close> is the type of its blocks, \<open>'vs\<close> of its state. The methods the implementations may throw
  from return a \<open>result\<close>.
\<close>

record ('vb, 'vs) VMBase =
  get_id :: "'vb \<Rightarrow> VMBlockID"
  vm_serialize :: "'vb \<Rightarrow> bytes"
  try_parse :: "bytes \<Rightarrow> 'vb option"
  vm_init_clean :: "'vs \<Rightarrow> 'vs"
  vm_init_from_disk :: "LogAccessWrapper \<Rightarrow> 'vs \<Rightarrow> 'vs result"
  propose :: "'vs \<Rightarrow> 'vb option \<times> 'vs"
  exec_block :: "'vb \<Rightarrow> 'vs \<Rightarrow> 'vs"
  vm_log_commitment :: "VMBlockID \<Rightarrow> 'vs \<Rightarrow> 'vs result"
  rewind_to_last_commit :: "'vs \<Rightarrow> 'vs"

definition nonempty_block_id :: "('vb, 'vs) VMBase \<Rightarrow> 'vb \<Rightarrow> VMBlockID" where
  "nonempty_block_id vm blk = get_id vm blk"

definition empty_block_id :: VMBlockID where
  "empty_block_id = None"

section \<open>CountingVM\<close>

type_synonym CountingVMBlock = uint64

record CountingVM =
  vm_state :: uint64
  last_committed_state :: uint64

definition CountingVMBlock_of_bytes :: "('bv, 'db, 'tx) env \<Rightarrow> bytes \<Rightarrow> CountingVMBlock result" where
  "CountingVMBlock_of_bytes env v = of_option XdrError (xdr_uint64_from_opaque env v)"

definition counting_get_id :: "('bv, 'db, 'tx) env \<Rightarrow> CountingVMBlock \<Rightarrow> VMBlockID" where
  "counting_get_id env blk = VMBlockID_of_bytes (xdr_uint64_to_opaque env blk)"

definition counting_serialize :: "('bv, 'db, 'tx) env \<Rightarrow> CountingVMBlock \<Rightarrow> bytes" where
  "counting_serialize env blk = xdr_uint64_to_opaque env blk"

definition counting_init_clean :: "CountingVM \<Rightarrow> CountingVM" where
  "counting_init_clean s = s\<lparr>vm_state := 0, last_committed_state := 0\<rparr>"

definition counting_propose :: "CountingVM \<Rightarrow> CountingVMBlock option \<times> CountingVM" where
  "counting_propose s = (let s = s\<lparr>vm_state := vm_state s + 1\<rparr> in (Some (vm_state s), s))"

definition counting_try_parse :: "('bv, 'db, 'tx) env \<Rightarrow> bytes \<Rightarrow> CountingVMBlock option" where
  "counting_try_parse env bs = xdr_uint64_from_opaque env bs"

definition counting_exec_block :: "CountingVMBlock \<Rightarrow> CountingVM \<Rightarrow> CountingVM" where
  "counting_exec_block blk s =
     (if blk = vm_state s + 1 then s\<lparr>vm_state := vm_state s + 1\<rparr> else s)"

definition counting_log_commitment ::
  "('bv, 'db, 'tx) env \<Rightarrow> VMBlockID \<Rightarrow> CountingVM \<Rightarrow> CountingVM result" where
  "counting_log_commitment env vid s =
     (case vid of
        None \<Rightarrow> Inr s
      | Some v \<Rightarrow>
          bindE (of_option XdrError (xdr_uint64_from_opaque env v)) (\<lambda>res.
          Inr (s\<lparr>last_committed_state := res\<rparr>)))"

definition counting_rewind_to_last_commit :: "CountingVM \<Rightarrow> CountingVM" where
  "counting_rewind_to_last_commit s = s\<lparr>vm_state := last_committed_state s\<rparr>"

definition counting_init_from_disk ::
  "('bv, 'db, 'tx) env \<Rightarrow> LogAccessWrapper \<Rightarrow> CountingVM \<Rightarrow> CountingVM result" where
  "counting_init_from_disk env log s =
     foldE (\<lambda>kv s.
       bindE (get_hs_hash_and_vm_data kv) (\<lambda>(hash, vid).
         if VMBlockID_bool vid then
           bindE (load_vm_block (CountingVMBlock_of_bytes env) log hash) (\<lambda>loaded_block.
           counting_log_commitment env vid (counting_exec_block loaded_block s))
         else Inr s)) (log_entries log) s"

definition counting_vm :: "('bv, 'db, 'tx) env \<Rightarrow> (CountingVMBlock, CountingVM) VMBase" where
  "counting_vm env =
     \<lparr>get_id = counting_get_id env, vm_serialize = counting_serialize env,
      try_parse = counting_try_parse env, vm_init_clean = counting_init_clean,
      vm_init_from_disk = counting_init_from_disk env, propose = counting_propose,
      exec_block = counting_exec_block, vm_log_commitment = counting_log_commitment env,
      rewind_to_last_commit = counting_rewind_to_last_commit\<rparr>"

section \<open>VMControlInterface\<close>

record HotstuffConfigs =
  proposal_buffer_target :: nat
  immediately_refill_proposal_buffer :: bool

definition default_HotstuffConfigs :: HotstuffConfigs where
  "default_HotstuffConfigs =
     \<lparr>proposal_buffer_target = 3, immediately_refill_proposal_buffer = True\<rparr>"

text \<open>
  The counters are \<open>size_t\<close>; they count buffered blocks, are set to a configured target and are
  only decreased when they are positive, so natural numbers represent them. A null
  \<open>unique_ptr\<close> is \<open>None\<close>.
\<close>

record ('vb, 'vs) VMControlInterface =
  vm_instance :: 'vs
  vm_configs :: HotstuffConfigs
  PROPOSAL_BUFFER_TARGET :: nat
  blocks_to_validate :: "'vb option list"
  proposal_buffer :: "'vb option list"
  additional_proposal_requests :: nat
  is_proposer :: bool
  highest_committed_id :: "VMBlockID option"
  done_flag :: bool

definition new_VMControlInterface ::
  "'vs \<Rightarrow> HotstuffConfigs \<Rightarrow> ('vb, 'vs) VMControlInterface" where
  "new_VMControlInterface vm cfgs =
     \<lparr>vm_instance = vm, vm_configs = cfgs,
      PROPOSAL_BUFFER_TARGET = proposal_buffer_target cfgs,
      blocks_to_validate = [], proposal_buffer = [], additional_proposal_requests = 0,
      is_proposer = False, highest_committed_id = None, done_flag = False\<rparr>"

definition vmci_exists_work_to_do :: "('vb, 'vs) VMControlInterface \<Rightarrow> bool" where
  "vmci_exists_work_to_do ci \<longleftrightarrow>
     length (blocks_to_validate ci) > 0 \<or>
     (additional_proposal_requests ci > 0 \<and> is_proposer ci) \<or>
     highest_committed_id ci \<noteq> None"

definition set_proposer :: "('vb, 'vs) VMControlInterface \<Rightarrow> ('vb, 'vs) VMControlInterface" where
  "set_proposer ci = ci\<lparr>is_proposer := True\<rparr>"

definition clear_proposal_settings ::
  "('vb, 'vs) VMControlInterface \<Rightarrow> ('vb, 'vs) VMControlInterface" where
  "clear_proposal_settings ci =
     ci\<lparr>is_proposer := False, proposal_buffer := [], additional_proposal_requests := 0\<rparr>"

text \<open>One iteration of the loop of \<open>run\<close>, entered when \<open>cv.wait\<close> returns.\<close>

definition run_validate ::
  "('vb, 'vs) VMBase \<Rightarrow> ('vb, 'vs) VMControlInterface \<Rightarrow> ('vb, 'vs) VMControlInterface" where
  "run_validate vm ci =
     ci\<lparr>vm_instance :=
          fold (\<lambda>b s. case b of None \<Rightarrow> s | Some blk \<Rightarrow> exec_block vm blk s)
            (blocks_to_validate ci) (vm_instance ci),
        blocks_to_validate := []\<rparr>"

definition run_commit ::
  "('vb, 'vs) VMBase \<Rightarrow> ('vb, 'vs) VMControlInterface \<Rightarrow> ('vb, 'vs) VMControlInterface result" where
  "run_commit vm ci =
     (case highest_committed_id ci of
        None \<Rightarrow> Inr ci
      | Some vid \<Rightarrow>
          bindE (vm_log_commitment vm vid (vm_instance ci)) (\<lambda>s.
          Inr (ci\<lparr>vm_instance := s, highest_committed_id := None\<rparr>)))"

definition run_propose ::
  "('vb, 'vs) VMBase \<Rightarrow> ('vb, 'vs) VMControlInterface \<Rightarrow> ('vb, 'vs) VMControlInterface result" where
  "run_propose vm ci =
     (if additional_proposal_requests ci > 0 then
        if \<not> is_proposer ci then Inl (RuntimeError ''vm thread woke up early'')
        else let (b, s) = propose vm (vm_instance ci) in
             Inr (ci\<lparr>vm_instance := s, proposal_buffer := proposal_buffer ci @ [b],
                     additional_proposal_requests := additional_proposal_requests ci - 1\<rparr>)
      else Inr ci)"

definition run_step ::
  "('vb, 'vs) VMBase \<Rightarrow> ('vb, 'vs) VMControlInterface \<Rightarrow> ('vb, 'vs) VMControlInterface result" where
  "run_step vm ci = bindE (run_commit vm (run_validate vm ci)) (run_propose vm)"

text \<open>\<open>n\<close> iterations of the thread; it sleeps when there is nothing to do or after shutdown.\<close>

fun run_steps ::
  "('vb, 'vs) VMBase \<Rightarrow> nat \<Rightarrow> ('vb, 'vs) VMControlInterface \<Rightarrow> ('vb, 'vs) VMControlInterface result"
  where
  "run_steps vm 0 ci = Inr ci"
| "run_steps vm (Suc n) ci =
     (if done_flag ci \<or> \<not> vmci_exists_work_to_do ci then Inr ci
      else bindE (run_step vm ci) (run_steps vm n))"

text \<open>
  \<open>get_proposal\<close>. While it waits on the condition variable the worker thread runs: \<open>sched\<close> is the
  number of iterations the thread does before the waiting call gets the lock back, beyond the
  one that is needed to wake it up.
\<close>

definition get_proposal_wait ::
  "('vb, 'vs) VMBase \<Rightarrow> nat \<Rightarrow> ('vb, 'vs) VMControlInterface \<Rightarrow> ('vb, 'vs) VMControlInterface result"
  where
  "get_proposal_wait vm sched ci =
     (if proposal_buffer ci = [] then
        let ci = (if additional_proposal_requests ci < PROPOSAL_BUFFER_TARGET ci
                  then ci\<lparr>additional_proposal_requests := PROPOSAL_BUFFER_TARGET ci\<rparr> else ci)
        in if PROPOSAL_BUFFER_TARGET ci = 0 then Inr ci else run_steps vm (Suc sched) ci
      else Inr ci)"

definition get_proposal ::
  "('vb, 'vs) VMBase \<Rightarrow> nat \<Rightarrow> ('vb, 'vs) VMControlInterface \<Rightarrow>
   ('vb option \<times> ('vb, 'vs) VMControlInterface) result" where
  "get_proposal vm sched ci =
     (if \<not> is_proposer ci then Inr (None, ci)
      else if done_flag ci then Inr (None, ci)
      else bindE (get_proposal_wait vm sched ci) (\<lambda>ci.
        case proposal_buffer ci of
          [] \<Rightarrow> if PROPOSAL_BUFFER_TARGET ci = 0 then Inr (None, ci) else Inl Nonterminating
        | out # rest \<Rightarrow>
            Inr (out,
              (let ci = ci\<lparr>proposal_buffer := rest\<rparr> in
               if immediately_refill_proposal_buffer (vm_configs ci)
               then ci\<lparr>additional_proposal_requests :=
                         (if length rest > PROPOSAL_BUFFER_TARGET ci then 0
                          else PROPOSAL_BUFFER_TARGET ci - length rest)\<rparr>
               else ci))))"

text \<open>
  \<open>wait_for_async_task\<close> belongs to the external \<open>utils::AsyncWorker\<close> and is the parameter \<open>await\<close> of
  the methods that call it. It is documented to block until the worker has no work left;
  \<open>async_worker_laws\<close> says that it returns a state the worker's own iterations lead to, in which
  there is nothing to do.
\<close>

type_synonym ('vb, 'vs) await =
  "('vb, 'vs) VMControlInterface \<Rightarrow> ('vb, 'vs) VMControlInterface result"

definition async_worker_laws ::
  "('vb, 'vs) VMBase \<Rightarrow> ('vb, 'vs) await \<Rightarrow> bool" where
  "async_worker_laws vm await \<longleftrightarrow>
     (\<forall>ci. (\<exists>n. await ci = run_steps vm n ci) \<and>
           (\<forall>ci'. await ci = Inr ci' \<longrightarrow> done_flag ci' \<or> \<not> vmci_exists_work_to_do ci'))"

definition submit_block_for_exec ::
  "('vb, 'vs) await \<Rightarrow> 'vb option \<Rightarrow> ('vb, 'vs) VMControlInterface \<Rightarrow>
   ('vb, 'vs) VMControlInterface result" where
  "submit_block_for_exec await submission ci =
     bindE (await ci) (\<lambda>ci.
     let ci = clear_proposal_settings ci in
     Inr (ci\<lparr>blocks_to_validate := blocks_to_validate ci @ [submission]\<rparr>))"

definition log_commitment ::
  "('vb, 'vs) await \<Rightarrow> VMBlockID \<Rightarrow> ('vb, 'vs) VMControlInterface \<Rightarrow>
   ('vb, 'vs) VMControlInterface result" where
  "log_commitment await block_id ci =
     bindE (await ci) (\<lambda>ci.
     Inr (if VMBlockID_bool block_id then ci\<lparr>highest_committed_id := Some block_id\<rparr> else ci))"

definition finish_work_and_force_rewind ::
  "('vb, 'vs) VMBase \<Rightarrow> ('vb, 'vs) await \<Rightarrow> ('vb, 'vs) VMControlInterface \<Rightarrow>
   ('vb, 'vs) VMControlInterface result" where
  "finish_work_and_force_rewind vm await ci =
     bindE (await ci) (\<lambda>ci.
     Inr (ci\<lparr>vm_instance := rewind_to_last_commit vm (vm_instance ci)\<rparr>))"

definition vmci_init_clean ::
  "('vb, 'vs) VMBase \<Rightarrow> ('vb, 'vs) VMControlInterface \<Rightarrow> ('vb, 'vs) VMControlInterface" where
  "vmci_init_clean vm ci = ci\<lparr>vm_instance := vm_init_clean vm (vm_instance ci)\<rparr>"

definition vmci_init_from_disk ::
  "('vb, 'vs) VMBase \<Rightarrow> LogAccessWrapper \<Rightarrow> ('vb, 'vs) VMControlInterface \<Rightarrow>
   ('vb, 'vs) VMControlInterface result" where
  "vmci_init_from_disk vm log ci =
     bindE (vm_init_from_disk vm log (vm_instance ci)) (\<lambda>s. Inr (ci\<lparr>vm_instance := s\<rparr>))"

definition vmci_proposal_buffer_is_empty :: "('vb, 'vs) VMControlInterface \<Rightarrow> bool" where
  "vmci_proposal_buffer_is_empty ci \<longleftrightarrow>
     proposal_buffer ci = [] \<and> PROPOSAL_BUFFER_TARGET ci = 0 \<and> additional_proposal_requests ci = 0"

definition vmci_stop_proposals ::
  "('vb, 'vs) VMControlInterface \<Rightarrow> ('vb, 'vs) VMControlInterface" where
  "vmci_stop_proposals ci = ci\<lparr>PROPOSAL_BUFFER_TARGET := 0\<rparr>"

end
