(* ===== verification/VMBridge.thy ===== *)
theory VMBridge
  imports VMControl
begin

text \<open>
  The two bridges between consensus and the virtual machine: \<open>HotstuffVMBridge\<close>
  (\<^verbatim>\<open>src/hotstuff/vm/hotstuff_vm_bridge.cc\<close>), which tracks speculative execution, and
  \<open>NonspeculativeVMBridge\<close> (\<^verbatim>\<open>nonspeculative_vm_bridge.cc\<close>), which executes decided blocks only.
\<close>

section \<open>HotstuffVMBridge\<close>

record ('vb, 'vs) HotstuffVMBridge =
  speculation_map :: "VMBlockID SpeculativeExecGadget"
  vm_interface :: "('vb, 'vs) VMControlInterface"
  initialized :: bool

definition new_HotstuffVMBridge :: "'vs \<Rightarrow> HotstuffConfigs \<Rightarrow> ('vb, 'vs) HotstuffVMBridge" where
  "new_HotstuffVMBridge vm cfgs =
     \<lparr>speculation_map = new_SpeculativeExecGadget, vm_interface = new_VMControlInterface vm cfgs,
      initialized = False\<rparr>"

definition revert_to_last_commitment ::
  "('vb, 'vs) HotstuffVMBridge \<Rightarrow> ('vb, 'vs) HotstuffVMBridge result" where
  "revert_to_last_commitment br =
     bindE (gadget_clear (speculation_map br)) (\<lambda>g. Inr (br\<lparr>speculation_map := g\<rparr>))"

definition get_block_id :: "('vb, 'vs) VMBase \<Rightarrow> 'vb option \<Rightarrow> VMBlockID" where
  "get_block_id vm blk =
     (case blk of None \<Rightarrow> empty_block_id | Some b \<Rightarrow> nonempty_block_id vm b)"

definition init_guard :: "bool \<Rightarrow> unit result" where
  "init_guard ini = (if \<not> ini then Inl (RuntimeError ''uninitialized vm!'') else Inr ())"

definition bridge_init_clean ::
  "('vb, 'vs) VMBase \<Rightarrow> ('vb, 'vs) HotstuffVMBridge \<Rightarrow> ('vb, 'vs) HotstuffVMBridge" where
  "bridge_init_clean vm br =
     br\<lparr>vm_interface := vmci_init_clean vm (vm_interface br), initialized := True\<rparr>"

definition bridge_init_from_disk ::
  "('vb, 'vs) VMBase \<Rightarrow> LogAccessWrapper \<Rightarrow> uint64 \<Rightarrow> ('vb, 'vs) HotstuffVMBridge \<Rightarrow>
   ('vb, 'vs) HotstuffVMBridge result" where
  "bridge_init_from_disk vm decided_block_index decided_hotstuff_height br =
     bindE (vmci_init_from_disk vm decided_block_index (vm_interface br)) (\<lambda>ci.
     bindE (gadget_init_from_disk decided_hotstuff_height (speculation_map br)) (\<lambda>g.
     Inr (br\<lparr>vm_interface := ci, speculation_map := g, initialized := True\<rparr>)))"

definition make_empty_proposal ::
  "uint64 \<Rightarrow> ('vb, 'vs) HotstuffVMBridge \<Rightarrow> (bytes \<times> ('vb, 'vs) HotstuffVMBridge) result" where
  "make_empty_proposal proposal_height br =
     bindE (init_guard (initialized br)) (\<lambda>_.
     bindE (gadget_lock (speculation_map br)) (\<lambda>g.
     bindE (add_height_pair proposal_height empty_block_id g) (\<lambda>g.
     Inr ([], br\<lparr>speculation_map := gadget_unlock g\<rparr>))))"

definition get_and_apply_next_proposal ::
  "('vb, 'vs) VMBase \<Rightarrow> nat \<Rightarrow> uint64 \<Rightarrow> ('vb, 'vs) HotstuffVMBridge \<Rightarrow>
   (bytes \<times> ('vb, 'vs) HotstuffVMBridge) result" where
  "get_and_apply_next_proposal vm sched proposal_height br =
     bindE (init_guard (initialized br)) (\<lambda>_.
     bindE (gadget_lock (speculation_map br)) (\<lambda>g.
     bindE (get_proposal vm sched (vm_interface br)) (\<lambda>(proposal, ci).
       case proposal of
         None \<Rightarrow>
           bindE (add_height_pair proposal_height empty_block_id g) (\<lambda>g.
           Inr ([], br\<lparr>speculation_map := gadget_unlock g, vm_interface := ci\<rparr>))
       | Some p \<Rightarrow>
           bindE (add_height_pair proposal_height (nonempty_block_id vm p) g) (\<lambda>g.
           Inr (vm_serialize vm p,
                br\<lparr>speculation_map := gadget_unlock g, vm_interface := ci\<rparr>)))))"

text \<open>
  \<open>apply_block\<close>. The mutex of the gadget is held from the second line to every return, so the
  path that reverts the speculation calls \<open>clear\<close> with the mutex held.
\<close>

definition bridge_apply_block ::
  "('bv, 'db, 'tx) env \<Rightarrow> ('vb, 'vs) VMBase \<Rightarrow> ('vb, 'vs) await \<Rightarrow> HotstuffBlock \<Rightarrow> 'tx \<Rightarrow>
   ('vb, 'vs) HotstuffVMBridge \<Rightarrow> ('tx \<times> ('vb, 'vs) HotstuffVMBridge) result" where
  "bridge_apply_block env vm await blk txn br =
     bindE (init_guard (initialized br)) (\<lambda>_.
     bindE (gadget_lock (speculation_map br)) (\<lambda>g.
       let br = br\<lparr>speculation_map := g\<rparr>;
           blk_value = try_parse vm (get_wire_body blk);
           blk_id = get_block_id vm blk_value;
           txn = add_decided_block env blk blk_id txn;
           exec = (\<lambda>br.
             bindE (add_height_pair (block_height blk) blk_id (speculation_map br)) (\<lambda>g.
             bindE (submit_block_for_exec await blk_value (vm_interface br)) (\<lambda>ci.
             Inr (txn, br\<lparr>speculation_map := gadget_unlock g, vm_interface := ci\<rparr>))))
       in
       if gadget_empty g then exec br
       else
         bindE (get_lowest_speculative_hotstuff_height g) (\<lambda>(_, speculative_block_id).
           if blk_id = speculative_block_id
           then Inr (txn, br\<lparr>speculation_map := gadget_unlock g\<rparr>)
           else
             bindE (revert_to_last_commitment br) (\<lambda>br.
             bindE (finish_work_and_force_rewind vm await (vm_interface br)) (\<lambda>ci.
             exec (br\<lparr>vm_interface := ci\<rparr>))))))"

definition bridge_notify_vm_of_commitment ::
  "('vb, 'vs) await \<Rightarrow> HotstuffBlock \<Rightarrow> ('vb, 'vs) HotstuffVMBridge \<Rightarrow>
   ('vb, 'vs) HotstuffVMBridge result" where
  "bridge_notify_vm_of_commitment await blk br =
     bindE (init_guard (initialized br)) (\<lambda>_.
     bindE (on_commit_hotstuff (block_height blk) (speculation_map br))
       (\<lambda>(committed_block_id, g).
     bindE (log_commitment await committed_block_id (vm_interface br)) (\<lambda>ci.
     Inr (br\<lparr>speculation_map := g, vm_interface := ci\<rparr>))))"

definition put_vm_in_proposer_mode ::
  "('vb, 'vs) HotstuffVMBridge \<Rightarrow> ('vb, 'vs) HotstuffVMBridge result" where
  "put_vm_in_proposer_mode br =
     bindE (init_guard (initialized br)) (\<lambda>_.
     Inr (br\<lparr>vm_interface := set_proposer (vm_interface br)\<rparr>))"

definition bridge_proposal_buffer_is_empty :: "('vb, 'vs) HotstuffVMBridge \<Rightarrow> bool" where
  "bridge_proposal_buffer_is_empty br \<longleftrightarrow> vmci_proposal_buffer_is_empty (vm_interface br)"

definition bridge_stop_proposals ::
  "('vb, 'vs) HotstuffVMBridge \<Rightarrow> ('vb, 'vs) HotstuffVMBridge" where
  "bridge_stop_proposals br = br\<lparr>vm_interface := vmci_stop_proposals (vm_interface br)\<rparr>"

section \<open>NonspeculativeVMBridge\<close>

record 'vs NonspeculativeVMBridge =
  ns_vm :: 'vs
  ns_initialized :: bool
  ns_proposal_buffer :: "bytes list"

definition new_NonspeculativeVMBridge :: "'vs \<Rightarrow> 'vs NonspeculativeVMBridge" where
  "new_NonspeculativeVMBridge vm =
     \<lparr>ns_vm = vm, ns_initialized = False, ns_proposal_buffer = []\<rparr>"

definition ns_init_clean ::
  "('vb, 'vs) VMBase \<Rightarrow> 'vs NonspeculativeVMBridge \<Rightarrow> 'vs NonspeculativeVMBridge" where
  "ns_init_clean vm br = br\<lparr>ns_vm := vm_init_clean vm (ns_vm br), ns_initialized := True\<rparr>"

definition ns_init_from_disk ::
  "('vb, 'vs) VMBase \<Rightarrow> LogAccessWrapper \<Rightarrow> 'vs NonspeculativeVMBridge \<Rightarrow>
   'vs NonspeculativeVMBridge result" where
  "ns_init_from_disk vm decided_block_index br =
     bindE (vm_init_from_disk vm decided_block_index (ns_vm br)) (\<lambda>s.
     Inr (br\<lparr>ns_vm := s, ns_initialized := True\<rparr>))"

definition ns_make_empty_proposal ::
  "uint64 \<Rightarrow> 'vs NonspeculativeVMBridge \<Rightarrow> (bytes \<times> 'vs NonspeculativeVMBridge) result" where
  "ns_make_empty_proposal proposal_height br =
     bindE (init_guard (ns_initialized br)) (\<lambda>_. Inr ([], br))"

definition ns_get_next_proposal ::
  "uint64 \<Rightarrow> 'vs NonspeculativeVMBridge \<Rightarrow> (bytes \<times> 'vs NonspeculativeVMBridge) result" where
  "ns_get_next_proposal proposal_height br =
     bindE (init_guard (ns_initialized br)) (\<lambda>_.
       if length (ns_proposal_buffer br) = 0 then Inr ([], br)
       else Inr (last (ns_proposal_buffer br),
                 br\<lparr>ns_proposal_buffer := butlast (ns_proposal_buffer br)\<rparr>))"

text \<open>\<open>exec_block(*blk_value)\<close> dereferences the pointer that \<open>try_parse\<close> returned.\<close>

definition ns_apply_block ::
  "('bv, 'db, 'tx) env \<Rightarrow> ('vb, 'vs) VMBase \<Rightarrow> HotstuffBlock \<Rightarrow> 'tx \<Rightarrow>
   'vs NonspeculativeVMBridge \<Rightarrow> ('tx \<times> 'vs NonspeculativeVMBridge) result" where
  "ns_apply_block env vm blk txn br =
     bindE (init_guard (ns_initialized br)) (\<lambda>_.
       let blk_value = try_parse vm (get_wire_body blk);
           blk_id = get_block_id vm blk_value;
           txn = add_decided_block env blk blk_id txn
       in
       bindE (of_option NullDeref blk_value) (\<lambda>b.
       Inr (txn, br\<lparr>ns_vm := exec_block vm b (ns_vm br)\<rparr>)))"

definition ns_notify_vm_of_commitment ::
  "HotstuffBlock \<Rightarrow> 'vs NonspeculativeVMBridge \<Rightarrow> 'vs NonspeculativeVMBridge result" where
  "ns_notify_vm_of_commitment blk br = Inr br"

definition ns_proposal_buffer_is_empty :: "'vs NonspeculativeVMBridge \<Rightarrow> bool" where
  "ns_proposal_buffer_is_empty br \<longleftrightarrow> length (ns_proposal_buffer br) = 0"

definition ns_add_proposal ::
  "bytes \<Rightarrow> 'vs NonspeculativeVMBridge \<Rightarrow> 'vs NonspeculativeVMBridge" where
  "ns_add_proposal proposal br = br\<lparr>ns_proposal_buffer := proposal # ns_proposal_buffer br\<rparr>"

end
