(* ===== verification/App.thy ===== *)
theory App
  imports AppBase VMBridge
begin

text \<open>
  The two applications (\<^verbatim>\<open>src/hotstuff/hotstuff.h\<close>): \<open>HotstuffApp\<close> drives the virtual machine
  through the speculative bridge, \<open>NonspeculativeHotstuffApp\<close> through the other one. Each fills
  the table of virtual methods.
\<close>

section \<open>HotstuffApp\<close>

record ('db, 'vb, 'vs) HotstuffApp = "'db HotstuffAppBase" +
  vm_bridge :: "('vb, 'vs) HotstuffVMBridge"

definition new_HotstuffApp ::
  "('bv, 'db, 'tx) env \<Rightarrow> ReplicaConfig \<Rightarrow> ReplicaID \<Rightarrow> SecretKey \<Rightarrow> 'vs \<Rightarrow> HotstuffConfigs \<Rightarrow>
   'db \<Rightarrow> disk \<Rightarrow> ('db, 'vb, 'vs) HotstuffApp result" where
  "new_HotstuffApp env cfg rid sk vm cfgs db d =
     bindE (new_HotstuffAppBase env cfg rid sk db d) (\<lambda>base.
     Inr (HotstuffAppBase.extend base (HotstuffApp.fields (new_HotstuffVMBridge vm cfgs))))"

definition app_get_next_vm_block ::
  "('vb, 'vs) VMBase \<Rightarrow> nat \<Rightarrow> bool \<Rightarrow> uint64 \<Rightarrow> ('db, 'vb, 'vs) HotstuffApp \<Rightarrow>
   (bytes \<times> ('db, 'vb, 'vs) HotstuffApp) result" where
  "app_get_next_vm_block vm sched nonempty_proposal hotstuff_height st =
     bindE (if \<not> nonempty_proposal then make_empty_proposal hotstuff_height (vm_bridge st)
            else get_and_apply_next_proposal vm sched hotstuff_height (vm_bridge st))
       (\<lambda>(bs, br). Inr (bs, st\<lparr>vm_bridge := br\<rparr>))"

definition app_apply_block ::
  "('bv, 'db, 'tx) env \<Rightarrow> ('vb, 'vs) VMBase \<Rightarrow> ('vb, 'vs) await \<Rightarrow> block_addr \<Rightarrow> 'tx \<Rightarrow>
   ('db, 'vb, 'vs) HotstuffApp \<Rightarrow> ('tx \<times> ('db, 'vb, 'vs) HotstuffApp) result" where
  "app_apply_block env vm await blk txn st =
     bindE (deref (heap st) blk) (\<lambda>b.
     bindE (bridge_apply_block env vm await b txn (vm_bridge st)) (\<lambda>(txn, br).
     Inr (txn, st\<lparr>vm_bridge := br\<rparr>)))"

definition app_notify_vm_of_commitment ::
  "('vb, 'vs) await \<Rightarrow> block_addr \<Rightarrow> ('db, 'vb, 'vs) HotstuffApp \<Rightarrow>
   ('db, 'vb, 'vs) HotstuffApp result" where
  "app_notify_vm_of_commitment await blk st =
     bindE (deref (heap st) blk) (\<lambda>b.
     bindE (bridge_notify_vm_of_commitment await b (vm_bridge st)) (\<lambda>br.
     Inr (st\<lparr>vm_bridge := br\<rparr>)))"

definition app_virtuals ::
  "('bv, 'db, 'tx) env \<Rightarrow> ('vb, 'vs) VMBase \<Rightarrow> ('vb, 'vs) await \<Rightarrow>
   ('tx, ('db, 'vb, 'vs) HotstuffApp) core_virtuals" where
  "app_virtuals env vm await =
     \<lparr>find_block_by_hash = base_find_block_by_hash,
      do_vote = base_do_vote env,
      on_new_qc = base_on_new_qc,
      apply_block = app_apply_block env vm await,
      notify_vm_of_commitment = app_notify_vm_of_commitment await,
      notify_vm_of_qc_on_nonself_block = (\<lambda>b_other st. Inr st),
      notify_ok_to_prune_blocks = base_notify_ok_to_prune_blocks\<rparr>"

definition app_init_clean ::
  "('bv, 'db, 'tx) env \<Rightarrow> ('vb, 'vs) VMBase \<Rightarrow> ('db, 'vb, 'vs) HotstuffApp \<Rightarrow>
   ('db, 'vb, 'vs) HotstuffApp" where
  "app_init_clean env vm st =
     st\<lparr>decided_hash_index := create_db env (decided_hash_index st),
        vm_bridge := bridge_init_clean vm (vm_bridge st)\<rparr>"

definition app_init_from_disk ::
  "('bv, 'db, 'tx) env \<Rightarrow> ('vb, 'vs) VMBase \<Rightarrow> ('vb, 'vs) await \<Rightarrow> ('db, 'vb, 'vs) HotstuffApp \<Rightarrow>
   ('db, 'vb, 'vs) HotstuffApp result" where
  "app_init_from_disk env vm await st =
     (let st = st\<lparr>decided_hash_index := open_db env (decided_hash_index st)\<rparr> in
      bindE (reload_decided_blocks (app_virtuals env vm await) env st)
        (\<lambda>(highest_decision_height, st).
      bindE (get_info (config st) (self_id st)) (\<lambda>info.
      bindE (bridge_init_from_disk vm
               (new_LogAccessWrapper env info (files st) (decided_hash_index st))
               highest_decision_height (vm_bridge st)) (\<lambda>br.
      Inr (st\<lparr>vm_bridge := br\<rparr>)))))"

definition app_put_vm_in_proposer_mode ::
  "('db, 'vb, 'vs) HotstuffApp \<Rightarrow> ('db, 'vb, 'vs) HotstuffApp result" where
  "app_put_vm_in_proposer_mode st =
     bindE (put_vm_in_proposer_mode (vm_bridge st)) (\<lambda>br. Inr (st\<lparr>vm_bridge := br\<rparr>))"

definition app_proposal_buffer_is_empty :: "('db, 'vb, 'vs) HotstuffApp \<Rightarrow> bool" where
  "app_proposal_buffer_is_empty st \<longleftrightarrow> bridge_proposal_buffer_is_empty (vm_bridge st)"

definition app_stop_proposals :: "('db, 'vb, 'vs) HotstuffApp \<Rightarrow> ('db, 'vb, 'vs) HotstuffApp" where
  "app_stop_proposals st = st\<lparr>vm_bridge := bridge_stop_proposals (vm_bridge st)\<rparr>"

definition app_do_propose ::
  "('bv, 'db, 'tx) env \<Rightarrow> ('vb, 'vs) VMBase \<Rightarrow> nat \<Rightarrow> ('db, 'vb, 'vs) HotstuffApp \<Rightarrow>
   (Hash \<times> ('db, 'vb, 'vs) HotstuffApp) result" where
  "app_do_propose env vm sched = do_propose (app_get_next_vm_block vm sched) env"

definition app_do_empty_propose ::
  "('bv, 'db, 'tx) env \<Rightarrow> ('vb, 'vs) VMBase \<Rightarrow> ('db, 'vb, 'vs) HotstuffApp \<Rightarrow>
   (Hash \<times> ('db, 'vb, 'vs) HotstuffApp) result" where
  "app_do_empty_propose env vm = do_empty_propose (app_get_next_vm_block vm 0) env"

section \<open>NonspeculativeHotstuffApp\<close>

record ('db, 'vs) NonspeculativeHotstuffApp = "'db HotstuffAppBase" +
  ns_vm_bridge :: "'vs NonspeculativeVMBridge"

definition new_NonspeculativeHotstuffApp ::
  "('bv, 'db, 'tx) env \<Rightarrow> ReplicaConfig \<Rightarrow> ReplicaID \<Rightarrow> SecretKey \<Rightarrow> 'vs \<Rightarrow>
   'db \<Rightarrow> disk \<Rightarrow> ('db, 'vs) NonspeculativeHotstuffApp result" where
  "new_NonspeculativeHotstuffApp env cfg rid sk vm db d =
     bindE (new_HotstuffAppBase env cfg rid sk db d) (\<lambda>base.
     Inr (HotstuffAppBase.extend base
       (NonspeculativeHotstuffApp.fields (new_NonspeculativeVMBridge vm))))"

definition ns_get_next_vm_block ::
  "bool \<Rightarrow> uint64 \<Rightarrow> ('db, 'vs) NonspeculativeHotstuffApp \<Rightarrow>
   (bytes \<times> ('db, 'vs) NonspeculativeHotstuffApp) result" where
  "ns_get_next_vm_block nonempty_proposal hotstuff_height st =
     bindE (if \<not> nonempty_proposal then ns_make_empty_proposal hotstuff_height (ns_vm_bridge st)
            else ns_get_next_proposal hotstuff_height (ns_vm_bridge st))
       (\<lambda>(bs, br). Inr (bs, st\<lparr>ns_vm_bridge := br\<rparr>))"

definition ns_app_apply_block ::
  "('bv, 'db, 'tx) env \<Rightarrow> ('vb, 'vs) VMBase \<Rightarrow> block_addr \<Rightarrow> 'tx \<Rightarrow>
   ('db, 'vs) NonspeculativeHotstuffApp \<Rightarrow> ('tx \<times> ('db, 'vs) NonspeculativeHotstuffApp) result" where
  "ns_app_apply_block env vm blk txn st =
     bindE (deref (heap st) blk) (\<lambda>b.
     bindE (ns_apply_block env vm b txn (ns_vm_bridge st)) (\<lambda>(txn, br).
     Inr (txn, st\<lparr>ns_vm_bridge := br\<rparr>)))"

definition ns_app_notify_vm_of_commitment ::
  "block_addr \<Rightarrow> ('db, 'vs) NonspeculativeHotstuffApp \<Rightarrow> ('db, 'vs) NonspeculativeHotstuffApp result"
  where
  "ns_app_notify_vm_of_commitment blk st =
     bindE (deref (heap st) blk) (\<lambda>b.
     bindE (ns_notify_vm_of_commitment b (ns_vm_bridge st)) (\<lambda>br.
     Inr (st\<lparr>ns_vm_bridge := br\<rparr>)))"

definition ns_virtuals ::
  "('bv, 'db, 'tx) env \<Rightarrow> ('vb, 'vs) VMBase \<Rightarrow>
   ('tx, ('db, 'vs) NonspeculativeHotstuffApp) core_virtuals" where
  "ns_virtuals env vm =
     \<lparr>find_block_by_hash = base_find_block_by_hash,
      do_vote = base_do_vote env,
      on_new_qc = base_on_new_qc,
      apply_block = ns_app_apply_block env vm,
      notify_vm_of_commitment = ns_app_notify_vm_of_commitment,
      notify_vm_of_qc_on_nonself_block = (\<lambda>b_other st. Inr st),
      notify_ok_to_prune_blocks = base_notify_ok_to_prune_blocks\<rparr>"

definition ns_app_init_clean ::
  "('bv, 'db, 'tx) env \<Rightarrow> ('vb, 'vs) VMBase \<Rightarrow> ('db, 'vs) NonspeculativeHotstuffApp \<Rightarrow>
   ('db, 'vs) NonspeculativeHotstuffApp" where
  "ns_app_init_clean env vm st =
     st\<lparr>decided_hash_index := create_db env (decided_hash_index st),
        ns_vm_bridge := ns_init_clean vm (ns_vm_bridge st)\<rparr>"

definition ns_app_init_from_disk ::
  "('bv, 'db, 'tx) env \<Rightarrow> ('vb, 'vs) VMBase \<Rightarrow> ('db, 'vs) NonspeculativeHotstuffApp \<Rightarrow>
   ('db, 'vs) NonspeculativeHotstuffApp result" where
  "ns_app_init_from_disk env vm st =
     (let st = st\<lparr>decided_hash_index := open_db env (decided_hash_index st)\<rparr> in
      bindE (reload_decided_blocks (ns_virtuals env vm) env st) (\<lambda>(_, st).
      bindE (get_info (config st) (self_id st)) (\<lambda>info.
      bindE (ns_init_from_disk vm
               (new_LogAccessWrapper env info (files st) (decided_hash_index st))
               (ns_vm_bridge st)) (\<lambda>br.
      Inr (st\<lparr>ns_vm_bridge := br\<rparr>)))))"

definition ns_app_add_proposal ::
  "bytes \<Rightarrow> ('db, 'vs) NonspeculativeHotstuffApp \<Rightarrow> ('db, 'vs) NonspeculativeHotstuffApp" where
  "ns_app_add_proposal proposal st =
     st\<lparr>ns_vm_bridge := ns_add_proposal proposal (ns_vm_bridge st)\<rparr>"

definition ns_app_do_propose ::
  "('bv, 'db, 'tx) env \<Rightarrow> ('db, 'vs) NonspeculativeHotstuffApp \<Rightarrow>
   (Hash \<times> ('db, 'vs) NonspeculativeHotstuffApp) result" where
  "ns_app_do_propose env = do_propose ns_get_next_vm_block env"

end
