(* ===== verification/Chain.thy ===== *)
theory Chain
  imports BlockStorage
begin

text \<open>
  The block tree inside the heap of one replica: well-formed parent and justify pointers, the
  ancestor relation, and how the operations on blocks and on the block store change them. The
  facts of this theory carry the proofs about the consensus core.
\<close>

section \<open>The tree\<close>

text \<open>The part of a block that determines its place in the tree.\<close>

definition links ::
  "HotstuffBlock \<Rightarrow> HotstuffBlockHeader \<times> QuorumCertificate option \<times> Hash \<times> ReplicaID \<times>
     block_ptr_t \<times> block_ptr_t \<times> uint64" where
  "links b = (header (wire_block b), parsed_qc b, get_hash b, proposer b, parent_block_ptr b,
     justify_block_ptr b, block_height b)"

definition same_links :: "block_heap \<Rightarrow> block_heap \<Rightarrow> bool" where
  "same_links h h' \<longleftrightarrow> map links h' = map links h"

text \<open>
  The blocks of the tree: the linked ones and the genesis block, the only one without a
  certificate.
\<close>

definition rooted :: "block_heap \<Rightarrow> block_addr \<Rightarrow> bool" where
  "rooted h a \<longleftrightarrow> a < length h \<and> (parent_block_ptr (h ! a) = None \<longrightarrow> parsed_qc (h ! a) = None)"

text \<open>
  A block is linked, with both pointers set, or unlinked with height 0. The height of a linked
  block is one more than its parent's, without wrap-around, and its pointers lead to the blocks
  of the tree its header names.
\<close>

definition heap_wf :: "block_heap \<Rightarrow> bool" where
  "heap_wf h \<longleftrightarrow>
     (\<forall>a < length h.
        (parent_block_ptr (h ! a) = None \<longleftrightarrow> justify_block_ptr (h ! a) = None) \<and>
        (parent_block_ptr (h ! a) = None \<longrightarrow> block_height (h ! a) = 0) \<and>
        (\<forall>p. parent_block_ptr (h ! a) = Some p \<longrightarrow>
           rooted h p \<and> get_hash (h ! p) = get_parent_hash (h ! a) \<and>
           unat (block_height (h ! a)) = Suc (unat (block_height (h ! p)))) \<and>
        (\<forall>j. justify_block_ptr (h ! a) = Some j \<longrightarrow>
           rooted h j \<and> get_justify_hash (h ! a) = Inr (get_hash (h ! j))))"

inductive extends :: "block_heap \<Rightarrow> block_addr \<Rightarrow> block_addr \<Rightarrow> bool" for h where
  extends_refl: "a < length h \<Longrightarrow> extends h a a"
| extends_parent: "a < length h \<Longrightarrow> parent_block_ptr (h ! a) = Some p \<Longrightarrow> extends h p b \<Longrightarrow>
    extends h a b"

inductive_cases extendsE: "extends h a b"

text \<open>\<open>vs\<close> is the path from the child of \<open>b\<close> up to \<open>a\<close>, lowest block first.\<close>

fun linked_from :: "block_heap \<Rightarrow> block_addr \<Rightarrow> block_addr list \<Rightarrow> block_addr \<Rightarrow> bool" where
  "linked_from h b [] a \<longleftrightarrow> a = b"
| "linked_from h b (v # vs) a \<longleftrightarrow>
     v < length h \<and> parent_block_ptr (h ! v) = Some b \<and> linked_from h v vs a"

lemma heap_wfD:
  assumes "heap_wf h" "a < length h"
  shows "parent_block_ptr (h ! a) = None \<longleftrightarrow> justify_block_ptr (h ! a) = None"
    and "parent_block_ptr (h ! a) = None \<Longrightarrow> block_height (h ! a) = 0"
    and "parent_block_ptr (h ! a) = Some p \<Longrightarrow> p < length h"
    and "parent_block_ptr (h ! a) = Some p \<Longrightarrow> get_hash (h ! p) = get_parent_hash (h ! a)"
    and "parent_block_ptr (h ! a) = Some p \<Longrightarrow>
           unat (block_height (h ! a)) = Suc (unat (block_height (h ! p)))"
    and "justify_block_ptr (h ! a) = Some j \<Longrightarrow> j < length h"
    and "justify_block_ptr (h ! a) = Some j \<Longrightarrow>
           get_justify_hash (h ! a) = Inr (get_hash (h ! j))"
    and "parent_block_ptr (h ! a) = Some p \<Longrightarrow> rooted h p"
    and "justify_block_ptr (h ! a) = Some j \<Longrightarrow> rooted h j"
  using assms unfolding heap_wf_def rooted_def by blast+

lemma rooted_addr: "rooted h a \<Longrightarrow> a < length h"
  by (simp add: rooted_def)

lemma parent_lower:
  assumes "heap_wf h" "a < length h" "parent_block_ptr (h ! a) = Some p"
  shows "block_height (h ! p) < block_height (h ! a)"
  using heap_wfD(5) [OF assms] by (simp add: word_less_nat_alt)

section \<open>Ancestors\<close>

lemma extends_addr: "extends h a b \<Longrightarrow> a < length h \<and> b < length h"
  by (induction rule: extends.induct) simp_all

lemma extends_trans: "extends h a b \<Longrightarrow> extends h b c \<Longrightarrow> extends h a c"
  by (induction rule: extends.induct) (auto intro: extends.intros)

lemma extends_height: "extends h a b \<Longrightarrow> heap_wf h \<Longrightarrow> block_height (h ! b) \<le> block_height (h ! a)"
proof (induction rule: extends.induct)
  case (extends_refl a)
  then show ?case by simp
next
  case (extends_parent a p b)
  then show ?case using parent_lower [of h a p] by simp
qed

lemma extends_height_eq:
  assumes "extends h a b" "heap_wf h" "block_height (h ! a) = block_height (h ! b)"
  shows "a = b"
  using assms
proof (cases rule: extends.cases)
  case (extends_parent p)
  then have "block_height (h ! b) \<le> block_height (h ! p)" "block_height (h ! p) < block_height (h ! a)"
    using extends_height parent_lower assms(2) by blast+
  then show ?thesis using assms(3) by simp
qed simp

text \<open>Two ancestors of a block are ancestors of each other.\<close>

lemma extends_comparable:
  "extends h a b \<Longrightarrow> extends h a c \<Longrightarrow> extends h b c \<or> extends h c b"
proof (induction arbitrary: c rule: extends.induct)
  case (extends_refl a)
  then show ?case by simp
next
  case (extends_parent a p b)
  from extends_parent.prems show ?case
  proof (cases rule: extends.cases)
    case extends_refl
    then show ?thesis
      using extends_parent.hyps extends.extends_parent by blast
  next
    case (extends_parent q)
    then show ?thesis
      using extends_parent.IH [of c] \<open>parent_block_ptr (h ! a) = Some p\<close> by simp
  qed
qed

lemma extends_unique:
  assumes "heap_wf h" "extends h a b" "extends h a c" "block_height (h ! b) = block_height (h ! c)"
  shows "b = c"
  using extends_comparable [OF assms(2,3)] extends_height_eq assms(1,4) by metis

lemma extends_lower:
  assumes "heap_wf h" "extends h a b" "extends h a c" "block_height (h ! c) \<le> block_height (h ! b)"
  shows "extends h b c"
  using extends_comparable [OF assms(2,3)] extends_height [of h c b] extends_height_eq [of h c b]
    assms(1,4) by (metis dual_order.antisym extends_refl extends_addr)

lemma linked_from_extends:
  "linked_from h b vs a \<Longrightarrow> b < length h \<Longrightarrow> extends h a b"
proof (induction vs arbitrary: b)
  case Nil
  then show ?case by (simp add: extends_refl)
next
  case (Cons v vs)
  then have "extends h a v" "extends h v b"
    by (auto intro: extends.intros)
  then show ?case by (rule extends_trans)
qed

lemma linked_from_append:
  "linked_from h b (vs @ ws) a \<longleftrightarrow> (\<exists>c. linked_from h b vs c \<and> linked_from h c ws a)"
  by (induction vs arbitrary: b) auto

lemma linked_from_snoc:
  "linked_from h b (vs @ [v]) a \<longleftrightarrow>
     v = a \<and> a < length h \<and> (\<exists>c. parent_block_ptr (h ! a) = Some c \<and> linked_from h b vs c)"
  by (auto simp: linked_from_append)

lemma linked_from_members:
  "linked_from h b vs a \<Longrightarrow> v \<in> set vs \<Longrightarrow> extends h a v \<and> v < length h"
proof (induction vs arbitrary: b)
  case (Cons w vs)
  then show ?case
    using linked_from_extends [of h w vs a] by auto
qed simp

section \<open>Insensitivity to the other fields\<close>

lemma same_links_length: "same_links h h' \<Longrightarrow> length h' = length h"
  unfolding same_links_def by (metis length_map)

lemma same_links_nth:
  assumes "same_links h h'" "a < length h"
  shows "header (wire_block (h' ! a)) = header (wire_block (h ! a))"
    and "parsed_qc (h' ! a) = parsed_qc (h ! a)" and "get_hash (h' ! a) = get_hash (h ! a)"
    and "proposer (h' ! a) = proposer (h ! a)"
    and "parent_block_ptr (h' ! a) = parent_block_ptr (h ! a)"
    and "justify_block_ptr (h' ! a) = justify_block_ptr (h ! a)"
    and "block_height (h' ! a) = block_height (h ! a)"
proof -
  have "links (h' ! a) = links (h ! a)"
    using assms same_links_length [OF assms(1)] unfolding same_links_def
    by (metis nth_map)
  then show "header (wire_block (h' ! a)) = header (wire_block (h ! a))"
    "parsed_qc (h' ! a) = parsed_qc (h ! a)" "get_hash (h' ! a) = get_hash (h ! a)"
    "proposer (h' ! a) = proposer (h ! a)"
    "parent_block_ptr (h' ! a) = parent_block_ptr (h ! a)"
    "justify_block_ptr (h' ! a) = justify_block_ptr (h ! a)"
    "block_height (h' ! a) = block_height (h ! a)"
    by (simp_all add: links_def)
qed

lemma same_links_justify_hash:
  "same_links h h' \<Longrightarrow> a < length h \<Longrightarrow> get_justify_hash (h' ! a) = get_justify_hash (h ! a)"
  by (simp add: get_justify_hash_def get_justify_qc_def same_links_nth)

lemma same_links_refl [simp, intro]: "same_links h h"
  by (simp add: same_links_def)

lemma same_links_sym: "same_links h h' \<Longrightarrow> same_links h' h"
  by (simp add: same_links_def)

lemma same_links_trans: "same_links h h' \<Longrightarrow> same_links h' h'' \<Longrightarrow> same_links h h''"
  by (simp add: same_links_def)

lemma same_links_upd:
  "a < length h \<Longrightarrow> links (f (h ! a)) = links (h ! a) \<Longrightarrow> same_links h (upd_block a f h)"
  by (auto simp: same_links_def upd_block_def map_update intro!: list_update_same_conv [THEN iffD2])

lemma same_links_upd_all: "(\<And>b. links (f b) = links b) \<Longrightarrow> same_links h (upd_all f S h)"
  by (auto simp: same_links_def nth_upd_all intro!: nth_equalityI)

lemma same_links_extends: "extends h a b \<Longrightarrow> same_links h h' \<Longrightarrow> extends h' a b"
proof (induction rule: extends.induct)
  case (extends_refl a)
  then show ?case by (simp add: extends.extends_refl same_links_length)
next
  case (extends_parent a p b)
  then show ?case by (metis extends.extends_parent same_links_length same_links_nth(5))
qed

lemma same_links_extends_iff: "same_links h h' \<Longrightarrow> extends h' a b \<longleftrightarrow> extends h a b"
  using same_links_extends same_links_sym by blast

lemma same_links_rooted: "same_links h h' \<Longrightarrow> rooted h' a \<longleftrightarrow> rooted h a"
  using same_links_length [of h h'] same_links_nth(2,5) [of h h' a] by (auto simp: rooted_def)

lemma same_links_wf:
  assumes "same_links h h'" "heap_wf h"
  shows "heap_wf h'"
  unfolding heap_wf_def
proof (intro allI impI conjI)
  fix a assume "a < length h'"
  then have a: "a < length h" using same_links_length [OF assms(1)] by simp
  note eq = same_links_nth [OF assms(1) a] same_links_justify_hash [OF assms(1) a]
  note len = same_links_length [OF assms(1)]
  note wf = heap_wfD [OF assms(2) a]
  show "parent_block_ptr (h' ! a) = None \<longleftrightarrow> justify_block_ptr (h' ! a) = None"
    using wf(1) by (simp add: eq)
  show "block_height (h' ! a) = 0" if "parent_block_ptr (h' ! a) = None"
    using wf(2) that by (simp add: eq)
  fix p assume "parent_block_ptr (h' ! a) = Some p"
  then have p: "parent_block_ptr (h ! a) = Some p" by (simp add: eq)
  note eqp = same_links_nth [OF assms(1) wf(3) [OF p]]
  show "rooted h' p" using wf(8) [OF p] same_links_rooted [OF assms(1)] by simp
  show "get_hash (h' ! p) = get_parent_hash (h' ! a)"
    using wf(4) [OF p] by (simp add: eq eqp get_parent_hash_def)
  show "unat (block_height (h' ! a)) = Suc (unat (block_height (h' ! p)))"
    using wf(5) [OF p] by (simp add: eq eqp)
next
  fix a j assume "a < length h'" and jp: "justify_block_ptr (h' ! a) = Some j"
  then have a: "a < length h" using same_links_length [OF assms(1)] by simp
  note eq = same_links_nth [OF assms(1) a] same_links_justify_hash [OF assms(1) a]
  note wf = heap_wfD [OF assms(2) a]
  have j: "justify_block_ptr (h ! a) = Some j" using jp by (simp add: eq)
  show "rooted h' j" using wf(9) [OF j] same_links_rooted [OF assms(1)] by simp
  show "get_justify_hash (h' ! a) = Inr (get_hash (h' ! j))"
    using wf(7) [OF j] same_links_nth(3) [OF assms(1) wf(6) [OF j]] by (simp add: eq)
qed

section \<open>Growing heaps\<close>

text \<open>
  What never changes about an object: the header, the certificate, the hash, the proposer, and,
  for the blocks of the tree, the pointers and the height.
\<close>

definition block_le :: "HotstuffBlock \<Rightarrow> HotstuffBlock \<Rightarrow> bool" where
  "block_le b b' \<longleftrightarrow>
     header (wire_block b') = header (wire_block b) \<and> parsed_qc b' = parsed_qc b \<and>
     get_hash b' = get_hash b \<and> proposer b' = proposer b \<and>
     (parent_block_ptr b \<noteq> None \<or> parsed_qc b = None \<longrightarrow>
        parent_block_ptr b' = parent_block_ptr b \<and> justify_block_ptr b' = justify_block_ptr b \<and>
        block_height b' = block_height b)"

definition heap_le :: "block_heap \<Rightarrow> block_heap \<Rightarrow> bool" where
  "heap_le h h' \<longleftrightarrow> length h \<le> length h' \<and> (\<forall>a < length h. block_le (h ! a) (h' ! a))"

lemma heap_leD:
  assumes "heap_le h h'" "a < length h"
  shows "a < length h'" and "block_le (h ! a) (h' ! a)"
    and "header (wire_block (h' ! a)) = header (wire_block (h ! a))"
    and "parsed_qc (h' ! a) = parsed_qc (h ! a)"
    and "get_hash (h' ! a) = get_hash (h ! a)"
    and "proposer (h' ! a) = proposer (h ! a)"
    and "parent_block_ptr (h ! a) \<noteq> None \<Longrightarrow> parent_block_ptr (h' ! a) = parent_block_ptr (h ! a)"
    and "parent_block_ptr (h ! a) \<noteq> None \<Longrightarrow> justify_block_ptr (h' ! a) = justify_block_ptr (h ! a)"
    and "parent_block_ptr (h ! a) \<noteq> None \<Longrightarrow> block_height (h' ! a) = block_height (h ! a)"
    and "rooted h a \<Longrightarrow> parent_block_ptr (h' ! a) = parent_block_ptr (h ! a)"
    and "rooted h a \<Longrightarrow> justify_block_ptr (h' ! a) = justify_block_ptr (h ! a)"
    and "rooted h a \<Longrightarrow> block_height (h' ! a) = block_height (h ! a)"
  using assms unfolding heap_le_def block_le_def rooted_def by force+

lemma rooted_le: "heap_le h h' \<Longrightarrow> rooted h a \<Longrightarrow> rooted h' a"
  using heap_leD(1,4) [of h h' a] heap_leD(10) [of h h' a] by (simp add: rooted_def)

lemma heap_le_refl [simp, intro]: "heap_le h h"
  by (simp add: heap_le_def block_le_def)

lemma block_le_trans: "block_le b c \<Longrightarrow> block_le c d \<Longrightarrow> block_le b d"
  unfolding block_le_def by simp

lemma heap_le_trans: "heap_le h h' \<Longrightarrow> heap_le h' h'' \<Longrightarrow> heap_le h h''"
  unfolding heap_le_def by (meson block_le_trans le_trans order_less_le_trans)

lemma same_links_le: "same_links h h' \<Longrightarrow> heap_le h h'"
  by (simp add: heap_le_def block_le_def same_links_nth same_links_length)

lemma heap_le_alloc: "heap_le h (snd (alloc_block b h))"
  by (simp add: heap_le_def block_le_def alloc_block_def nth_append)

lemma heap_le_extends: "extends h a b \<Longrightarrow> heap_le h h' \<Longrightarrow> extends h' a b"
proof (induction rule: extends.induct)
  case (extends_refl a)
  then show ?case using heap_leD(1) by (metis extends.extends_refl)
next
  case (extends_parent a p b)
  then show ?case
    using heap_leD(1) [of h h' a] heap_leD(7) [of h h' a] extends.extends_parent [of a h' p b] by simp
qed

lemma get_parent_hash_le:
  "heap_le h h' \<Longrightarrow> a < length h \<Longrightarrow> get_parent_hash (h' ! a) = get_parent_hash (h ! a)"
  by (simp add: get_parent_hash_def heap_leD)

lemma get_justify_hash_le:
  "heap_le h h' \<Longrightarrow> a < length h \<Longrightarrow> get_justify_hash (h' ! a) = get_justify_hash (h ! a)"
  by (simp add: get_justify_hash_def get_justify_qc_def heap_leD)

section \<open>The store\<close>

text \<open>
  Cached blocks are the ones pointers lead to: an entry is the block with that hash, it is
  linked or it is the genesis block (the only one without a certificate), and every pointer of a
  linked block is the entry for the hash in its header.
\<close>

definition store_wf :: "block_heap \<Rightarrow> BlockStore \<Rightarrow> bool" where
  "store_wf h bs \<longleftrightarrow>
     heap_wf h \<and>
     (\<forall>hash a. block_cache bs hash = Some a \<longrightarrow>
        a < length h \<and> get_hash (h ! a) = hash \<and>
        (parent_block_ptr (h ! a) = None \<longrightarrow> parsed_qc (h ! a) = None)) \<and>
     (\<forall>a < length h. \<forall>p. parent_block_ptr (h ! a) = Some p \<longrightarrow>
        block_cache bs (get_parent_hash (h ! a)) = Some p) \<and>
     (\<forall>a < length h. \<forall>j. justify_block_ptr (h ! a) = Some j \<longrightarrow>
        block_cache bs (get_hash (h ! j)) = Some j)"

lemma store_wfD:
  assumes "store_wf h bs"
  shows "heap_wf h"
    and "block_cache bs hash = Some a \<Longrightarrow> a < length h"
    and "block_cache bs hash = Some a \<Longrightarrow> get_hash (h ! a) = hash"
    and "block_cache bs hash = Some a \<Longrightarrow> parent_block_ptr (h ! a) = None \<Longrightarrow> parsed_qc (h ! a) = None"
    and "a < length h \<Longrightarrow> parent_block_ptr (h ! a) = Some p \<Longrightarrow>
           block_cache bs (get_parent_hash (h ! a)) = Some p"
    and "a < length h \<Longrightarrow> justify_block_ptr (h ! a) = Some j \<Longrightarrow>
           block_cache bs (get_hash (h ! j)) = Some j"
  using assms unfolding store_wf_def by blast+

lemma store_wf_same_links:
  assumes "store_wf h bs" "same_links h h'" "block_cache bs' = block_cache bs"
  shows "store_wf h' bs'"
  unfolding store_wf_def assms(3)
proof (intro conjI allI impI)
  note D = store_wfD [OF assms(1)] and L = same_links_nth [OF assms(2)] and len = same_links_length [OF assms(2)]
  show "heap_wf h'" using same_links_wf [OF assms(2) D(1)] .
  show "a < length h'" "get_hash (h' ! a) = hash" if "block_cache bs hash = Some a" for hash a
    using D(2,3) [OF that] L(3) len by simp_all
  show "parsed_qc (h' ! a) = None" if "block_cache bs hash = Some a" "parent_block_ptr (h' ! a) = None" for hash a
    using D(2,4) [OF that(1)] that(2) L(2,5) by simp
  show "block_cache bs (get_parent_hash (h' ! a)) = Some p"
    if "a < length h'" "parent_block_ptr (h' ! a) = Some p" for a p
    using D(5) [of a p] that L(1,5) [of a] len by (simp add: get_parent_hash_def)
  show "block_cache bs (get_hash (h' ! j)) = Some j"
    if "a < length h'" "justify_block_ptr (h' ! a) = Some j" for a j
    using D(6) [of a j] heap_wfD(6) [OF D(1), of a j] that L(6) [of a] L(3) [of j] len by simp
qed

lemma store_wf_alloc:
  assumes wf: "store_wf h bs" and b: "parent_block_ptr b = None" "justify_block_ptr b = None" "block_height b = 0"
  shows "store_wf (h @ [b]) bs"
proof -
  note D = store_wfD [OF wf]
  have le: "heap_le h (h @ [b])" using heap_le_alloc [of h b] by (simp add: alloc_block_def)
  have nth: "(h @ [b]) ! a = h ! a" if "a < length h" for a using that by (simp add: nth_append)
  have last: "(h @ [b]) ! length h = b" by simp
  have old: "a < length h" if "a < length (h @ [b])" "parent_block_ptr ((h @ [b]) ! a) \<noteq> None" for a
    using that last b(1) by (cases "a = length h") auto
  have old': "a < length h" if "a < length (h @ [b])" "justify_block_ptr ((h @ [b]) ! a) \<noteq> None" for a
    using that last b(2) by (cases "a = length h") auto
  have at: "a < length h \<and> parent_block_ptr ((h @ [b]) ! a) = parent_block_ptr (h ! a) \<and>
      justify_block_ptr ((h @ [b]) ! a) = justify_block_ptr (h ! a) \<or>
      a = length h" if "a < length (h @ [b])" for a
    using that nth [of a] by fastforce
  have "heap_wf (h @ [b])"
    unfolding heap_wf_def
  proof (intro allI impI conjI)
    fix a assume a: "a < length (h @ [b])"
    show "parent_block_ptr ((h @ [b]) ! a) = None \<longleftrightarrow> justify_block_ptr ((h @ [b]) ! a) = None"
      using at [OF a] heap_wfD(1) [OF D(1), of a] b by auto
    show "block_height ((h @ [b]) ! a) = 0" if "parent_block_ptr ((h @ [b]) ! a) = None"
      using at [OF a] heap_wfD(2) [OF D(1), of a] b that nth [of a] by auto
    fix p assume p: "parent_block_ptr ((h @ [b]) ! a) = Some p"
    then have ah: "a < length h" using old a by simp
    then have p': "parent_block_ptr (h ! a) = Some p" using p nth by simp
    show "rooted (h @ [b]) p" using rooted_le [OF le heap_wfD(8) [OF D(1) ah p']] .
    show "get_hash ((h @ [b]) ! p) = get_parent_hash ((h @ [b]) ! a)"
      "unat (block_height ((h @ [b]) ! a)) = Suc (unat (block_height ((h @ [b]) ! p)))"
      using heap_wfD(3,4,5) [OF D(1) ah p'] nth [OF ah] nth [of p] by simp_all
  next
    fix a j assume a: "a < length (h @ [b])" and j: "justify_block_ptr ((h @ [b]) ! a) = Some j"
    then have ah: "a < length h" using old' by simp
    then have j': "justify_block_ptr (h ! a) = Some j" using j nth by simp
    show "rooted (h @ [b]) j" using rooted_le [OF le heap_wfD(9) [OF D(1) ah j']] .
    show "get_justify_hash ((h @ [b]) ! a) = Inr (get_hash ((h @ [b]) ! j))"
      using heap_wfD(6,7) [OF D(1) ah j'] nth [OF ah] nth [of j] by simp
  qed
  then show ?thesis
    unfolding store_wf_def
  proof (intro conjI allI impI)
    fix hash a assume c: "block_cache bs hash = Some a"
    show "a < length (h @ [b])" "get_hash ((h @ [b]) ! a) = hash"
      "parent_block_ptr ((h @ [b]) ! a) = None \<Longrightarrow> parsed_qc ((h @ [b]) ! a) = None"
      using D(2-4) [OF c] nth [of a] by simp_all
  next
    fix a p assume a: "a < length (h @ [b])" and p: "parent_block_ptr ((h @ [b]) ! a) = Some p"
    then have "a < length h" using old by simp
    then show "block_cache bs (get_parent_hash ((h @ [b]) ! a)) = Some p" using D(5) [of a p] p nth by simp
  next
    fix a j assume a: "a < length (h @ [b])" and j: "justify_block_ptr ((h @ [b]) ! a) = Some j"
    then have "a < length h" using old' by simp
    then show "block_cache bs (get_hash ((h @ [b]) ! j)) = Some j"
      using D(6) [of a j] heap_wfD(6) [OF D(1), of a j] j nth by simp
  qed
qed

text \<open>Linking a block: what \<open>set_parent\<close> and \<open>set_justify\<close> do to the heap together.\<close>

definition link_block :: "block_addr \<Rightarrow> block_addr \<Rightarrow> block_addr \<Rightarrow> block_heap \<Rightarrow> block_heap" where
  "link_block a p j h =
     h[a := (h ! a)\<lparr>parent_block_ptr := Some p, block_height := block_height (h ! p) + 1,
                    justify_block_ptr := Some j\<rparr>]"

lemma insert_block_eq:
  assumes "a < length h" "parsed_qc (h ! a) = Some qc" "store_wf h bs"
  shows "insert_block a h bs =
    (case (block_cache bs (get_parent_hash (h ! a)), block_cache bs (obj_hash qc)) of
       (Some p, Some j) \<Rightarrow>
         Inr (\<lparr>missing_parent = None, missing_justify = None\<rparr>, link_block a p j h,
              bs\<lparr>block_cache := emplace (get_hash (h ! a)) a (block_cache bs),
                 gc_collector := gc_add_block a (gc_collector bs)\<rparr>)
     | (pc, jc) \<Rightarrow>
         Inr (\<lparr>missing_parent = (if pc = None then Some (get_parent_hash (h ! a)) else None),
               missing_justify = (if jc = None then Some (obj_hash qc) else None)\<rparr>, h, bs))"
proof -
  have j: "get_justify_hash (h ! a) = Inr (obj_hash qc)"
    using assms(2) by (simp add: get_justify_hash_def get_justify_qc_def)
  show ?thesis
    using assms(1) j store_wfD(2) [OF assms(3)]
    by (auto simp: insert_block_def deref_def Let_def set_parent_def set_justify_def upd_block_def
        link_block_def split: option.splits)
qed

lemma unat_Suc_no_wrap: "x \<noteq> - 1 \<Longrightarrow> unat (x + 1) = Suc (unat (x :: 'a::len word))"
  by (metis add.commute add_eq_0_iff unatSuc)

lemma link_block_nth:
  assumes "a < length h" "c < length h"
  shows "get_hash (link_block a p j h ! c) = get_hash (h ! c)"
    and "get_parent_hash (link_block a p j h ! c) = get_parent_hash (h ! c)"
    and "get_justify_hash (link_block a p j h ! c) = get_justify_hash (h ! c)"
    and "parsed_qc (link_block a p j h ! c) = parsed_qc (h ! c)"
    and "c \<noteq> a \<Longrightarrow> link_block a p j h ! c = h ! c"
    and "parent_block_ptr (link_block a p j h ! a) = Some p"
    and "justify_block_ptr (link_block a p j h ! a) = Some j"
    and "block_height (link_block a p j h ! a) = block_height (h ! p) + 1"
  using assms by (auto simp: link_block_def nth_list_update get_hash_def get_parent_hash_def
      get_justify_hash_def get_justify_qc_def)

lemma length_link_block [simp]: "length (link_block a p j h) = length h"
  by (simp add: link_block_def)

text \<open>A block that was linked before is linked to the same blocks again.\<close>

lemma link_block_again:
  assumes wf: "store_wf h bs" and a: "a < length h" and q: "parent_block_ptr (h ! a) = Some q"
    and p: "block_cache bs (get_parent_hash (h ! a)) = Some p"
    and jh: "get_justify_hash (h ! a) = Inr jh" "block_cache bs jh = Some j"
  shows "link_block a p j h = h"
proof -
  have hw: "heap_wf h" using wf by (rule store_wfD)
  have "q = p" using store_wfD(5) [OF wf a q] p by simp
  moreover obtain i where i: "justify_block_ptr (h ! a) = Some i"
    using heap_wfD(1) [OF hw a] q by fastforce
  moreover have "i = j"
    using store_wfD(6) [OF wf a i] heap_wfD(7) [OF hw a i] jh by simp
  moreover have "block_height (h ! a) = block_height (h ! q) + 1"
    using arg_cong [OF heap_wfD(5) [OF hw a q], of "of_nat :: nat \<Rightarrow> uint64"]
    by (simp add: add.commute)
  ultimately have "(h ! a)\<lparr>parent_block_ptr := Some p, block_height := block_height (h ! p) + 1,
      justify_block_ptr := Some j\<rparr> = h ! a"
    using q by simp
  then show ?thesis by (simp add: link_block_def)
qed

text \<open>No pointer leads to a block that is not linked, other than the genesis block.\<close>

lemma unlinked_not_target:
  assumes wf: "store_wf h bs" and a: "parent_block_ptr (h ! a) = None" "parsed_qc (h ! a) \<noteq> None"
    and c: "c < length h"
  shows "block_cache bs hash \<noteq> Some a" and "parent_block_ptr (h ! c) \<noteq> Some a"
    and "justify_block_ptr (h ! c) \<noteq> Some a"
proof -
  have *: "block_cache bs k \<noteq> Some a" for k
    using store_wfD(4) [OF wf, of k a] a by blast
  then show "block_cache bs hash \<noteq> Some a" .
  show "parent_block_ptr (h ! c) \<noteq> Some a"
    using store_wfD(5) [OF wf c] * by blast
  show "justify_block_ptr (h ! c) \<noteq> Some a"
    using store_wfD(6) [OF wf c] * by blast
qed

lemma link_block_heap_wf:
  assumes wf: "store_wf h bs" and a: "a < length h" and un: "parent_block_ptr (h ! a) = None"
    and qc: "parsed_qc (h ! a) = Some qc"
    and p: "block_cache bs (get_parent_hash (h ! a)) = Some p"
    and j: "block_cache bs (obj_hash qc) = Some j"
    and nowrap: "block_height (h ! p) \<noteq> - 1"
  shows "heap_wf (link_block a p j h)"
  unfolding heap_wf_def
proof (intro allI impI)
  let ?h = "link_block a p j h"
  have hw: "heap_wf h" using wf by (rule store_wfD)
  have tgt: "p < length h" "j < length h" "p \<noteq> a" "j \<noteq> a"
    "get_hash (h ! p) = get_parent_hash (h ! a)" "get_hash (h ! j) = obj_hash qc"
    using store_wfD(2,3) [OF wf p] store_wfD(2,3) [OF wf j] unlinked_not_target(1) [OF wf un] qc p j
    by auto
  have root: "rooted ?h c" if "rooted h c" for c
    using that a link_block_nth(4-6) [OF a, of c] by (cases "c = a") (auto simp: rooted_def)
  have "rooted h p" "rooted h j"
    using store_wfD(4) [OF wf p] store_wfD(4) [OF wf j] tgt by (simp_all add: rooted_def)
  then have rt: "rooted ?h p" "rooted ?h j" by (blast intro: root)+
  fix c assume "c < length ?h"
  then have c: "c < length h" by simp
  note eq = link_block_nth [OF a c]
  show "(parent_block_ptr (?h ! c) = None \<longleftrightarrow> justify_block_ptr (?h ! c) = None) \<and>
        (parent_block_ptr (?h ! c) = None \<longrightarrow> block_height (?h ! c) = 0) \<and>
        (\<forall>p. parent_block_ptr (?h ! c) = Some p \<longrightarrow>
           rooted ?h p \<and> get_hash (?h ! p) = get_parent_hash (?h ! c) \<and>
           unat (block_height (?h ! c)) = Suc (unat (block_height (?h ! p)))) \<and>
        (\<forall>j. justify_block_ptr (?h ! c) = Some j \<longrightarrow>
           rooted ?h j \<and> get_justify_hash (?h ! c) = Inr (get_hash (?h ! j)))"
  proof (cases "c = a")
    case True
    have "get_justify_hash (h ! a) = Inr (get_hash (h ! j))"
      using qc tgt by (simp add: get_justify_hash_def get_justify_qc_def)
    then show ?thesis
      using True tgt a nowrap rt by (simp add: link_block_nth unat_Suc_no_wrap)
  next
    case False
    note [simp] = eq(1-3) eq(5) [OF False]
    have "rooted ?h q \<and> get_hash (?h ! q) = get_parent_hash (h ! c) \<and>
        unat (block_height (h ! c)) = Suc (unat (block_height (?h ! q)))"
      if q: "parent_block_ptr (h ! c) = Some q" for q
    proof -
      have "q \<noteq> a" using unlinked_not_target(2) [OF wf un _ c] qc q by auto
      then show ?thesis
        using heap_wfD(3,4,5) [OF hw c q] link_block_nth(5) [OF a] root [OF heap_wfD(8) [OF hw c q]]
        by simp
    qed
    moreover have "rooted ?h i \<and> get_justify_hash (h ! c) = Inr (get_hash (?h ! i))"
      if i: "justify_block_ptr (h ! c) = Some i" for i
      using heap_wfD(6,7) [OF hw c i] link_block_nth(1) [OF a] root [OF heap_wfD(9) [OF hw c i]]
      by simp
    ultimately show ?thesis
      using heap_wfD(1,2) [OF hw c] by simp
  qed
qed

lemma link_block_store_wf:
  assumes wf: "store_wf h bs" and a: "a < length h" and un: "parent_block_ptr (h ! a) = None"
    and qc: "parsed_qc (h ! a) = Some qc"
    and p: "block_cache bs (get_parent_hash (h ! a)) = Some p"
    and j: "block_cache bs (obj_hash qc) = Some j"
    and nowrap: "block_height (h ! p) \<noteq> - 1"
    and bs': "block_cache bs' = emplace (get_hash (h ! a)) a (block_cache bs)"
  shows "store_wf (link_block a p j h) bs'"
  unfolding store_wf_def
proof (intro conjI allI impI)
  let ?h = "link_block a p j h"
  have keep: "block_cache bs' hash = Some c" if "block_cache bs hash = Some c" for hash c
    using that by (auto simp: bs' emplace_def)
  have new: "block_cache bs hash = Some c \<or> (c = a \<and> hash = get_hash (h ! a))"
    if "block_cache bs' hash = Some c" for hash c
    using that by (auto simp: bs' emplace_def split: if_splits)
  show "heap_wf ?h" using assms by (intro link_block_heap_wf)
  fix hash c assume c': "block_cache bs' hash = Some c"
  then have c: "c < length h" "get_hash (h ! c) = hash"
    using new [OF c'] store_wfD(2,3) [OF wf] a by auto
  then show "c < length ?h" "get_hash (?h ! c) = hash"
    using link_block_nth(1) [OF a] by simp_all
  show "parsed_qc (?h ! c) = None" if un': "parent_block_ptr (?h ! c) = None"
  proof -
    have "c \<noteq> a" using un' link_block_nth(6) [OF a a] by auto
    then show ?thesis
      using un' new [OF c'] store_wfD(4) [OF wf] link_block_nth(5) [OF a c(1)] by auto
  qed
next
  let ?h = "link_block a p j h"
  fix c q assume "c < length ?h" and q: "parent_block_ptr (?h ! c) = Some q"
  then have c: "c < length h" by simp
  have "block_cache bs (get_parent_hash (h ! c)) = Some q"
    using q p link_block_nth [OF a c] store_wfD(5) [OF wf c] by (cases "c = a") auto
  then show "block_cache bs' (get_parent_hash (?h ! c)) = Some q"
    using link_block_nth(2) [OF a c] by (auto simp: bs' emplace_def)
next
  let ?h = "link_block a p j h"
  fix c i assume "c < length ?h" and i: "justify_block_ptr (?h ! c) = Some i"
  then have c: "c < length h" by simp
  have "block_cache bs (get_hash (h ! i)) = Some i \<and> i < length h"
  proof (cases "c = a")
    case True
    then have "i = j" using i link_block_nth(7) [OF a c] by simp
    then show ?thesis using j store_wfD(2,3) [OF wf j] by simp
  next
    case False
    then have "justify_block_ptr (h ! c) = Some i" using i link_block_nth(5) [OF a c] by simp
    then show ?thesis
      using store_wfD(6) [OF wf c] heap_wfD(6) [OF store_wfD(1) [OF wf] c] by simp
  qed
  then show "block_cache bs' (get_hash (?h ! i)) = Some i"
    using link_block_nth(1) [OF a] by (auto simp: bs' emplace_def)
qed

lemma link_block_le:
  "a < length h \<Longrightarrow> parent_block_ptr (h ! a) = None \<Longrightarrow> parsed_qc (h ! a) = Some qc \<Longrightarrow>
     heap_le h (link_block a p j h)"
  by (auto simp: heap_le_def block_le_def link_block_def nth_list_update get_hash_def)

text \<open>The height that a new child of a cached block gets fits into 64 bits.\<close>

definition height_room :: "block_heap \<Rightarrow> BlockStore \<Rightarrow> bool" where
  "height_room h bs \<longleftrightarrow> (\<forall>hash p. block_cache bs hash = Some p \<longrightarrow> block_height (h ! p) \<noteq> - 1)"

text \<open>The blocks an insertion needs and does not find.\<close>

definition absent :: "BlockStore \<Rightarrow> Hash \<Rightarrow> Hash option" where
  "absent bs hash = (if block_cache bs hash = None then Some hash else None)"

text \<open>
  The outcome of an insertion: either dependencies are missing and nothing changes, or the block
  is linked to the entries of the store and the store has an entry for its hash.
\<close>

definition inserted ::
  "block_addr \<Rightarrow> block_heap \<Rightarrow> BlockStore \<Rightarrow> block_heap \<Rightarrow> BlockStore \<Rightarrow> bool" where
  "inserted a h bs h' bs' \<longleftrightarrow>
     (\<exists>p j. block_cache bs (get_parent_hash (h ! a)) = Some p \<and>
        parent_block_ptr (h' ! a) = Some p \<and> justify_block_ptr (h' ! a) = Some j \<and>
        get_justify_hash (h ! a) = Inr (get_hash (h ! j)) \<and>
        block_cache bs (get_hash (h ! j)) = Some j \<and>
        unat (block_height (h' ! a)) = Suc (unat (block_height (h ! p)))) \<and>
     block_cache bs' = emplace (get_hash (h ! a)) a (block_cache bs) \<and>
     gc_collector bs' = gc_add_block a (gc_collector bs) \<and>
     length h' = length h \<and> (\<forall>c < length h. c \<noteq> a \<longrightarrow> h' ! c = h ! c)"

lemma store_wf_emplace:
  assumes "store_wf h bs" "a < length h" "parent_block_ptr (h ! a) \<noteq> None"
    and bs': "block_cache bs' = emplace (get_hash (h ! a)) a (block_cache bs)"
  shows "store_wf h bs'"
proof -
  have keep: "block_cache bs hash = Some c \<Longrightarrow> block_cache bs' hash = Some c" for hash c
    by (auto simp: bs' emplace_def)
  have new: "block_cache bs' hash = Some c \<Longrightarrow>
      block_cache bs hash = Some c \<or> (c = a \<and> hash = get_hash (h ! a))" for hash c
    by (auto simp: bs' emplace_def split: if_splits)
  show ?thesis
    unfolding store_wf_def
  proof (intro conjI allI impI)
    show "heap_wf h" using assms(1) by (rule store_wfD)
    show "c < length h" "get_hash (h ! c) = hash" if "block_cache bs' hash = Some c" for hash c
      using new [OF that] store_wfD(2,3) [OF assms(1)] assms(2) by auto
    show "parsed_qc (h ! c) = None"
      if "block_cache bs' hash = Some c" "parent_block_ptr (h ! c) = None" for hash c
      using new [OF that(1)] store_wfD(4) [OF assms(1)] that(2) assms(3) by auto
  qed (use keep store_wfD(5,6) [OF assms(1)] in blast)+
qed

lemma insert_block_ok:
  assumes wf: "store_wf h bs" and room: "height_room h bs"
    and a: "a < length h" and qc: "parsed_qc (h ! a) = Some qc"
  obtains missing h' bs' where
    "insert_block a h bs = Inr (missing, h', bs')" "store_wf h' bs'" "heap_le h h'"
    "missing_parent missing = absent bs (get_parent_hash (h ! a))"
    "missing_justify missing = absent bs (obj_hash qc)"
    "if MissingDependencies_bool missing then h' = h \<and> bs' = bs else inserted a h bs h' bs'"
proof (cases "block_cache bs (get_parent_hash (h ! a)) = None \<or> block_cache bs (obj_hash qc) = None")
  case True
  let ?m = "\<lparr>missing_parent = absent bs (get_parent_hash (h ! a)), missing_justify = absent bs (obj_hash qc)\<rparr>"
  have ins: "insert_block a h bs = Inr (?m, h, bs)"
    using True by (subst insert_block_eq [OF a qc wf]) (auto simp: absent_def split: option.split)
  have bad: "MissingDependencies_bool ?m"
    using True by (auto simp: MissingDependencies_bool_def absent_def)
  show ?thesis
    by (rule that [OF ins wf heap_le_refl]) (simp_all add: bad)
next
  case False
  then obtain p j where p: "block_cache bs (get_parent_hash (h ! a)) = Some p"
    and j: "block_cache bs (obj_hash qc) = Some j" by auto
  let ?m = "\<lparr>missing_parent = None, missing_justify = None\<rparr>"
  let ?h = "link_block a p j h"
  let ?bs = "bs\<lparr>block_cache := emplace (get_hash (h ! a)) a (block_cache bs),
      gc_collector := gc_add_block a (gc_collector bs)\<rparr>"
  have ins: "insert_block a h bs = Inr (?m, ?h, ?bs)"
    using p j by (subst insert_block_eq [OF a qc wf]) simp
  have jh: "get_justify_hash (h ! a) = Inr (obj_hash qc)"
    using qc by (simp add: get_justify_hash_def get_justify_qc_def)
  have nowrap: "block_height (h ! p) \<noteq> - 1"
    using room p by (auto simp: height_room_def)
  have keep: "store_wf ?h ?bs \<and> heap_le h ?h"
  proof (cases "parent_block_ptr (h ! a)")
    case None
    then show ?thesis
      using link_block_store_wf [OF wf a None qc p j nowrap, of ?bs] link_block_le [OF a None qc] by simp
  next
    case (Some q)
    have "?h = h" by (rule link_block_again [OF wf a Some p jh j])
    then show ?thesis
      using store_wf_emplace [OF wf a, of ?bs] Some by simp
  qed
  have "inserted a h bs ?h ?bs"
    unfolding inserted_def
    using p j a jh store_wfD(3) [OF wf j] nowrap
    by (auto simp: link_block_nth unat_Suc_no_wrap)
  then show ?thesis
    using that [OF ins] keep p j by (simp add: absent_def MissingDependencies_bool_def)
qed

text \<open>
  Whatever the heights are, an insertion moves no block of the tree; so heights that are not at the
  limit afterwards were not at the limit before.
\<close>

lemma insert_block_le:
  assumes wf: "store_wf h bs" and qc: "parsed_qc (h ! a) = Some qc"
    and ins: "insert_block a h bs = Inr (missing, h', bs')"
  shows "heap_le h h'"
proof -
  have a: "a < length h" using ins by (auto simp: insert_block_def deref_def split: if_splits)
  show ?thesis
  proof (cases "block_cache bs (get_parent_hash (h ! a)) = None \<or> block_cache bs (obj_hash qc) = None")
    case True
    then have "h' = h" using ins by (auto simp: insert_block_eq [OF a qc wf] split: option.splits)
    then show ?thesis by simp
  next
    case False
    then obtain p j where p: "block_cache bs (get_parent_hash (h ! a)) = Some p"
      and j: "block_cache bs (obj_hash qc) = Some j" by auto
    then have h': "h' = link_block a p j h" using ins by (simp add: insert_block_eq [OF a qc wf])
    show ?thesis
    proof (cases "parent_block_ptr (h ! a)")
      case None
      then show ?thesis using link_block_le [OF a None qc] h' by simp
    next
      case (Some q)
      have "get_justify_hash (h ! a) = Inr (obj_hash qc)"
        using qc by (simp add: get_justify_hash_def get_justify_qc_def)
      then have "h' = h" unfolding h' using j by (intro link_block_again [OF wf a Some p])
      then show ?thesis by simp
    qed
  qed
qed

lemma height_room_before:
  assumes wf: "store_wf h bs" and le: "heap_le h h'" and max: "\<forall>b \<in> set h'. block_height b \<noteq> - 1"
  shows "height_room h bs"
  unfolding height_room_def
proof (intro allI impI)
  fix hash p assume p: "block_cache bs hash = Some p"
  then have "rooted h p" using store_wfD(2,4) [OF wf p] by (simp add: rooted_def)
  then show "block_height (h ! p) \<noteq> - 1"
    using heap_leD(1,12) [OF le rooted_addr] max by (metis nth_mem)
qed

text \<open>
  C12 --- Inserting a block into the block store. On a well-formed store \<open>insert_block\<close> returns for
  every block other than the genesis block. It reports exactly the parent and justify hashes that
  have no entry. If any is missing, nothing changes; otherwise the block's pointers are the
  entries for the two hashes of its header, its height is one more than its parent's, the store
  gains an entry for its hash unless it has one, and no other block changes. The store stays
  well-formed and no block that was linked before is moved.
\<close>

theorem insert_block_correct:
  assumes "store_wf h bs" "height_room h bs" "a < length h" "parsed_qc (h ! a) = Some qc"
  shows "\<exists>missing h' bs'.
    insert_block a h bs = Inr (missing, h', bs') \<and> store_wf h' bs' \<and> heap_le h h' \<and>
    missing_parent missing = absent bs (get_parent_hash (h ! a)) \<and>
    missing_justify missing = absent bs (obj_hash qc) \<and>
    (if MissingDependencies_bool missing then h' = h \<and> bs' = bs else inserted a h bs h' bs')"
  using insert_block_ok [OF assms] by blast

text \<open>A heap with the genesis block and a block on top of it that is not linked yet.\<close>

definition demo_child :: HotstuffBlock where
  "demo_child = new_HotstuffBlock_genesis\<lparr>parsed_qc := Some (new_QuorumCertificate zero_hash),
     self_qc := new_QuorumCertificate (pad32 [1, 0]), decided := False, written_to_disk := False,
     flushed_from_memory := False\<rparr>"

definition demo_heap :: block_heap where
  "demo_heap = [new_HotstuffBlock_genesis, demo_child]"

definition demo_store :: BlockStore where
  "demo_store = \<lparr>block_cache = [zero_hash \<mapsto> 0], gc_collector = new_BlockGarbageCollector\<rparr>"

lemma demo_heap_nth [simp]:
  "length demo_heap = 2" "demo_heap ! 0 = new_HotstuffBlock_genesis" "demo_heap ! Suc 0 = demo_child"
  by (simp_all add: demo_heap_def)

lemma demo_genesis_fields [simp]:
  "parent_block_ptr new_HotstuffBlock_genesis = None"
  "justify_block_ptr new_HotstuffBlock_genesis = None"
  "block_height new_HotstuffBlock_genesis = 0"
  "parsed_qc new_HotstuffBlock_genesis = None"
  "get_hash new_HotstuffBlock_genesis = zero_hash"
  "decided new_HotstuffBlock_genesis"
  "written_to_disk new_HotstuffBlock_genesis"
  by (simp_all add: new_HotstuffBlock_genesis_def get_hash_def)

lemma demo_child_fields [simp]:
  "parent_block_ptr demo_child = None" "justify_block_ptr demo_child = None"
  "block_height demo_child = 0" "parsed_qc demo_child = Some (new_QuorumCertificate zero_hash)"
  "get_hash demo_child = pad32 [1, 0]" "get_parent_hash demo_child = zero_hash"
  by (simp_all add: demo_child_def new_HotstuffBlock_genesis_def get_hash_def get_parent_hash_def)

lemma less_two_cases: "a < (2 :: nat) \<longleftrightarrow> a = 0 \<or> a = Suc 0"
  by auto

lemma demo_store_wf: "store_wf demo_heap demo_store" "height_room demo_heap demo_store"
  by (auto simp: store_wf_def heap_wf_def less_two_cases demo_store_def height_room_def
      split: if_splits)

theorem insert_block_correct_witness:
  "store_wf demo_heap demo_store \<and>
   (\<exists>missing h' bs'.
     insert_block 1 demo_heap demo_store = Inr (missing, h', bs') \<and> store_wf h' bs' \<and>
     heap_le demo_heap h' \<and> missing_parent missing = None \<and> missing_justify missing = None \<and>
     inserted 1 demo_heap demo_store h' bs')"
proof -
  have "absent demo_store zero_hash = None"
    by (simp add: absent_def demo_store_def)
  then show ?thesis
    using insert_block_correct [OF demo_store_wf, of 1 "new_QuorumCertificate zero_hash"] demo_store_wf
    by (auto simp: MissingDependencies_bool_def)
qed

end
