(* ===== verification/Persist.thy ===== *)
theory Persist
  imports Chain
begin

text \<open>
  Block files: the file name determines the hash, saving and loading are inverse, and
  \<open>HotstuffBlock::write_to_disk\<close> leaves the block and all its ancestors on disk.
\<close>

section \<open>File names\<close>

lemma hex_digit_inj: "m < 16 \<Longrightarrow> n < 16 \<Longrightarrow> hex_digit m = hex_digit n \<longleftrightarrow> m = n"
proof -
  have "distinct ''0123456789abcdef''" by simp
  moreover have "length ''0123456789abcdef'' = 16" by simp
  ultimately show "m < 16 \<Longrightarrow> n < 16 \<Longrightarrow> hex_digit m = hex_digit n \<longleftrightarrow> m = n"
    unfolding hex_digit_def by (metis nth_eq_iff_index_eq)
qed

lemma byte_hex_inj:
  fixes b c :: byte
  assumes "hex_digit (unat b div 16) = hex_digit (unat c div 16)"
    and "hex_digit (unat b mod 16) = hex_digit (unat c mod 16)"
  shows "b = c"
proof -
  have "unat x < 256" for x :: byte
    using unsigned_less [of x] by simp
  then have "unat x div 16 < 16" for x :: byte
    by (simp add: less_mult_imp_div_less)
  then have "unat b div 16 = unat c div 16" "unat b mod 16 = unat c mod 16"
    using assms hex_digit_inj by (blast, metis mod_less_divisor zero_less_numeral)
  then have "unat b = unat c" by (metis div_mult_mod_eq)
  then show ?thesis by (simp add: word_unat_eq_iff)
qed

lemma array_to_str_inj: "array_to_str xs = array_to_str ys \<Longrightarrow> xs = ys"
proof (induction xs arbitrary: ys)
  case Nil
  then show ?case by (cases ys) simp_all
next
  case (Cons x xs)
  then show ?case by (cases ys) (auto dest: byte_hex_inj)
qed

lemma block_filename_inj: "block_filename h info = block_filename h' info \<longleftrightarrow> h = h'"
  by (auto simp: block_filename_def dest: array_to_str_inj)

section \<open>Save and load\<close>

lemma save_block_ok:
  assumes "hash_header env (header w) = Inr hash" "fopen_for_writing_ok env (block_filename hash info)"
  shows "save_block env w info d =
    Inr (d(block_filename hash info \<mapsto> xdr_block_to_opaque env w))"
  using assms by (simp add: save_block_def save_xdr_to_file_def)

lemma load_saved:
  assumes "xdr_laws env" "d (block_filename hash info) = Some (xdr_block_to_opaque env w)"
  shows "load_block env hash info d = Inr (Some w)"
  using assms by (simp add: load_block_def load_xdr_from_file_def xdr_laws_def)

text \<open>
  C13 --- Block files. A saved block is loaded back unchanged under its header hash, and saving
  it does not affect what is loaded under any other hash.
\<close>

theorem save_load_block:
  assumes "xdr_laws env" "hash_header env (header w) = Inr hash"
    and "save_block env w info d = Inr d'"
  shows "load_block env hash info d' = Inr (Some w) \<and>
    (\<forall>other. other \<noteq> hash \<longrightarrow> load_block env other info d' = load_block env other info d)"
proof -
  have d': "d' = d(block_filename hash info \<mapsto> xdr_block_to_opaque env w)"
    using assms(2,3) by (auto simp: save_block_def save_xdr_to_file_def split: if_splits)
  have "load_block env other info d' = load_block env other info d" if "other \<noteq> hash" for other
    using that block_filename_inj [of other info hash]
    by (simp add: d' load_block_def load_xdr_from_file_def)
  then show ?thesis
    using load_saved [OF assms(1), of d' hash info w] by (simp add: d')
qed

section \<open>Writing a chain\<close>

text \<open>Every block but the genesis block is named by the hash of its header.\<close>

definition hashes_ok :: "('bv, 'db, 'tx) env \<Rightarrow> block_heap \<Rightarrow> bool" where
  "hashes_ok env h \<longleftrightarrow>
     (\<forall>a < length h. parsed_qc (h ! a) \<noteq> None \<longrightarrow>
        hash_header env (header (wire_block (h ! a))) = Inr (get_hash (h ! a)))"

text \<open>Whatever is below a block that was written has been written, and so has the genesis block.\<close>

definition written_closed :: "block_heap \<Rightarrow> bool" where
  "written_closed h \<longleftrightarrow>
     (\<forall>a < length h. (parsed_qc (h ! a) = None \<longrightarrow> written_to_disk (h ! a)) \<and>
        (written_to_disk (h ! a) \<longrightarrow>
           (\<forall>p. parent_block_ptr (h ! a) = Some p \<longrightarrow> written_to_disk (h ! p))))"

abbreviation mark_written :: "block_addr set \<Rightarrow> block_heap \<Rightarrow> block_heap" where
  "mark_written \<equiv> upd_all (\<lambda>b. b\<lparr>written_to_disk := True\<rparr>)"

definition ancestors :: "block_heap \<Rightarrow> block_addr \<Rightarrow> block_addr set" where
  "ancestors h a = {c. extends h a c}"

definition save_all ::
  "('bv, 'db, 'tx) env \<Rightarrow> ReplicaInfo \<Rightarrow> block_heap \<Rightarrow> block_addr set \<Rightarrow> disk \<Rightarrow> disk \<Rightarrow> bool" where
  "save_all env info h S d d' \<longleftrightarrow>
     (\<forall>c \<in> S. d' (block_filename (get_hash (h ! c)) info) =
        Some (xdr_block_to_opaque env (wire_block (h ! c)))) \<and>
     (\<forall>f. (\<forall>c \<in> S. f \<noteq> block_filename (get_hash (h ! c)) info) \<longrightarrow> d' f = d f)"

lemma same_links_mark [simp, intro]: "same_links h (mark_written S h)"
  by (rule same_links_upd_all) (simp add: links_def get_hash_def)

lemma written_ancestors:
  "extends h a c \<Longrightarrow> written_closed h \<Longrightarrow> written_to_disk (h ! a) \<Longrightarrow> written_to_disk (h ! c)"
proof (induction rule: extends.induct)
  case (extends_refl a)
  then show ?case by simp
next
  case (extends_parent a p b)
  then have "written_to_disk (h ! p)" unfolding written_closed_def by blast
  then show ?case using extends_parent.IH extends_parent.prems(1) by simp
qed

lemma ancestors_parent:
  assumes "a < length h" "parent_block_ptr (h ! a) = Some p"
  shows "ancestors h a = insert a (ancestors h p)"
  using assms by (auto simp: ancestors_def elim: extends.cases intro: extends.intros)

lemma ancestors_root:
  assumes "a < length h" "parent_block_ptr (h ! a) = None"
  shows "ancestors h a = {a}"
  using assms by (auto simp: ancestors_def elim: extends.cases intro: extends.intros)

lemma ancestors_mark [simp]: "ancestors (mark_written S h) a = ancestors h a"
  by (simp add: ancestors_def same_links_extends_iff [OF same_links_mark])

text \<open>The part of \<open>written_closed\<close> that concerns the ancestors of one block.\<close>

definition closed_below :: "block_heap \<Rightarrow> block_addr \<Rightarrow> bool" where
  "closed_below h a \<longleftrightarrow>
     (\<forall>c \<in> ancestors h a. (parsed_qc (h ! c) = None \<longrightarrow> written_to_disk (h ! c)) \<and>
        (written_to_disk (h ! c) \<longrightarrow>
           (\<forall>p. parent_block_ptr (h ! c) = Some p \<longrightarrow> written_to_disk (h ! p))))"

lemma written_closed_below: "written_closed h \<Longrightarrow> closed_below h a"
proof -
  assume wc: "written_closed h"
  have "c < length h" if "c \<in> ancestors h a" for c
    using that extends_addr by (auto simp: ancestors_def)
  then show "closed_below h a"
    using wc unfolding closed_below_def written_closed_def by blast
qed

lemma closed_below_written:
  "extends h a c \<Longrightarrow> closed_below h a \<Longrightarrow> written_to_disk (h ! a) \<Longrightarrow> written_to_disk (h ! c)"
proof (induction rule: extends.induct)
  case (extends_refl a)
  then show ?case by simp
next
  case (extends_parent a p b)
  have anc: "ancestors h a = insert a (ancestors h p)"
    using extends_parent.hyps(1,2) by (rule ancestors_parent)
  then have "closed_below h p" "written_to_disk (h ! p)"
    using extends_parent.prems extends_parent.hyps unfolding closed_below_def by auto
  then show ?case using extends_parent.IH by simp
qed

lemma parent_not_descendant:
  assumes "heap_wf h" "a < length h" "parent_block_ptr (h ! a) = Some p"
  shows "a \<notin> ancestors h p"
  using parent_lower [OF assms] extends_height [of h p a] assms(1)
  by (auto simp: ancestors_def)

lemma write_to_disk_written:
  "a < length h \<Longrightarrow> written_to_disk (h ! a) \<Longrightarrow> write_to_disk env info a h d = Inr (h, d)"
  by (simp add: write_to_disk.simps deref_def)

lemma write_to_disk_step:
  assumes "a < length h" "\<not> written_to_disk (h ! a)"
    and "hash_header env (header (wire_block (h ! a))) = Inr (get_hash (h ! a))"
    and "fopen_for_writing_ok env (block_filename (get_hash (h ! a)) info)"
    and "parent_block_ptr (h ! a) = Some p"
  shows "write_to_disk env info a h d =
    write_to_disk env info p (mark_written {a} h)
      (d(block_filename (get_hash (h ! a)) info \<mapsto> xdr_block_to_opaque env (wire_block (h ! a))))"
  using assms by (subst write_to_disk.simps) (simp add: deref_def save_block_ok upd_block_all)

lemma write_to_disk_root:
  assumes "a < length h" "\<not> written_to_disk (h ! a)"
    and "hash_header env (header (wire_block (h ! a))) = Inr (get_hash (h ! a))"
    and "fopen_for_writing_ok env (block_filename (get_hash (h ! a)) info)"
    and "parent_block_ptr (h ! a) = None"
  shows "write_to_disk env info a h d =
    Inr (mark_written {a} h,
      d(block_filename (get_hash (h ! a)) info \<mapsto> xdr_block_to_opaque env (wire_block (h ! a))))"
  using assms by (subst write_to_disk.simps) (simp add: deref_def save_block_ok upd_block_all)

lemma save_all_insert:
  assumes "save_all env info h S (d(block_filename (get_hash (h ! a)) info \<mapsto>
      xdr_block_to_opaque env (wire_block (h ! a)))) d'"
    and "\<And>c. c \<in> S \<Longrightarrow> get_hash (h ! c) \<noteq> get_hash (h ! a)"
  shows "save_all env info h (insert a S) d d'"
proof -
  have "\<forall>c \<in> S. block_filename (get_hash (h ! a)) info \<noteq> block_filename (get_hash (h ! c)) info"
    using assms(2) by (metis block_filename_inj)
  then show ?thesis
    using assms(1) unfolding save_all_def by auto
qed

lemma save_all_cong:
  assumes "\<And>c. c \<in> S \<Longrightarrow> get_hash (h' ! c) = get_hash (h ! c) \<and> wire_block (h' ! c) = wire_block (h ! c)"
  shows "save_all env info h' S d d' \<longleftrightarrow> save_all env info h S d d'"
  using assms unfolding save_all_def by auto

lemma save_all_other:
  assumes "save_all env info h S d d'" "\<forall>c \<in> S. get_hash (h ! c) \<noteq> other"
  shows "load_block env other info d' = load_block env other info d"
proof -
  have "\<forall>c \<in> S. block_filename other info \<noteq> block_filename (get_hash (h ! c)) info"
    using assms(2) by (auto simp: block_filename_inj)
  then have "d' (block_filename other info) = d (block_filename other info)"
    using assms(1) unfolding save_all_def by blast
  then show ?thesis by (simp add: load_block_def load_xdr_from_file_def)
qed

text \<open>Marking a block as written does not touch its proper ancestors.\<close>

lemma mark_parent:
  assumes "heap_wf h" "a < length h" "parent_block_ptr (h ! a) = Some p" "c \<in> ancestors h p"
  shows "mark_written {a} h ! c = h ! c" and "c < length h"
proof -
  show "c < length h" using assms(4) extends_addr by (auto simp: ancestors_def)
  then show "mark_written {a} h ! c = h ! c"
    using assms(4) parent_not_descendant [OF assms(1-3)] by (auto simp: nth_upd_all)
qed

lemma closed_below_parent:
  assumes "heap_wf h" "a < length h" "parent_block_ptr (h ! a) = Some p" "closed_below h a"
  shows "closed_below (mark_written {a} h) p"
  unfolding closed_below_def ancestors_mark
proof (intro ballI conjI impI allI)
  let ?h = "mark_written {a} h"
  fix c assume c: "c \<in> ancestors h p"
  note same = mark_parent [OF assms(1-3) c]
  have cb: "(parsed_qc (h ! c) = None \<longrightarrow> written_to_disk (h ! c)) \<and>
      (written_to_disk (h ! c) \<longrightarrow> (\<forall>q. parent_block_ptr (h ! c) = Some q \<longrightarrow> written_to_disk (h ! q)))"
    using assms(4) c ancestors_parent [OF assms(2,3)] unfolding closed_below_def by blast
  show "written_to_disk (?h ! c)" if "parsed_qc (?h ! c) = None"
    using cb that same by simp
  fix q assume "written_to_disk (?h ! c)" "parent_block_ptr (?h ! c) = Some q"
  then have q: "parent_block_ptr (h ! c) = Some q" "written_to_disk (h ! c)"
    using same by simp_all
  then have "q < length h" using heap_wfD(3) [OF assms(1) same(2)] by blast
  then show "written_to_disk (?h ! q)" using cb q by (simp add: nth_upd_all)
qed

lemma hashes_ok_mark: "hashes_ok env h \<Longrightarrow> hashes_ok env (mark_written S h)"
  by (auto simp: hashes_ok_def nth_upd_all get_hash_def)

lemma save_all_parent:
  assumes "heap_wf h" "a < length h" "parent_block_ptr (h ! a) = Some p" "\<not> written_to_disk (h ! a)"
    and "inj_on (\<lambda>c. get_hash (h ! c)) (ancestors h a)"
    and "save_all env info (mark_written {a} h)
      {c \<in> ancestors h p. \<not> written_to_disk (mark_written {a} h ! c)}
      (d(block_filename (get_hash (h ! a)) info \<mapsto> xdr_block_to_opaque env (wire_block (h ! a)))) d'"
  shows "save_all env info h {c \<in> ancestors h a. \<not> written_to_disk (h ! c)} d d'"
proof -
  let ?S = "{c \<in> ancestors h p. \<not> written_to_disk (h ! c)}"
  have anc: "ancestors h a = insert a (ancestors h p)"
    using assms(2,3) by (rule ancestors_parent)
  note same = mark_parent [OF assms(1-3)]
  have S: "{c \<in> ancestors h p. \<not> written_to_disk (mark_written {a} h ! c)} = ?S"
    using same(1) by auto
  have "save_all env info h ?S
      (d(block_filename (get_hash (h ! a)) info \<mapsto> xdr_block_to_opaque env (wire_block (h ! a)))) d'"
    using assms(6) same(1) unfolding S by (subst (asm) save_all_cong [of _ _ h]) auto
  then have "save_all env info h (insert a ?S) d d'"
    using assms(5) parent_not_descendant [OF assms(1-3)] unfolding anc
    by (intro save_all_insert) (auto simp: inj_on_def)
  moreover have "insert a ?S = {c \<in> ancestors h a. \<not> written_to_disk (h ! c)}"
    using anc assms(4) by auto
  ultimately show ?thesis by simp
qed

lemma write_to_disk_chain:
  assumes "heap_wf h" "hashes_ok env h" "a < length h" "closed_below h a"
    and "inj_on (\<lambda>c. get_hash (h ! c)) (ancestors h a)"
    and "\<forall>f. fopen_for_writing_ok env f"
  shows "\<exists>d'. write_to_disk env info a h d = Inr (mark_written (ancestors h a) h, d') \<and>
    save_all env info h {c \<in> ancestors h a. \<not> written_to_disk (h ! c)} d d'"
  using assms(1-5)
proof (induction "unat (block_height (h ! a))" arbitrary: a h d rule: less_induct)
  case (less a h d)
  show ?case
  proof (cases "written_to_disk (h ! a)")
    case True
    then have "\<forall>c \<in> ancestors h a. written_to_disk (h ! c)"
      using closed_below_written less.prems(4) by (auto simp: ancestors_def)
    then show ?thesis
      using True less.prems(3) by (auto simp: write_to_disk_written upd_all_id save_all_def)
  next
    case False
    have "a \<in> ancestors h a" using less.prems(3) by (simp add: ancestors_def extends_refl)
    then have hash: "hash_header env (header (wire_block (h ! a))) = Inr (get_hash (h ! a))"
      using less.prems(2-4) False unfolding hashes_ok_def closed_below_def by blast
    have fopen: "fopen_for_writing_ok env (block_filename (get_hash (h ! a)) info)"
      using assms(6) by blast
    show ?thesis
    proof (cases "parent_block_ptr (h ! a)")
      case None
      then show ?thesis
        using write_to_disk_root [OF less.prems(3) False hash fopen None]
          ancestors_root [OF less.prems(3) None] False
        by (auto simp: save_all_def block_filename_inj)
    next
      case (Some p)
      let ?h = "mark_written {a} h"
      let ?d = "d(block_filename (get_hash (h ! a)) info \<mapsto> xdr_block_to_opaque env (wire_block (h ! a)))"
      note same = mark_parent [OF less.prems(1,3) Some]
      have p: "p < length h" using heap_wfD(3) [OF less.prems(1,3) Some] .
      have "unat (block_height (?h ! p)) < unat (block_height (h ! a))"
        using parent_lower [OF less.prems(1,3) Some] same(1) [of p] p
        by (simp add: word_less_nat_alt ancestors_def extends_refl)
      moreover have "inj_on (\<lambda>c. get_hash (?h ! c)) (ancestors ?h p)"
        using less.prems(5) same(1) ancestors_parent [OF less.prems(3) Some] by (auto simp: inj_on_def)
      ultimately obtain d' where
        "write_to_disk env info p ?h ?d = Inr (mark_written (ancestors h p) ?h, d')"
        "save_all env info ?h {c \<in> ancestors h p. \<not> written_to_disk (?h ! c)} ?d d'"
        using less.hyps [of ?h p ?d] same_links_wf [OF same_links_mark less.prems(1)] p
          closed_below_parent [OF less.prems(1,3) Some less.prems(4)] hashes_ok_mark [OF less.prems(2)]
        by auto
      then show ?thesis
        using write_to_disk_step [OF less.prems(3) False hash fopen Some]
          ancestors_parent [OF less.prems(3) Some] save_all_parent [OF less.prems(1,3) Some False less.prems(5)]
        by (auto simp: upd_all_Un)
    qed
  qed
qed

lemma ancestor_cached:
  "extends h a c \<Longrightarrow> store_wf h bs \<Longrightarrow> block_cache bs (get_hash (h ! a)) = Some a \<Longrightarrow>
     block_cache bs (get_hash (h ! c)) = Some c"
proof (induction rule: extends.induct)
  case (extends_refl a)
  then show ?case by simp
next
  case (extends_parent a p b)
  have "block_cache bs (get_hash (h ! p)) = Some p"
    using store_wfD(5) [OF extends_parent.prems(1) extends_parent.hyps(1,2)]
      heap_wfD(4) [OF store_wfD(1) [OF extends_parent.prems(1)] extends_parent.hyps(1,2)] by simp
  then show ?case using extends_parent.IH extends_parent.prems(1) by simp
qed

lemma ancestors_inj:
  assumes "store_wf h bs" "block_cache bs (get_hash (h ! a)) = Some a"
  shows "inj_on (\<lambda>c. get_hash (h ! c)) (ancestors h a)"
proof (rule inj_onI)
  fix x y assume xy: "x \<in> ancestors h a" "y \<in> ancestors h a" "get_hash (h ! x) = get_hash (h ! y)"
  have "block_cache bs (get_hash (h ! c)) = Some c" if "c \<in> ancestors h a" for c
    by (rule ancestor_cached [OF _ assms]) (use that in \<open>simp add: ancestors_def\<close>)
  from this [OF xy(1)] this [OF xy(2)] show "x = y"
    unfolding xy(3) by simp
qed

lemma written_closed_mark:
  assumes "heap_wf h" "written_closed h"
  shows "written_closed (mark_written (ancestors h a) h)"
  unfolding written_closed_def
proof (intro allI impI conjI)
  let ?h = "mark_written (ancestors h a) h"
  fix c assume "c < length ?h"
  then have c: "c < length h" by simp
  have wc: "(parsed_qc (h ! c) = None \<longrightarrow> written_to_disk (h ! c)) \<and>
      (written_to_disk (h ! c) \<longrightarrow> (\<forall>p. parent_block_ptr (h ! c) = Some p \<longrightarrow> written_to_disk (h ! p)))"
    using assms(2) c unfolding written_closed_def by blast
  show "written_to_disk (?h ! c)" if "parsed_qc (?h ! c) = None"
    using wc that c by (auto simp: nth_upd_all split: if_splits)
  fix p assume w: "written_to_disk (?h ! c)" "parent_block_ptr (?h ! c) = Some p"
  have cp: "parent_block_ptr (h ! c) = Some p"
    using w(2) c by (simp add: nth_upd_all split: if_splits)
  then have p: "p < length h" using heap_wfD(3) [OF assms(1) c] by blast
  show "written_to_disk (?h ! p)"
  proof (cases "c \<in> ancestors h a")
    case True
    then have "p \<in> ancestors h a"
      using cp c p extends_trans [of h a c p] by (auto simp: ancestors_def intro: extends.intros)
    then show ?thesis using p by (simp add: nth_upd_all)
  next
    case False
    then have "written_to_disk (h ! p)" using wc cp w(1) c by (simp add: nth_upd_all)
    then show ?thesis using p by (simp add: nth_upd_all)
  qed
qed

text \<open>Whatever happens, a call that returns has only marked some blocks as written.\<close>

lemma write_to_disk_marks:
  "write_to_disk env info a h d = Inr (h', d') \<Longrightarrow> \<exists>S. h' = mark_written S h"
proof (induction env info a h d rule: write_to_disk.induct)
  case (1 env info a h d)
  let ?h = "upd_block a (\<lambda>b. b\<lparr>written_to_disk := True\<rparr>) h"
  have marks: "mark_written S ?h = mark_written (S \<union> {a}) h" for S
    by (simp add: upd_block_all upd_all_Un)
  have unfold: "write_to_disk env info a h d = Inr (h', d')" by (rule "1.prems")
  obtain b where b: "deref h a = Inr b"
    using unfold by (subst (asm) write_to_disk.simps) (auto split: sum.splits)
  show ?case
  proof (cases "written_to_disk b")
    case True
    then have "h' = mark_written {} h"
      using unfold b by (subst (asm) write_to_disk.simps) simp
    then show ?thesis by blast
  next
    case False
    obtain d1 where d1: "save_block env (wire_block b) info d = Inr d1"
      using unfold b False by (subst (asm) write_to_disk.simps) (auto split: sum.splits)
    show ?thesis
    proof (cases "parent_block_ptr b")
      case None
      then have "h' = mark_written {a} h"
        using unfold b False d1 by (subst (asm) write_to_disk.simps) (simp add: upd_block_all)
      then show ?thesis by blast
    next
      case (Some p)
      have "write_to_disk env info p ?h d1 = Inr (h', d')"
        using unfold b False d1 Some by (subst (asm) write_to_disk.simps) simp
      then obtain S where "h' = mark_written S ?h"
        using "1.IH" [OF b False d1 Some] by blast
      then show ?thesis using marks by blast
    qed
  qed
qed

text \<open>A block can be loaded by its hash, with the header it has in memory.\<close>

definition on_disk :: "('bv, 'db, 'tx) env \<Rightarrow> ReplicaInfo \<Rightarrow> block_heap \<Rightarrow> disk \<Rightarrow> block_addr \<Rightarrow> bool" where
  "on_disk env info h d c \<longleftrightarrow>
     (case load_block env (get_hash (h ! c)) info d of
        Inr (Some w) \<Rightarrow> header w = header (wire_block (h ! c))
      | _ \<Rightarrow> False)"

text \<open>
  C14 --- \<open>write_to_disk\<close> persists a whole chain. Called on a block of the store, it returns and marks
  exactly the block and its ancestors as written. Every ancestor that had not been written before
  can then be loaded by its hash with the header and the body it has in memory. If those marked as
  written before were on disk, then afterwards the block and all its ancestors are, except the
  genesis block, which is marked from the start and never gets a file. Files of all other blocks
  are untouched, and the property that lets the recursion stop at the first written block, that
  everything below a written block is written, is kept. All files can be opened.
\<close>

theorem write_to_disk_persists_chain:
  assumes "store_wf h bs" "block_cache bs hash = Some a" "hashes_ok env h" "written_closed h"
    and "xdr_laws env" "\<forall>f. fopen_for_writing_ok env f"
  shows "\<exists>d'. write_to_disk env info a h d = Inr (mark_written (ancestors h a) h, d') \<and>
    written_closed (mark_written (ancestors h a) h) \<and>
    (\<forall>c \<in> ancestors h a. \<not> written_to_disk (h ! c) \<longrightarrow>
       load_block env (get_hash (h ! c)) info d' = Inr (Some (wire_block (h ! c)))) \<and>
    ((\<forall>c \<in> ancestors h a. written_to_disk (h ! c) \<longrightarrow> parsed_qc (h ! c) \<noteq> None \<longrightarrow> on_disk env info h d c) \<longrightarrow>
       (\<forall>c \<in> ancestors h a. parsed_qc (h ! c) \<noteq> None \<longrightarrow> on_disk env info h d' c)) \<and>
    (\<forall>other. (\<forall>c \<in> ancestors h a. \<not> written_to_disk (h ! c) \<longrightarrow> get_hash (h ! c) \<noteq> other) \<longrightarrow>
       load_block env other info d' = load_block env other info d)"
proof -
  have a: "a < length h" "block_cache bs (get_hash (h ! a)) = Some a"
    using store_wfD(2,3) [OF assms(1,2)] assms(2) by simp_all
  have hw: "heap_wf h" using assms(1) by (rule store_wfD)
  note inj = ancestors_inj [OF assms(1) a(2)]
  obtain d' where d': "write_to_disk env info a h d = Inr (mark_written (ancestors h a) h, d')"
    "save_all env info h {c \<in> ancestors h a. \<not> written_to_disk (h ! c)} d d'"
    using write_to_disk_chain [OF hw assms(3) a(1) written_closed_below [OF assms(4)] inj assms(6)] by blast
  have new: "load_block env (get_hash (h ! c)) info d' = Inr (Some (wire_block (h ! c)))"
    if "c \<in> ancestors h a" "\<not> written_to_disk (h ! c)" for c
    using that d'(2) by (intro load_saved [OF assms(5)]) (simp add: save_all_def)
  have other: "load_block env other info d' = load_block env other info d"
    if "\<forall>c \<in> ancestors h a. \<not> written_to_disk (h ! c) \<longrightarrow> get_hash (h ! c) \<noteq> other" for other
    using that by (intro save_all_other [OF d'(2)]) simp
  have "on_disk env info h d' c" if c: "c \<in> ancestors h a" and old: "written_to_disk (h ! c) \<Longrightarrow> on_disk env info h d c" for c
  proof (cases "written_to_disk (h ! c)")
    case True
    then have "load_block env (get_hash (h ! c)) info d' = load_block env (get_hash (h ! c)) info d"
      using inj_onD [OF inj _ _ c] by (intro other) blast
    then show ?thesis using old [OF True] by (simp add: on_disk_def)
  qed (use new [OF c] in \<open>simp add: on_disk_def\<close>)
  then show ?thesis
    using d'(1) written_closed_mark [OF hw assms(4)] new other by (intro exI [of _ d']) blast
qed

definition demo_linked :: block_heap where
  "demo_linked = link_block 1 0 0 demo_heap"

definition demo_store_linked :: BlockStore where
  "demo_store_linked =
     demo_store\<lparr>block_cache := emplace (pad32 [1, 0]) 1 (block_cache demo_store)\<rparr>"

lemma demo_linked_wf: "store_wf demo_linked demo_store_linked"
  unfolding demo_linked_def
  by (rule link_block_store_wf [OF demo_store_wf(1), where qc = "new_QuorumCertificate zero_hash"])
    (simp_all add: demo_store_def demo_store_linked_def)

lemma demo_linked_fields:
  "length demo_linked = 2" "demo_linked ! 0 = new_HotstuffBlock_genesis"
  "demo_linked ! Suc 0 = demo_child\<lparr>parent_block_ptr := Some 0, block_height := 1,
     justify_block_ptr := Some 0\<rparr>"
  by (simp_all add: demo_linked_def link_block_def demo_heap_def)

lemma head_or_zero_hash [simp]: "head_or d zero_hash = 0"
proof -
  have z: "zero_hash = 0 # replicate 31 0"
    by (simp add: zero_hash_def flip: replicate_Suc)
  show ?thesis unfolding z head_or_def by simp
qed

lemma demo_child_hash:
  "hash_header demo_env (header (wire_block demo_child)) = Inr (pad32 [1, 0])"
  by (simp add: hash_header_def hash_xdr_def demo_env_def demo_child_def new_HotstuffBlock_genesis_def)

theorem write_to_disk_persists_chain_witness:
  "store_wf demo_linked demo_store_linked \<and>
   (\<exists>d'. write_to_disk demo_env (demo_info 0) 1 demo_linked Map.empty =
       Inr (mark_written (ancestors demo_linked 1) demo_linked, d') \<and>
     load_block demo_env (pad32 [1, 0]) (demo_info 0) d' = Inr (Some (wire_block demo_child)) \<and>
     on_disk demo_env (demo_info 0) demo_linked d' 1)"
proof -
  have hashes: "hashes_ok demo_env demo_linked"
    by (auto simp: hashes_ok_def demo_linked_fields less_two_cases demo_child_hash get_hash_def)
      (simp add: demo_child_def)
  have closed: "written_closed demo_linked"
    by (auto simp: written_closed_def demo_linked_fields less_two_cases)
  have cached: "block_cache demo_store_linked (pad32 [1, 0]) = Some 1"
    by (simp add: demo_store_linked_def emplace_def demo_store_def pad32_nonzero)
  have files: "\<forall>f. fopen_for_writing_ok demo_env f"
    by (simp add: demo_env_def)
  have one: "1 \<in> ancestors demo_linked 1" "\<not> written_to_disk (demo_linked ! 1)" "parsed_qc (demo_linked ! 1) \<noteq> None"
    "get_hash (demo_linked ! 1) = pad32 [1, 0]" "wire_block (demo_linked ! 1) = wire_block demo_child"
    by (simp_all add: ancestors_def extends_refl demo_linked_fields demo_child_def get_hash_def)
  have old: "c \<in> ancestors demo_linked 1 \<Longrightarrow> written_to_disk (demo_linked ! c) \<Longrightarrow> parsed_qc (demo_linked ! c) = None" for c
    using one(2) by (cases "c = 1") (auto simp: ancestors_def demo_linked_fields less_two_cases dest!: extends_addr
        simp: new_HotstuffBlock_genesis_def)
  show ?thesis
    using write_to_disk_persists_chain [OF demo_linked_wf cached hashes closed demo_xdr_laws files, of "demo_info 0" Map.empty]
      demo_linked_wf one old by (metis (no_types, lifting))
qed

theorem save_load_block_witness:
  "\<exists>d'. save_block demo_env (wire_block demo_child) (demo_info 0) Map.empty = Inr d' \<and>
     load_block demo_env (pad32 [1, 0]) (demo_info 0) d' = Inr (Some (wire_block demo_child)) \<and>
     load_block demo_env (pad32 [2]) (demo_info 0) d' = Inr None"
proof -
  have ne: "pad32 [2] \<noteq> pad32 [1, 0]" by (simp add: pad32_def)
  obtain d' where d': "save_block demo_env (wire_block demo_child) (demo_info 0) Map.empty = Inr d'"
    using demo_child_hash by (simp add: save_block_def save_xdr_to_file_def demo_env_def)
  have "load_block demo_env (pad32 [2]) (demo_info 0) Map.empty = Inr None"
    by (simp add: load_block_def load_xdr_from_file_def)
  then show ?thesis
    using save_load_block [OF demo_xdr_laws demo_child_hash d'] d' ne by auto
qed

end
