(* ===== verification/CoreSteps.thy ===== *)
theory CoreSteps
  imports Consensus Persist
begin

text \<open>
  What each handler of the consensus core does: the loops end, the voting rule, the lock, the
  commit rule, and the errors. The virtual methods are constrained only by the contract
  \<open>core_contract\<close>, that they do not touch the state of the core.
\<close>

section \<open>The loops along parent pointers\<close>

text \<open>
  On a well-formed heap the loop ends without dereferencing a null pointer. It stops at an
  ancestor whose height is at most the bound, has visited exactly the blocks above it, and if it
  has visited any block then the stop is exactly at the bound.
\<close>

lemma descend_ends:
  assumes "heap_wf h" "a < length h"
  obtains b vs where "descend h height a acc = Some (Inr (b, vs @ acc))" "linked_from h b vs a"
    "b < length h" "block_height (h ! b) \<le> height" "\<forall>v \<in> set vs. height < block_height (h ! v)"
    "vs \<noteq> [] \<Longrightarrow> block_height (h ! b) = height"
  using assms(2)
proof (induction "unat (block_height (h ! a))" arbitrary: a acc thesis rule: less_induct)
  case (less a acc)
  have dr: "deref h a = Inr (h ! a)" using less.prems(2) by (simp add: deref_def)
  show ?case
  proof (cases "block_height (h ! a) > height")
    case False
    then show ?thesis
      using less.prems(1) [of a "[]"] less.prems(2) dr by (simp add: descend.simps)
  next
    case True
    then obtain p where p: "parent_block_ptr (h ! a) = Some p"
      using heap_wfD(2) [OF assms(1) less.prems(2)] by fastforce
    have pl: "p < length h" "unat (block_height (h ! a)) = Suc (unat (block_height (h ! p)))"
      using heap_wfD(3,5) [OF assms(1) less.prems(2) p] .
    then obtain b vs where b: "descend h height p (a # acc) = Some (Inr (b, vs @ a # acc))"
      "linked_from h b vs p" "b < length h" "block_height (h ! b) \<le> height"
      "\<forall>v \<in> set vs. height < block_height (h ! v)"
      "vs \<noteq> [] \<Longrightarrow> block_height (h ! b) = height"
      using less.hyps [of p "a # acc"] by auto
    have exact: "block_height (h ! b) = height" if "vs = []"
    proof -
      have "b = p" using b(2) that by simp
      then have "unat height \<le> unat (block_height (h ! b))"
        using True pl(2) by (simp add: word_less_nat_alt)
      then show ?thesis using b(4) by (simp add: word_le_nat_alt word_unat_eq_iff)
    qed
    have "descend h height a acc = Some (Inr (b, (vs @ [a]) @ acc))"
      using b(1) dr True p by (subst descend.simps) simp
    moreover have "linked_from h b (vs @ [a]) a"
      using b(2) p less.prems(2) by (auto simp: linked_from_snoc)
    ultimately show ?thesis
      using less.prems(1) [of b "vs @ [a]"] b True exact by auto
  qed
qed

lemma descend_ancestor:
  assumes "heap_wf h" "a < length h" "l < length h" "block_height (h ! l) \<le> block_height (h ! a)"
  obtains b vs where "descend h (block_height (h ! l)) a [] = Some (Inr (b, vs))"
    "linked_from h b vs a" "b < length h" "b = l \<longleftrightarrow> extends h a l"
proof -
  obtain b vs where b: "descend h (block_height (h ! l)) a [] = Some (Inr (b, vs @ []))"
    "linked_from h b vs a" "b < length h" "block_height (h ! b) \<le> block_height (h ! l)"
    "vs \<noteq> [] \<Longrightarrow> block_height (h ! b) = block_height (h ! l)"
    using descend_ends [OF assms(1,2)] by metis
  have "block_height (h ! b) = block_height (h ! l)"
    using b(2,4,5) assms(4) by (cases vs) auto
  moreover have "extends h a b" using b(2,3) by (rule linked_from_extends)
  ultimately have "b = l \<longleftrightarrow> extends h a l"
    using extends_unique [OF assms(1)] by auto
  then show thesis using that b(1-3) by simp
qed

section \<open>The voting rule\<close>

text \<open>
  The rule of the protocol: vote for a block above everything voted for so far if its justify
  block is above the lock, or if it extends the lock.
\<close>

definition safe_to_vote :: "('db, 'm) HotstuffCore_scheme \<Rightarrow> block_addr \<Rightarrow> bool" where
  "safe_to_vote st bnew \<longleftrightarrow>
     ucast (vheight st) < block_height (heap st ! bnew) \<and>
     ((\<exists>j. justify_block_ptr (heap st ! bnew) = Some j \<and>
         block_height (heap st ! b_lock st) < block_height (heap st ! j)) \<or>
      extends (heap st) bnew (b_lock st))"

lemma proposal_opinion_eq:
  assumes wf: "heap_wf (heap st)" and b: "bnew < length (heap st)" and l: "b_lock st < length (heap st)"
  shows "proposal_opinion bnew st = Inr (safe_to_vote st bnew)"
proof (cases "ucast (vheight st) < block_height (heap st ! bnew)")
  case False
  then show ?thesis using b by (simp add: proposal_opinion_def deref_def safe_to_vote_def)
next
  case True
  then have "block_height (heap st ! bnew) \<noteq> 0" by auto
  then obtain j where j: "justify_block_ptr (heap st ! bnew) = Some j"
    using heap_wfD(1,2) [OF wf b] by fastforce
  have jl: "j < length (heap st)" using heap_wfD(6) [OF wf b j] .
  show ?thesis
  proof (cases "block_height (heap st ! b_lock st) < block_height (heap st ! j)")
    case True
    then show ?thesis
      using \<open>ucast (vheight st) < _\<close> b l j jl
      by (simp add: proposal_opinion_def deref_def safe_to_vote_def)
  next
    case False
    show ?thesis
    proof (cases "block_height (heap st ! b_lock st) \<le> block_height (heap st ! bnew)")
      case low: True
      obtain b' vs where "descend (heap st) (block_height (heap st ! b_lock st)) bnew [] = Some (Inr (b', vs))"
        "b' = b_lock st \<longleftrightarrow> extends (heap st) bnew (b_lock st)"
        using descend_ancestor [OF wf b l low] by metis
      then show ?thesis
        using True False b l j jl
        by (simp add: proposal_opinion_def deref_def safe_to_vote_def loop_result_def)
    next
      case high: False
      then have ne: "bnew \<noteq> b_lock st" "\<not> extends (heap st) bnew (b_lock st)"
        using extends_height [OF _ wf] by auto
      have "\<not> block_height (heap st ! b_lock st) < block_height (heap st ! bnew)"
        using high by (meson less_imp_le)
      then have "descend (heap st) (block_height (heap st ! b_lock st)) bnew [] = Some (Inr (bnew, []))"
        using b by (subst descend.simps) (simp add: deref_def)
      then show ?thesis
        using True False b l j jl ne
        by (simp add: proposal_opinion_def deref_def safe_to_vote_def loop_result_def)
    qed
  qed
qed

section \<open>The contract of the virtual methods\<close>

text \<open>The fields of the core; a virtual method of an application leaves all of them alone.\<close>

definition same_core ::
  "('db, 'm) HotstuffCore_scheme \<Rightarrow> ('db, 'm) HotstuffCore_scheme \<Rightarrow> bool" where
  "same_core st st' \<longleftrightarrow>
     heap st' = heap st \<and> files st' = files st \<and> genesis st' = genesis st \<and> hqc st' = hqc st \<and>
     b_lock st' = b_lock st \<and> b_exec st' = b_exec st \<and> vheight st' = vheight st \<and>
     self_id st' = self_id st \<and> config st' = config st \<and> b_leaf st' = b_leaf st \<and>
     decided_hash_index st' = decided_hash_index st"

lemma same_core_refl [simp, intro]: "same_core st st"
  by (simp add: same_core_def)

lemma same_core_trans: "same_core st st' \<Longrightarrow> same_core st' st'' \<Longrightarrow> same_core st st''"
  by (simp add: same_core_def)

abbreviation decide_all :: "block_addr set \<Rightarrow> block_heap \<Rightarrow> block_heap" where
  "decide_all \<equiv> upd_all (\<lambda>b. b\<lparr>decided := True\<rparr>)"

lemma same_links_decide [simp, intro]: "same_links h (decide_all S h)"
  by (rule same_links_upd_all) (simp add: links_def get_hash_def)

text \<open>What a vote adds to a block leaves its place in the tree alone.\<close>

lemma same_links_self_qc:
  assumes "a < length h" "obj_hash qc = get_hash (h ! a)"
  shows "same_links h (upd_block a (\<lambda>b. b\<lparr>self_qc := qc\<rparr>) h)"
  using assms by (intro same_links_upd) (simp_all add: links_def get_hash_def)

section \<open>The effect of an update\<close>

text \<open>Three blocks in a row, each the direct parent of the next and certified by it.\<close>

definition three_chain :: "block_heap \<Rightarrow> block_addr \<Rightarrow> block_addr \<Rightarrow> block_addr \<Rightarrow> bool" where
  "three_chain h blk2 blk1 blk \<longleftrightarrow>
     justify_block_ptr (h ! blk2) = Some blk1 \<and> parent_block_ptr (h ! blk2) = Some blk1 \<and>
     justify_block_ptr (h ! blk1) = Some blk \<and> parent_block_ptr (h ! blk1) = Some blk"

text \<open>
  The commit: either nothing is decided, or \<open>blk\<close> is at the bottom of a three-chain, extends the
  last executed block, and exactly the blocks between the two become decided.
\<close>

definition commit_effect ::
  "block_heap \<Rightarrow> block_addr \<Rightarrow> block_addr option \<Rightarrow> block_addr list \<Rightarrow> block_addr \<Rightarrow> bool" where
  "commit_effect h ex blk2 vs ex' \<longleftrightarrow>
     (vs = [] \<and> ex' = ex) \<or>
     (\<exists>b2 blk1. blk2 = Some b2 \<and> three_chain h b2 blk1 ex' \<and> \<not> decided (h ! b2) \<and>
        \<not> decided (h ! blk1) \<and> \<not> decided (h ! ex') \<and> linked_from h ex vs ex' \<and>
        ex < length h \<and> (\<forall>v \<in> set vs. block_height (h ! ex) < block_height (h ! v)))"

text \<open>
  The lock moves only up, to the block two justify pointers behind the new block, and it reaches
  at least the height of that block unless one of the two is decided.
\<close>

definition lock_effect :: "block_heap \<Rightarrow> block_addr \<Rightarrow> block_addr option \<Rightarrow> block_addr \<Rightarrow> bool" where
  "lock_effect h l blk2 l' \<longleftrightarrow>
     (l' = l \<or> (\<exists>b2. blk2 = Some b2 \<and> \<not> decided (h ! b2) \<and> justify_block_ptr (h ! b2) = Some l' \<and>
        l' < length h \<and> block_height (h ! l) < block_height (h ! l'))) \<and>
     (\<forall>b2 b1. blk2 = Some b2 \<longrightarrow> \<not> decided (h ! b2) \<longrightarrow> justify_block_ptr (h ! b2) = Some b1 \<longrightarrow>
        \<not> decided (h ! b1) \<longrightarrow> block_height (h ! b1) \<le> block_height (h ! l'))"

definition hqc_effect ::
  "('bv, 'db, 'tx) env \<Rightarrow> ('db, 'm) HotstuffCore_scheme \<Rightarrow> block_addr \<Rightarrow> QuorumCertificate \<Rightarrow>
   ('db, 'm) HotstuffCore_scheme \<Rightarrow> bool" where
  "hqc_effect env st q qc st' \<longleftrightarrow>
     (if block_height (heap st ! fst (hqc st)) < block_height (heap st ! q)
      then hqc st' = (q, serialize env qc) \<and> b_leaf st' = q
      else hqc st' = hqc st \<and> b_leaf st' = b_leaf st)"

definition update_effect ::
  "('bv, 'db, 'tx) env \<Rightarrow> block_addr \<Rightarrow> ('db, 'm) HotstuffCore_scheme \<Rightarrow>
   ('db, 'm) HotstuffCore_scheme \<Rightarrow> bool" where
  "update_effect env nblk st st' \<longleftrightarrow>
     (\<exists>S vs. heap st' = decide_all (set vs) (mark_written S (heap st)) \<and>
        commit_effect (heap st) (b_exec st) (justify_block_ptr (heap st ! nblk)) vs (b_exec st')) \<and>
     lock_effect (heap st) (b_lock st) (justify_block_ptr (heap st ! nblk)) (b_lock st') \<and>
     (hqc st' = hqc st \<and> b_leaf st' = b_leaf st \<or>
      (\<exists>blk2 qc. justify_block_ptr (heap st ! nblk) = Some blk2 \<and> blk2 < length (heap st) \<and>
         parsed_qc (heap st ! nblk) = Some qc \<and> hqc_effect env st blk2 qc st')) \<and>
     vheight st' = vheight st \<and> self_id st' = self_id st \<and> config st' = config st \<and>
     genesis st' = genesis st"

text \<open>The effect of the second half of \<open>update\<close>, which follows \<open>blk2\<close>.\<close>

definition update_lock_rel ::
  "block_addr \<Rightarrow> ('db, 'm) HotstuffCore_scheme \<Rightarrow> ('db, 'm) HotstuffCore_scheme \<Rightarrow> bool" where
  "update_lock_rel blk2 st st' \<longleftrightarrow>
     (\<exists>S vs. same_core
        (st\<lparr>heap := decide_all (set vs) (mark_written S (heap st)), b_lock := b_lock st',
            files := files st', b_exec := b_exec st', decided_hash_index := decided_hash_index st'\<rparr>) st' \<and>
        commit_effect (heap st) (b_exec st) (Some blk2) vs (b_exec st')) \<and>
     lock_effect (heap st) (b_lock st) (Some blk2) (b_lock st')"

lemma same_links_decide_mark [simp, intro]:
  "same_links h (decide_all T (mark_written S h))"
  by (rule same_links_trans [OF same_links_mark same_links_decide])

lemma mark_written_fields [simp]:
  "a < length h \<Longrightarrow> decided (mark_written S h ! a) = decided (h ! a)"
  "a < length h \<Longrightarrow> justify_block_ptr (mark_written S h ! a) = justify_block_ptr (h ! a)"
  "a < length h \<Longrightarrow> parent_block_ptr (mark_written S h ! a) = parent_block_ptr (h ! a)"
  "a < length h \<Longrightarrow> block_height (mark_written S h ! a) = block_height (h ! a)"
  by (simp_all add: nth_upd_all)

lemma linked_from_mark [simp]: "linked_from (mark_written S h) b vs a = linked_from h b vs a"
  by (induction vs arbitrary: b) (simp_all cong: conj_cong)

lemma commit_effect_mark:
  assumes eff: "commit_effect (mark_written S h) e (Some b2) vs e'"
    and wf: "heap_wf h" and b2: "b2 < length h"
  shows "commit_effect h e (Some b2) vs e'"
proof (cases "vs = [] \<and> e' = e")
  case True
  then show ?thesis by (simp add: commit_effect_def)
next
  case False
  then obtain b1 where tc: "three_chain (mark_written S h) b2 b1 e'"
    and nd: "\<not> decided (mark_written S h ! b2)" "\<not> decided (mark_written S h ! b1)"
      "\<not> decided (mark_written S h ! e')"
    and l: "linked_from h e vs e'" and e: "e < length h"
    and up: "\<forall>v \<in> set vs. block_height (mark_written S h ! e) < block_height (mark_written S h ! v)"
    using eff by (auto simp: commit_effect_def)
  have b1: "b1 < length h" using tc b2 heap_wfD(6) [OF wf b2] by (auto simp: three_chain_def)
  then have e': "e' < length h" using tc heap_wfD(6) [OF wf b1] by (auto simp: three_chain_def)
  have "v < length h" if "v \<in> set vs" for v using linked_from_members [OF l that] by blast
  then show ?thesis using tc nd l e up b1 b2 e' by (auto simp: commit_effect_def three_chain_def)
qed

locale core_contract =
  fixes vt :: "('tx, ('db, 'm) HotstuffCore_scheme) core_virtuals"
  assumes do_vote_core: "do_vote vt b r st = Inr st' \<Longrightarrow> same_core st st'"
    and on_new_qc_core: "on_new_qc vt hash st = Inr st' \<Longrightarrow> same_core st st'"
    and apply_block_core: "apply_block vt b txn st = Inr (txn', st') \<Longrightarrow> same_core st st'"
    and commitment_core: "notify_vm_of_commitment vt b st = Inr st' \<Longrightarrow> same_core st st'"
    and nonself_core: "notify_vm_of_qc_on_nonself_block vt b st = Inr st' \<Longrightarrow> same_core st st'"
    and prune_core: "notify_ok_to_prune_blocks vt height st = Inr st' \<Longrightarrow> same_core st st'"
begin

lemma update_hqc_effect:
  assumes "update_hqc vt env q qc st = Inr st'"
  shows "q < length (heap st)" and "fst (hqc st) < length (heap st)"
    and "\<not> block_height (heap st ! fst (hqc st)) < block_height (heap st ! q) \<Longrightarrow> st' = st"
    and "block_height (heap st ! fst (hqc st)) < block_height (heap st ! q) \<Longrightarrow>
      same_core (st\<lparr>hqc := (q, serialize env qc), b_leaf := q\<rparr>) st'"
  using assms nonself_core
  by (auto simp: update_hqc_def deref_def Let_def split: if_splits)

lemma commit_one_effect:
  assumes "commit_one vt b (txn, st) = Inr (txn', st')"
  shows "b < length (heap st)" and "same_core (st\<lparr>heap := decide_all {b} (heap st)\<rparr>) st'"
proof -
  obtain st1 txn1 where "b < length (heap st)"
    and apply_b: "apply_block vt b txn (st\<lparr>heap := decide_all {b} (heap st)\<rparr>) = Inr (txn1, st1)"
    and notify: "notify_vm_of_commitment vt b st1 = Inr st'"
    using assms by (auto simp: commit_one_def decide_def deref_def upd_block_all elim!: bindE_InrE
        split: if_splits)
  then show "b < length (heap st)" by simp
  show "same_core (st\<lparr>heap := decide_all {b} (heap st)\<rparr>) st'"
    using apply_block_core [OF apply_b] commitment_core [OF notify] by (rule same_core_trans)
qed

lemma commit_loop_effect:
  "foldE (commit_one vt) bs (txn, st) = Inr (txn', st') \<Longrightarrow>
     same_core (st\<lparr>heap := decide_all (set bs) (heap st)\<rparr>) st'"
proof (induction bs arbitrary: txn st)
  case Nil
  then show ?case by simp
next
  case (Cons b bs)
  then obtain txn1 st1 where one: "commit_one vt b (txn, st) = Inr (txn1, st1)"
    and rest: "foldE (commit_one vt) bs (txn1, st1) = Inr (txn', st')" by auto
  have "upd_all (\<lambda>b. b\<lparr>decided := True\<rparr>) (set bs) (decide_all {b} (heap st)) =
      decide_all (set (b # bs)) (heap st)"
    by (simp add: upd_all_Un)
  then show ?case
    using Cons.IH [OF rest] commit_one_effect(2) [OF one] by (simp add: same_core_def)
qed

lemma update_commit_effect:
  assumes "update_commit vt env blk1 blk st = Inr st'" "heap_wf (heap st)" "blk < length (heap st)"
  obtains vs where "linked_from (heap st) (b_exec st) vs blk" "b_exec st < length (heap st)"
    "\<forall>v \<in> set vs. block_height (heap st ! b_exec st) < block_height (heap st ! v)"
    "same_core (st\<lparr>heap := decide_all (set vs) (heap st), b_exec := blk,
       decided_hash_index := decided_hash_index st'\<rparr>) st'"
proof -
  have e: "b_exec st < length (heap st)"
    using assms(1) by (auto simp: update_commit_def deref_def split: if_splits)
  obtain b vs where d: "descend (heap st) (block_height (heap st ! b_exec st)) blk [] = Some (Inr (b, vs @ []))"
    "linked_from (heap st) b vs blk"
    "\<forall>v \<in> set vs. block_height (heap st ! b_exec st) < block_height (heap st ! v)"
    by (rule descend_ends [OF assms(2,3), of "block_height (heap st ! b_exec st)" "[]"])
  obtain txn1 st1 qc1 db where b: "b = b_exec st"
    and loop: "foldE (commit_one vt) vs (open_txn env (decided_hash_index st), st) = Inr (txn1, st1)"
    and prune: "notify_ok_to_prune_blocks vt (block_height (heap st1 ! blk))
      (st1\<lparr>b_exec := blk, decided_hash_index := db\<rparr>) = Inr st'"
    using assms(1) d(1) e
    by (auto simp: update_commit_def finish_commit_def deref_def loop_result_def Let_def elim!: bindE_InrE
        split: if_splits)
  show thesis
    using that [of vs] d b e commit_loop_effect [OF loop] prune_core [OF prune]
    by (simp add: same_core_def)
qed

lemma update_try_commit_effect:
  assumes upd: "update_try_commit vt env blk2 blk1 st = Inr st'" and wf: "heap_wf (heap st)"
    and j: "justify_block_ptr (heap st ! blk2) = Some blk1"
    and nd: "\<not> decided (heap st ! blk2)" "\<not> decided (heap st ! blk1)"
  obtains vs where "commit_effect (heap st) (b_exec st) (Some blk2) vs (b_exec st')"
    "same_core (st\<lparr>heap := decide_all (set vs) (heap st), b_exec := b_exec st',
       decided_hash_index := decided_hash_index st'\<rparr>) st'"
proof (cases "st' = st")
  case True
  then show thesis
    using that [of "[]"] by (simp add: commit_effect_def same_core_def)
next
  case False
  have b1: "blk1 < length (heap st)"
    using upd by (auto simp: update_try_commit_def deref_def split: if_splits)
  obtain blk where blk: "justify_block_ptr (heap st ! blk1) = Some blk"
    and nd': "\<not> decided (heap st ! blk)" and p: "parent_block_ptr (heap st ! blk2) = Some blk1"
    "parent_block_ptr (heap st ! blk1) = Some blk"
    and com: "update_commit vt env blk1 blk st = Inr st'"
    using upd b1 False by (auto simp: update_try_commit_def deref_def elim!: bindE_InrE
        split: if_splits option.splits)
  have bl: "blk < length (heap st)" using heap_wfD(6) [OF wf b1 blk] .
  obtain vs where vs: "linked_from (heap st) (b_exec st) vs blk" "b_exec st < length (heap st)"
    "\<forall>v \<in> set vs. block_height (heap st ! b_exec st) < block_height (heap st ! v)"
    "same_core (st\<lparr>heap := decide_all (set vs) (heap st), b_exec := blk,
       decided_hash_index := decided_hash_index st'\<rparr>) st'"
    by (rule update_commit_effect [OF com wf bl])
  have "b_exec st' = blk" using vs(4) by (simp add: same_core_def)
  then show thesis
    using that [of vs] vs j blk nd nd' p by (simp add: commit_effect_def three_chain_def)
qed

lemma update_lock_effect:
  assumes upd: "update_lock vt env blk2 st = Inr st'" and wf: "heap_wf (heap st)"
    and nd: "\<not> decided (heap st ! blk2)"
  shows "update_lock_rel blk2 st st'"
proof (cases "st' = st \<and> (\<forall>b1. justify_block_ptr (heap st ! blk2) = Some b1 \<longrightarrow> decided (heap st ! b1))")
  case True
  then show ?thesis
    by (auto simp: update_lock_rel_def commit_effect_def lock_effect_def same_core_def
        intro!: exI [of _ "{}"] exI [of _ "[]"])
next
  case nontriv: False
  let ?h = "heap st"
  have b2: "blk2 < length ?h"
    using upd by (auto simp: update_lock_def deref_def split: if_splits)
  obtain blk1 where blk1: "justify_block_ptr (?h ! blk2) = Some blk1" "\<not> decided (?h ! blk1)"
    using upd b2 nontriv by (auto simp: update_lock_def deref_def split: if_splits option.splits)
  have b1: "blk1 < length ?h" using heap_wfD(6) [OF wf b2 blk1(1)] .
  define st1 where "st1 = (if block_height (?h ! blk1) > block_height (?h ! b_lock st)
    then st\<lparr>b_lock := blk1\<rparr> else st)"
  have st1: "heap st1 = ?h" "files st1 = files st" "b_exec st1 = b_exec st"
    by (simp_all add: st1_def)
  obtain info h1 d1 where w: "write_to_disk env info (b_lock st1) ?h (files st) = Inr (h1, d1)"
    and tc: "update_try_commit vt env blk2 blk1 (st1\<lparr>heap := h1, files := d1\<rparr>) = Inr st'"
    using upd b2 b1 blk1
    by (auto simp: update_lock_def deref_def Let_def st1_def elim!: bindE_InrE split: if_splits)
  obtain S where S: "h1 = mark_written S ?h" using write_to_disk_marks [OF w] by blast
  let ?st = "st1\<lparr>heap := h1, files := d1\<rparr>"
  have wf': "heap_wf (heap ?st)" using same_links_wf [OF same_links_mark wf] S by simp
  obtain vs where vs: "commit_effect h1 (b_exec st) (Some blk2) vs (b_exec st')"
    "same_core (?st\<lparr>heap := decide_all (set vs) h1, b_exec := b_exec st',
       decided_hash_index := decided_hash_index st'\<rparr>) st'"
    using update_try_commit_effect [OF tc wf'] b1 b2 blk1 nd S st1 by auto
  have "lock_effect ?h (b_lock st) (Some blk2) (b_lock st1)"
    using b1 blk1 nd by (auto simp: lock_effect_def st1_def)
  moreover have "b_lock st' = b_lock st1" using vs(2) by (simp add: same_core_def)
  moreover have "commit_effect ?h (b_exec st) (Some blk2) vs (b_exec st')"
    using commit_effect_mark [OF _ wf b2] vs(1) S by blast
  ultimately show ?thesis
    using vs(2) S unfolding update_lock_rel_def
    by (auto simp: same_core_def st1_def intro!: exI [of _ S] exI [of _ vs])
qed

lemma update_effect_holds:
  assumes upd: "update vt env nblk st = Inr st'" and wf: "heap_wf (heap st)"
  shows "nblk < length (heap st)" and "update_effect env nblk st st'"
proof -
  let ?h = "heap st"
  show n: "nblk < length ?h" using upd by (auto simp: update_def deref_def split: if_splits)
  show "update_effect env nblk st st'"
  proof (cases "\<exists>blk2. justify_block_ptr (?h ! nblk) = Some blk2 \<and> \<not> decided (?h ! blk2)")
    case False
    then have "st' = st" using upd n by (auto simp: update_def deref_def elim!: bindE_InrE
          split: option.splits if_splits)
    then show ?thesis using False by (auto simp: update_effect_def commit_effect_def lock_effect_def
          intro!: exI [of _ "{}"] exI [of _ "[]"])
  next
    case True
    then obtain blk2 where j: "justify_block_ptr (?h ! nblk) = Some blk2" "\<not> decided (?h ! blk2)" by blast
    obtain qc st1 where qc: "get_justify_qc (?h ! nblk) = Inr qc"
      and hq: "update_hqc vt env blk2 qc st = Inr st1" and lk: "update_lock vt env blk2 st1 = Inr st'"
      using upd n j by (auto simp: update_def deref_def elim!: bindE_InrE split: if_splits)
    have eff: "hqc_effect env st blk2 qc st1" and same: "heap st1 = ?h" "b_exec st1 = b_exec st"
      "b_lock st1 = b_lock st" "vheight st1 = vheight st" "self_id st1 = self_id st"
      "config st1 = config st" "genesis st1 = genesis st"
      using update_hqc_effect(3,4) [OF hq]
      by (cases "block_height (?h ! fst (hqc st)) < block_height (?h ! blk2)";
          simp add: same_core_def hqc_effect_def)+
    have "update_lock_rel blk2 st1 st'"
      using update_lock_effect [OF lk] wf j(2) same(1) by simp
    moreover from this have "hqc st' = hqc st1" "b_leaf st' = b_leaf st1"
      by (auto simp: update_lock_rel_def same_core_def)
    moreover have "parsed_qc (?h ! nblk) = Some qc"
      using qc by (simp add: get_justify_qc_def split: option.splits)
    ultimately show ?thesis
      using eff same j update_hqc_effect(1) [OF hq]
      by (auto simp: update_effect_def update_lock_rel_def same_core_def hqc_effect_def)
  qed
qed

text \<open>A proposal: the vote first, if the rule allows one, then the update.\<close>

lemma on_receive_proposal_effect:
  assumes "on_receive_proposal vt env bnew rid st = Inr st'" "heap_wf (heap st)"
    "b_lock st < length (heap st)"
  obtains st1 where "bnew < length (heap st)" "same_core (if safe_to_vote st bnew
      then st\<lparr>vheight := ucast (block_height (heap st ! bnew))\<rparr> else st) st1"
    "update_effect env bnew st1 st'"
proof -
  obtain st1 where b: "bnew < length (heap st)" and upd: "update vt env bnew st1 = Inr st'"
    and vote: "(if safe_to_vote st bnew
      then do_vote vt bnew rid (st\<lparr>vheight := ucast (block_height (heap st ! bnew))\<rparr>) else Inr st) = Inr st1"
  proof -
    obtain op st1 where op: "proposal_opinion bnew st = Inr op" and st1: "(if op then bindE (deref (heap st) bnew)
        (\<lambda>nb. do_vote vt bnew rid (st\<lparr>vheight := ucast (block_height nb)\<rparr>)) else Inr st) = Inr st1"
      and u: "update vt env bnew st1 = Inr st'"
      using assms(1) by (auto simp: on_receive_proposal_def proposal_vote_def elim!: bindE_InrE)
    then have b: "bnew < length (heap st)"
      by (auto simp: proposal_opinion_def deref_def split: if_splits)
    then have "op = safe_to_vote st bnew" using proposal_opinion_eq assms(2,3) op by fastforce
    then show thesis using that [of st1] b st1 u by (auto simp: deref_def)
  qed
  have sc: "same_core (if safe_to_vote st bnew
      then st\<lparr>vheight := ucast (block_height (heap st ! bnew))\<rparr> else st) st1"
    using vote do_vote_core by (auto split: if_splits)
  then have "heap st1 = heap st" by (auto simp: same_core_def split: if_splits)
  then show thesis using that b sc update_effect_holds(2) [OF upd] assms(2) by simp
qed

text \<open>A vote changes the certificate of one block, and when it completes a quorum the highest one.\<close>

lemma on_receive_vote_effect:
  assumes "on_receive_vote vt env pc b r st = Inr st'"
  obtains qc st1 where "b < length (heap st)" "add_partial_certificate r pc (self_qc (heap st ! b)) = Inr qc"
    "same_core (st1\<lparr>heap := upd_block b (\<lambda>x. x\<lparr>self_qc := qc\<rparr>) (heap st)\<rparr>) st'"
    "heap st1 = heap st" "st1 = st \<or> has_quorum (config st) qc \<and>
       block_height (heap st ! fst (hqc st)) < block_height (heap st ! b) \<and>
       st1 = st\<lparr>hqc := (b, serialize env qc), b_leaf := b\<rparr>"
proof -
  let ?h = "\<lambda>qc. upd_block b (\<lambda>x. x\<lparr>self_qc := qc\<rparr>) (heap st)"
  have b: "b < length (heap st)"
    using assms by (auto simp: on_receive_vote_def deref_def split: if_splits)
  obtain qc where qc: "add_partial_certificate r pc (self_qc (heap st ! b)) = Inr qc"
    and rest: "has_quorum (config st) qc \<and> (\<exists>st2. update_hqc vt env b qc (st\<lparr>heap := ?h qc\<rparr>) = Inr st2 \<and>
        on_new_qc vt (get_hash (heap st ! b)) st2 = Inr st') \<or> st' = st\<lparr>heap := ?h qc\<rparr>"
    using assms b by (auto simp: on_receive_vote_def deref_def Let_def elim!: bindE_InrE split: if_splits)
  have ht: "block_height (?h qc ! x) = block_height (heap st ! x)" for x
    using b by (cases "x = b") (simp_all add: upd_block_def)
  from rest show thesis
  proof
    assume "st' = st\<lparr>heap := ?h qc\<rparr>"
    then show thesis using that [OF b qc, of st] by simp
  next
    assume "has_quorum (config st) qc \<and> (\<exists>st2. update_hqc vt env b qc (st\<lparr>heap := ?h qc\<rparr>) = Inr st2 \<and>
        on_new_qc vt (get_hash (heap st ! b)) st2 = Inr st')"
    then obtain st2 where quo: "has_quorum (config st) qc"
      and hq: "update_hqc vt env b qc (st\<lparr>heap := ?h qc\<rparr>) = Inr st2"
      and nq: "on_new_qc vt (get_hash (heap st ! b)) st2 = Inr st'" by blast
    show thesis
    proof (cases "block_height (heap st ! fst (hqc st)) < block_height (heap st ! b)")
      case True
      then have "same_core (st\<lparr>heap := ?h qc, hqc := (b, serialize env qc), b_leaf := b\<rparr>) st2"
        using update_hqc_effect(4) [OF hq] ht by simp
      then show thesis
        using that [OF b qc, of "st\<lparr>hqc := (b, serialize env qc), b_leaf := b\<rparr>"]
          on_new_qc_core [OF nq] True quo by (simp add: same_core_def)
    next
      case False
      then have "st2 = st\<lparr>heap := ?h qc\<rparr>" using update_hqc_effect(3) [OF hq] ht by simp
      then show thesis using that [OF b qc, of st] on_new_qc_core [OF nq] by simp
    qed
  qed
qed

end

end
