(* ===== verification/CoreInv.thy ===== *)
theory CoreInv
  imports CoreSteps
begin

text \<open>
  The invariant of the consensus core and the order its state moves in. All pointers lead into
  the heap, the decided blocks are ancestors of the last executed block, the lock is at least
  as high as the last executed block, and the highest certificate is one for the highest
  certified block. Every handler keeps the invariant, never lowers the lock,
  the highest certified block or the executed block, and never undoes a decision.
\<close>

section \<open>Definitions\<close>

definition core_wf :: "('db, 'm) HotstuffCore_scheme \<Rightarrow> bool" where
  "core_wf st \<longleftrightarrow>
     heap_wf (heap st) \<and> rooted (heap st) (genesis st) \<and> rooted (heap st) (fst (hqc st)) \<and>
     rooted (heap st) (b_lock st) \<and> rooted (heap st) (b_exec st) \<and> rooted (heap st) (b_leaf st)"

definition core_inv :: "('db, 'm) HotstuffCore_scheme \<Rightarrow> bool" where
  "core_inv st \<longleftrightarrow>
     core_wf st \<and>
     (\<forall>a < length (heap st). decided (heap st ! a) \<longrightarrow> extends (heap st) (b_exec st) a) \<and>
     block_height (heap st ! b_exec st) \<le> block_height (heap st ! b_lock st) \<and>
     justify (snd (hqc st)) = get_hash (heap st ! fst (hqc st))"

definition core_le :: "('db, 'm) HotstuffCore_scheme \<Rightarrow> ('db, 'm) HotstuffCore_scheme \<Rightarrow> bool" where
  "core_le st st' \<longleftrightarrow>
     same_links (heap st) (heap st') \<and>
     (\<forall>a < length (heap st). decided (heap st ! a) \<longrightarrow> decided (heap st' ! a)) \<and>
     block_height (heap st ! b_lock st) \<le> block_height (heap st ! b_lock st') \<and>
     block_height (heap st ! fst (hqc st)) \<le> block_height (heap st ! fst (hqc st')) \<and>
     extends (heap st) (b_exec st') (b_exec st) \<and>
     self_id st' = self_id st \<and> config st' = config st \<and> genesis st' = genesis st"

lemma core_invD:
  assumes "core_inv st"
  shows "core_wf st" and "heap_wf (heap st)" and "rooted (heap st) (genesis st)"
    and "rooted (heap st) (fst (hqc st))" and "rooted (heap st) (b_lock st)"
    and "rooted (heap st) (b_exec st)" and "rooted (heap st) (b_leaf st)"
    and "a < length (heap st) \<Longrightarrow> decided (heap st ! a) \<Longrightarrow> extends (heap st) (b_exec st) a"
    and "block_height (heap st ! b_exec st) \<le> block_height (heap st ! b_lock st)"
    and "justify (snd (hqc st)) = get_hash (heap st ! fst (hqc st))"
  using assms unfolding core_inv_def core_wf_def by blast+

lemma same_core_inv: "same_core st st' \<Longrightarrow> core_inv st' \<longleftrightarrow> core_inv st"
  by (simp add: same_core_def core_inv_def core_wf_def)

lemma core_inv_vheight [simp]: "core_inv (st\<lparr>vheight := v\<rparr>) \<longleftrightarrow> core_inv st"
  by (simp add: core_inv_def core_wf_def)

section \<open>The commit and the lock\<close>

lemma commit_effect_exec:
  assumes eff: "commit_effect h e (Some b2) vs e'" and wf: "heap_wf h" and b2: "b2 < length h"
    and e: "rooted h e"
  shows "rooted h e'" and "extends h e' e" and "linked_from h e vs e'"
proof -
  have "linked_from h e vs e' \<and> rooted h e'"
  proof (cases "vs = [] \<and> e' = e")
    case True
    then show ?thesis using e by simp
  next
    case False
    then obtain b1 where tc: "three_chain h b2 b1 e'" and l: "linked_from h e vs e'"
      using eff by (auto simp: commit_effect_def)
    have b1: "b1 < length h" using tc heap_wfD(6) [OF wf b2] by (auto simp: three_chain_def)
    then show ?thesis using tc l heap_wfD(9) [OF wf b1] by (auto simp: three_chain_def)
  qed
  then show "rooted h e'" "linked_from h e vs e'" by auto
  then show "extends h e' e" using linked_from_extends rooted_addr [OF e] by blast
qed

text \<open>The block that is committed is the parent of a block that is at most as high as the lock.\<close>

lemma commit_below_lock:
  assumes c: "commit_effect h e (Some b2) vs e'" and l: "lock_effect h l (Some b2) l'"
    and wf: "heap_wf h" and b2: "b2 < length h" and el: "block_height (h ! e) \<le> block_height (h ! l)"
  shows "block_height (h ! e') \<le> block_height (h ! l')"
proof (cases "vs = [] \<and> e' = e")
  case True
  then show ?thesis using l el by (auto simp: lock_effect_def)
next
  case False
  then obtain b1 where tc: "three_chain h b2 b1 e'" and nd: "\<not> decided (h ! b2)" "\<not> decided (h ! b1)"
    using c by (auto simp: commit_effect_def)
  have b1: "b1 < length h" using tc heap_wfD(6) [OF wf b2] by (auto simp: three_chain_def)
  have "block_height (h ! e') < block_height (h ! b1)"
    using parent_lower [OF wf b1] tc by (simp add: three_chain_def)
  also have "\<dots> \<le> block_height (h ! l')"
    using l nd tc by (simp add: lock_effect_def three_chain_def)
  finally show ?thesis by simp
qed

lemma decide_mark_decided:
  "a < length h \<Longrightarrow> decided (decide_all T (mark_written S h) ! a) \<longleftrightarrow> a \<in> T \<or> decided (h ! a)"
  by (auto simp: nth_upd_all)

lemma update_effect_inv:
  assumes inv: "core_inv st" and eff: "update_effect env nblk st st'" and n: "nblk < length (heap st)"
  shows "core_inv st'" and "core_le st st'"
proof -
  let ?h = "heap st"
  note D = core_invD [OF inv]
  obtain S vs where h': "heap st' = decide_all (set vs) (mark_written S ?h)"
    and c: "commit_effect ?h (b_exec st) (justify_block_ptr (?h ! nblk)) vs (b_exec st')"
    and l: "lock_effect ?h (b_lock st) (justify_block_ptr (?h ! nblk)) (b_lock st')"
    and q: "hqc st' = hqc st \<and> b_leaf st' = b_leaf st \<or>
      (\<exists>blk2 qc. justify_block_ptr (?h ! nblk) = Some blk2 \<and> blk2 < length ?h \<and>
         parsed_qc (?h ! nblk) = Some qc \<and> hqc_effect env st blk2 qc st')"
    and rest: "self_id st' = self_id st" "config st' = config st" "genesis st' = genesis st"
    using eff unfolding update_effect_def by blast
  have sl: "same_links ?h (heap st')" unfolding h' by simp
  note sl_nth = same_links_nth [OF sl]
  have len: "length (heap st') = length ?h" using same_links_length [OF sl] .
  have jr: "rooted ?h j \<and> get_justify_hash (?h ! nblk) = Inr (get_hash (?h ! j))"
    if "justify_block_ptr (?h ! nblk) = Some j" for j
    using heap_wfD(7,9) [OF D(2) n that] by blast
  have ex: "rooted ?h (b_exec st')" "extends ?h (b_exec st') (b_exec st)"
    "linked_from ?h (b_exec st) vs (b_exec st')"
    "block_height (?h ! b_exec st') \<le> block_height (?h ! b_lock st')"
    by (atomize (full), cases "justify_block_ptr (?h ! nblk)",
        use c l D(6,9) in \<open>force simp: commit_effect_def lock_effect_def rooted_addr intro: extends_refl\<close>,
        use commit_effect_exec [OF _ D(2) _ D(6)] commit_below_lock [OF _ _ D(2) _ D(9)] c l
          rooted_addr [OF conjunct1 [OF jr]] in auto)
  have lk: "rooted ?h (b_lock st')" "block_height (?h ! b_lock st) \<le> block_height (?h ! b_lock st')"
  proof -
    have "b_lock st' = b_lock st \<or> (\<exists>b2. justify_block_ptr (?h ! nblk) = Some b2 \<and>
        justify_block_ptr (?h ! b2) = Some (b_lock st') \<and>
        block_height (?h ! b_lock st) < block_height (?h ! b_lock st'))"
      using l unfolding lock_effect_def by blast
    then show "rooted ?h (b_lock st')" "block_height (?h ! b_lock st) \<le> block_height (?h ! b_lock st')"
      using D(5) heap_wfD(9) [OF D(2) rooted_addr] jr by (metis, metis less_imp_le order_refl)
  qed
  have hq: "rooted ?h (fst (hqc st'))" "rooted ?h (b_leaf st')"
    "block_height (?h ! fst (hqc st)) \<le> block_height (?h ! fst (hqc st'))"
    "justify (snd (hqc st')) = get_hash (?h ! fst (hqc st'))"
  proof -
    have "hqc st' = hqc st \<and> b_leaf st' = b_leaf st \<or>
        (\<exists>b2. rooted ?h b2 \<and> fst (hqc st') = b2 \<and> b_leaf st' = b2 \<and>
           block_height (?h ! fst (hqc st)) < block_height (?h ! b2) \<and>
           justify (snd (hqc st')) = get_hash (?h ! b2))"
      using q jr by (fastforce simp: hqc_effect_def get_justify_hash_def get_justify_qc_def split: if_splits)
    then show "rooted ?h (fst (hqc st'))" "rooted ?h (b_leaf st')"
      "block_height (?h ! fst (hqc st)) \<le> block_height (?h ! fst (hqc st'))"
      "justify (snd (hqc st')) = get_hash (?h ! fst (hqc st'))"
      using D(4,7,10) by (metis, metis, metis less_imp_le order_refl, metis)
  qed
  have dec: "extends ?h (b_exec st') a" if a: "a < length ?h" "decided (heap st' ! a)" for a
    using a decide_mark_decided [of a ?h] linked_from_members [OF ex(3)]
      extends_trans [OF ex(2) D(8)] unfolding h' by blast
  have "core_wf st'"
    using same_links_wf [OF sl D(2)] D(3) lk(1) ex(1) hq(1,2) rest same_links_rooted [OF sl]
    by (simp add: core_wf_def)
  then show "core_inv st'"
    using dec ex(4) hq(4) sl_nth(7) [OF rooted_addr [OF ex(1)]] sl_nth(7) [OF rooted_addr [OF lk(1)]]
      sl_nth(3) [OF rooted_addr [OF hq(1)]] len same_links_extends_iff [OF sl]
    by (simp add: core_inv_def)
  show "core_le st st'"
    using sl lk(2) hq(3) ex(2) rest decide_mark_decided [of _ ?h] unfolding core_le_def h' by simp
qed

section \<open>The handlers\<close>

context core_contract
begin

lemma on_receive_proposal_inv:
  assumes inv: "core_inv st" and rcv: "on_receive_proposal vt env bnew rid st = Inr st'"
  shows "core_inv st'" and "core_le st st'"
proof -
  note D = core_invD [OF inv]
  obtain st1 where b: "bnew < length (heap st)" and sc: "same_core (if safe_to_vote st bnew
      then st\<lparr>vheight := ucast (block_height (heap st ! bnew))\<rparr> else st) st1"
    and u: "update_effect env bnew st1 st'"
    by (rule on_receive_proposal_effect [OF rcv D(2) rooted_addr [OF D(5)]])
  have inv1: "core_inv st1" using same_core_inv [OF sc] inv by (simp split: if_splits)
  have b1: "bnew < length (heap st1)" using sc b by (simp add: same_core_def split: if_splits)
  show "core_inv st'" using update_effect_inv(1) [OF inv1 u b1] .
  show "core_le st st'"
    using update_effect_inv(2) [OF inv1 u b1] sc by (simp add: core_le_def same_core_def split: if_splits)
qed

lemma on_receive_vote_inv:
  assumes inv: "core_inv st" and rcv: "on_receive_vote vt env pc b r st = Inr st'"
    and rb: "rooted (heap st) b"
  shows "core_inv st'" and "core_le st st'"
proof -
  note D = core_invD [OF inv]
  obtain qc st1 where b: "b < length (heap st)"
    and qc: "add_partial_certificate r pc (self_qc (heap st ! b)) = Inr qc"
    and sc: "same_core (st1\<lparr>heap := upd_block b (\<lambda>x. x\<lparr>self_qc := qc\<rparr>) (heap st)\<rparr>) st'"
    and st1: "st1 = st \<or> has_quorum (config st) qc \<and>
       block_height (heap st ! fst (hqc st)) < block_height (heap st ! b) \<and>
       st1 = st\<lparr>hqc := (b, serialize env qc), b_leaf := b\<rparr>"
    by (rule on_receive_vote_effect [OF rcv]) blast
  let ?h' = "upd_block b (\<lambda>x. x\<lparr>self_qc := qc\<rparr>) (heap st)"
  have hash: "obj_hash qc = get_hash (heap st ! b)"
    using qc by (auto simp: add_partial_certificate_def get_hash_def split: if_splits)
  then have sl: "same_links (heap st) ?h'" using b by (rule same_links_self_qc [rotated])
  have dec: "decided (?h' ! a) = decided (heap st ! a)" for a
    using b by (cases "a = b") (simp_all add: upd_block_def)
  have f: "heap st' = ?h'" "b_lock st' = b_lock st" "b_exec st' = b_exec st" "genesis st' = genesis st"
    "self_id st' = self_id st" "config st' = config st" "hqc st' = hqc st1" "b_leaf st' = b_leaf st1"
    using sc st1 by (auto simp: same_core_def)
  have hq: "rooted (heap st) (fst (hqc st1))" "rooted (heap st) (b_leaf st1)"
    "block_height (heap st ! fst (hqc st)) \<le> block_height (heap st ! fst (hqc st1))"
    "justify (snd (hqc st1)) = get_hash (heap st ! fst (hqc st1))"
    using st1 D(4,7,10) rb b hash by auto
  have "core_wf st'"
    using D hq f same_links_wf [OF sl D(2)] same_links_rooted [OF sl] by (simp add: core_wf_def)
  then show "core_inv st'"
    using D(8,9) f dec hq(4) same_links_nth(7) [OF sl rooted_addr [OF D(5)]]
      same_links_nth(7) [OF sl rooted_addr [OF D(6)]] same_links_nth(3) [OF sl rooted_addr [OF hq(1)]]
      same_links_length [OF sl] same_links_extends_iff [OF sl] by (simp add: core_inv_def)
  show "core_le st st'"
    using f hq(3) sl dec extends_refl [OF rooted_addr [OF D(6)]] by (simp add: core_le_def)
qed

text \<open>The height of the last vote.\<close>

lemma on_receive_proposal_vheight:
  assumes inv: "core_inv st" and rcv: "on_receive_proposal vt env bnew rid st = Inr st'"
  shows "vheight st' = (if safe_to_vote st bnew then ucast (block_height (heap st ! bnew)) else vheight st)"
proof -
  note D = core_invD [OF inv]
  obtain st1 where sc: "same_core (if safe_to_vote st bnew
      then st\<lparr>vheight := ucast (block_height (heap st ! bnew))\<rparr> else st) st1"
    and u: "update_effect env bnew st1 st'"
    by (rule on_receive_proposal_effect [OF rcv D(2) rooted_addr [OF D(5)]])
  then show ?thesis by (auto simp: update_effect_def same_core_def split: if_splits)
qed

lemma on_receive_vote_vheight: "on_receive_vote vt env pc b r st = Inr st' \<Longrightarrow> vheight st' = vheight st"
  by (erule on_receive_vote_effect) (auto simp: same_core_def)

text \<open>The highest certified block comes from the event.\<close>

lemma on_receive_proposal_hqc:
  assumes inv: "core_inv st" and rcv: "on_receive_proposal vt env bnew rid st = Inr st'"
  shows "hqc st' = hqc st \<and> b_leaf st' = b_leaf st \<or>
    (\<exists>j qc. justify_block_ptr (heap st ! bnew) = Some j \<and> parsed_qc (heap st ! bnew) = Some qc \<and>
       hqc st' = (j, serialize env qc) \<and> b_leaf st' = j)"
proof -
  note D = core_invD [OF inv]
  obtain st1 where sc: "same_core (if safe_to_vote st bnew
      then st\<lparr>vheight := ucast (block_height (heap st ! bnew))\<rparr> else st) st1"
    and u: "update_effect env bnew st1 st'"
    by (rule on_receive_proposal_effect [OF rcv D(2) rooted_addr [OF D(5)]])
  have "heap st1 = heap st" "hqc st1 = hqc st" "b_leaf st1 = b_leaf st"
    using sc by (auto simp: same_core_def split: if_splits)
  then show ?thesis using u by (auto simp: update_effect_def hqc_effect_def split: if_splits)
qed

lemma on_receive_vote_hqc:
  assumes "on_receive_vote vt env pc b r st = Inr st'"
  shows "hqc st' = hqc st \<and> b_leaf st' = b_leaf st \<or>
    (\<exists>qc. add_partial_certificate r pc (self_qc (heap st ! b)) = Inr qc \<and> has_quorum (config st) qc \<and>
       hqc st' = (b, serialize env qc) \<and> b_leaf st' = b)"
  by (rule on_receive_vote_effect [OF assms]) (auto simp: same_core_def)

end

section \<open>Relations every handler respects\<close>

text \<open>
  A reflexive and transitive relation between states that no assignment to a field of the core
  breaks, and that every virtual method but the one that votes respects, is respected by \<open>update\<close>
  and by the handler of votes. The applications use it to follow their own fields through a call
  into the core. If \<open>do_vote\<close> respects it for \<open>b0\<close>, then so does the handler of the proposal \<open>b0\<close>,
  the only block it votes for.
\<close>

locale core_frame =
  fixes vt :: "('tx, ('db, 'm) HotstuffCore_scheme) core_virtuals"
    and R :: "('db, 'm) HotstuffCore_scheme \<Rightarrow> ('db, 'm) HotstuffCore_scheme \<Rightarrow> bool"
  assumes rel_refl: "R st st"
    and rel_trans: "R st st' \<Longrightarrow> R st' st'' \<Longrightarrow> R st st''"
    and rel_heap: "R st (st\<lparr>heap := h\<rparr>)"
    and rel_files: "R st (st\<lparr>files := d\<rparr>)"
    and rel_hqc: "R st (st\<lparr>hqc := q\<rparr>)"
    and rel_lock: "R st (st\<lparr>b_lock := l\<rparr>)"
    and rel_exec: "R st (st\<lparr>b_exec := e\<rparr>)"
    and rel_vheight: "R st (st\<lparr>vheight := v\<rparr>)"
    and rel_leaf: "R st (st\<lparr>b_leaf := f\<rparr>)"
    and rel_index: "R st (st\<lparr>decided_hash_index := i\<rparr>)"
    and rel_on_new_qc: "on_new_qc vt hash st = Inr st' \<Longrightarrow> R st st'"
    and rel_apply_block: "apply_block vt b txn st = Inr (txn', st') \<Longrightarrow> R st st'"
    and rel_commitment: "notify_vm_of_commitment vt b st = Inr st' \<Longrightarrow> R st st'"
    and rel_nonself: "notify_vm_of_qc_on_nonself_block vt b st = Inr st' \<Longrightarrow> R st st'"
    and rel_prune: "notify_ok_to_prune_blocks vt height st = Inr st' \<Longrightarrow> R st st'"
begin

lemma update_hqc_rel: "update_hqc vt env q qc st = Inr st' \<Longrightarrow> R st st'"
  using rel_trans [OF rel_trans [OF rel_hqc rel_leaf] rel_nonself] rel_trans [OF rel_hqc rel_leaf] rel_refl
  by (auto simp: update_hqc_def Let_def elim!: bindE_InrE split: if_splits)

lemma commit_one_rel: "commit_one vt b (txn, st) = Inr (txn', st') \<Longrightarrow> R st st'"
  using rel_trans [OF rel_trans [OF rel_heap rel_apply_block] rel_commitment]
  by (auto simp: commit_one_def elim!: bindE_InrE)

lemma commit_loop_rel: "foldE (commit_one vt) bs (txn, st) = Inr (txn', st') \<Longrightarrow> R st st'"
proof (induction bs arbitrary: txn st)
  case (Cons b bs)
  then obtain txn1 st1 where "commit_one vt b (txn, st) = Inr (txn1, st1)"
    "foldE (commit_one vt) bs (txn1, st1) = Inr (txn', st')" by auto
  then show ?case using Cons.IH commit_one_rel rel_trans by blast
qed (simp add: rel_refl)

lemma update_commit_rel: "update_commit vt env blk1 blk st = Inr st' \<Longrightarrow> R st st'"
  using rel_trans [OF commit_loop_rel rel_trans [OF rel_trans [OF rel_exec rel_index] rel_prune]]
  by (auto simp: update_commit_def finish_commit_def Let_def elim!: bindE_InrE split: if_splits)

lemma update_try_commit_rel: "update_try_commit vt env blk2 blk1 st = Inr st' \<Longrightarrow> R st st'"
  using update_commit_rel rel_refl
  by (auto simp: update_try_commit_def elim!: bindE_InrE split: option.splits if_splits)

lemma update_lock_rel: "update_lock vt env blk2 st = Inr st' \<Longrightarrow> R st st'"
  using rel_trans [OF rel_trans [OF rel_heap rel_files] update_try_commit_rel] rel_refl
    rel_trans [OF rel_lock rel_trans [OF rel_trans [OF rel_heap rel_files] update_try_commit_rel]]
  by (auto simp: update_lock_def Let_def elim!: bindE_InrE split: option.splits if_splits)

lemma update_rel: "update vt env nblk st = Inr st' \<Longrightarrow> R st st'"
  using rel_trans [OF update_hqc_rel update_lock_rel] rel_refl
  by (auto simp: update_def elim!: bindE_InrE split: option.splits if_splits)

lemma on_receive_vote_rel: "on_receive_vote vt env pc b r st = Inr st' \<Longrightarrow> R st st'"
  using rel_trans [OF rel_heap rel_trans [OF update_hqc_rel rel_on_new_qc]] rel_heap
  by (auto simp: on_receive_vote_def Let_def elim!: bindE_InrE split: if_splits)

end

locale core_relation = core_frame vt R
  for vt :: "('tx, ('db, 'm) HotstuffCore_scheme) core_virtuals"
    and R :: "('db, 'm) HotstuffCore_scheme \<Rightarrow> ('db, 'm) HotstuffCore_scheme \<Rightarrow> bool" +
  fixes b0 :: block_addr
  assumes rel_do_vote: "do_vote vt b0 r st = Inr st' \<Longrightarrow> R st st'"
begin

lemma on_receive_proposal_rel: "on_receive_proposal vt env b0 r st = Inr st' \<Longrightarrow> R st st'"
  using rel_trans [OF rel_trans [OF rel_vheight rel_do_vote] update_rel] update_rel
  by (auto simp: on_receive_proposal_def proposal_vote_def elim!: bindE_InrE split: if_splits)

end

end
