(* ===== verification/Replica.thy ===== *)
theory Replica
  imports App CoreInv
begin

text \<open>
  One replica as a transition system. A label names the thread that runs and its input; the step
  is the code that thread executes under the locks it takes, and \<open>Inl\<close> is an exception that ends
  the process. The workers run as long as the replica, so their \<open>done_flag\<close> is not set. The locale \<open>app_contract\<close> is what the steps rely on of the two applications: which
  of the virtual methods come from \<open>HotstuffAppBase\<close>, and that the others change the application's
  own fields only.
\<close>

section \<open>Steps\<close>

datatype 'l replica_label =
    HandlerVote VoteMessage
  | HandlerPropose ProposeMessage
  | FetchBegin ReplicaID
  | FetchEnd ReplicaID "HotstuffBlockWire list option"
  | NetworkThread
  | CoreThread
  | Propose nat
  | ProposeEmpty nat
  | WaitForQC Hash
  | CancelWait
  | GarbageCollect
  | ClientTake ReplicaID
  | ClientSend ReplicaID bool
  | Local 'l

definition network_thread ::
  "('db, 'm) HotstuffAppBase_scheme \<Rightarrow> ('db, 'm) HotstuffAppBase_scheme result" where
  "network_thread st =
     (case queue_next (queue_take (network_event_queue st)) of
        None \<Rightarrow> Inr st
      | Some (e, q) \<Rightarrow> net_on_event e (st\<lparr>network_event_queue := q\<rparr>))"

definition core_thread ::
  "('tx, ('db, 'm) HotstuffAppBase_scheme) core_virtuals \<Rightarrow> ('bv, 'db, 'tx) env \<Rightarrow>
   ('db, 'm) HotstuffAppBase_scheme \<Rightarrow> ('db, 'm) HotstuffAppBase_scheme result" where
  "core_thread vt env st =
     (case queue_next (queue_take (event_queue st)) of
        None \<Rightarrow> Inr st
      | Some (e, q) \<Rightarrow> on_event vt env e (st\<lparr>event_queue := q\<rparr>))"

definition gc_thread ::
  "('db, 'm) HotstuffAppBase_scheme \<Rightarrow> ('db, 'm) HotstuffAppBase_scheme result" where
  "gc_thread st =
     (if gc_exists_work_to_do (gc_collector (block_store st)) then
        bindE (gc_run_step (gc_collector (block_store st)) (heap st)) (\<lambda>(gc, h).
        Inr (st\<lparr>heap := h, block_store := (block_store st)\<lparr>gc_collector := gc\<rparr>\<rparr>))
      else Inr st)"

definition client_thread ::
  "ReplicaID \<Rightarrow> (HotstuffProtocolClient \<Rightarrow> HotstuffProtocolClient) \<Rightarrow>
   ('db, 'm) HotstuffAppBase_scheme \<Rightarrow> ('db, 'm) HotstuffAppBase_scheme" where
  "client_thread rid f st =
     st\<lparr>other_clients := (other_clients st)(rid := map_option f (other_clients st rid))\<rparr>"

fun replica_step ::
  "('tx, ('db, 'm) HotstuffAppBase_scheme) core_virtuals \<Rightarrow>
   (nat \<Rightarrow> bool \<Rightarrow> uint64 \<Rightarrow> ('db, 'm) HotstuffAppBase_scheme \<Rightarrow>
      (bytes \<times> ('db, 'm) HotstuffAppBase_scheme) result) \<Rightarrow>
   ('l \<Rightarrow> ('db, 'm) HotstuffAppBase_scheme \<Rightarrow> ('db, 'm) HotstuffAppBase_scheme result) \<Rightarrow>
   ('bv, 'db, 'tx) env \<Rightarrow> 'l replica_label \<Rightarrow>
   ('db, 'm) HotstuffAppBase_scheme \<Rightarrow> ('db, 'm) HotstuffAppBase_scheme result" where
  "replica_step vt gnb loc env (HandlerVote v) st = handler_vote env v st"
| "replica_step vt gnb loc env (HandlerPropose p) st = handler_propose env p st"
| "replica_step vt gnb loc env (FetchBegin rid) st = Inr (fetch_worker_begin rid st)"
| "replica_step vt gnb loc env (FetchEnd rid res) st = fetch_worker_end env rid res st"
| "replica_step vt gnb loc env NetworkThread st = network_thread st"
| "replica_step vt gnb loc env CoreThread st = core_thread vt env st"
| "replica_step vt gnb loc env (Propose sched) st =
     bindE (do_propose (gnb sched) env st) (\<lambda>(_, st). Inr st)"
| "replica_step vt gnb loc env (ProposeEmpty sched) st =
     bindE (do_empty_propose (gnb sched) env st) (\<lambda>(_, st). Inr st)"
| "replica_step vt gnb loc env (WaitForQC hash) st =
     Inr (case wait_for_new_qc hash st of None \<Rightarrow> st | Some (_, st) \<Rightarrow> st)"
| "replica_step vt gnb loc env CancelWait st = Inr (cancel_wait_for_new_qc st)"
| "replica_step vt gnb loc env GarbageCollect st = gc_thread st"
| "replica_step vt gnb loc env (ClientTake rid) st = Inr (client_thread rid (client_take False) st)"
| "replica_step vt gnb loc env (ClientSend rid ok) st =
     Inr (client_thread rid (\<lambda>c. snd (client_do_work False ok c)) st)"
| "replica_step vt gnb loc env (Local l) st = loc l st"

text \<open>
  The states a replica reaches, as long as no height is at the limit of the 64-bit type, where
  the height of the next block would wrap around.
\<close>

definition heights_fit :: "block_heap \<Rightarrow> bool" where
  "heights_fit h \<longleftrightarrow> (\<forall>b \<in> set h. block_height b \<noteq> - 1)"

inductive replica_reach ::
  "('tx, ('db, 'm) HotstuffAppBase_scheme) core_virtuals \<Rightarrow>
   (nat \<Rightarrow> bool \<Rightarrow> uint64 \<Rightarrow> ('db, 'm) HotstuffAppBase_scheme \<Rightarrow>
      (bytes \<times> ('db, 'm) HotstuffAppBase_scheme) result) \<Rightarrow>
   ('l \<Rightarrow> ('db, 'm) HotstuffAppBase_scheme \<Rightarrow> ('db, 'm) HotstuffAppBase_scheme result) \<Rightarrow>
   ('bv, 'db, 'tx) env \<Rightarrow> ('db, 'm) HotstuffAppBase_scheme \<Rightarrow> ('db, 'm) HotstuffAppBase_scheme \<Rightarrow> bool"
  for vt gnb loc env st0 where
  reach_refl: "replica_reach vt gnb loc env st0 st0"
| reach_step: "replica_reach vt gnb loc env st0 st \<Longrightarrow> replica_step vt gnb loc env l st = Inr st' \<Longrightarrow>
    heights_fit (heap st') \<Longrightarrow> replica_reach vt gnb loc env st0 st'"

section \<open>The contract of an application\<close>

text \<open>The fields of \<open>HotstuffAppBase\<close> and its base class are the same.\<close>

definition same_base ::
  "('db, 'm) HotstuffAppBase_scheme \<Rightarrow> ('db, 'm) HotstuffAppBase_scheme \<Rightarrow> bool" where
  "same_base st st' \<longleftrightarrow> HotstuffAppBase.truncate st' = HotstuffAppBase.truncate st"

lemma same_base_refl [simp, intro]: "same_base st st"
  by (simp add: same_base_def)

lemma same_base_iff:
  "same_base st st' \<longleftrightarrow> same_core st st' \<and>
     block_store st' = block_store st \<and> block_fetch_manager st' = block_fetch_manager st \<and>
     event_queue st' = event_queue st \<and> network_event_queue st' = network_event_queue st \<and>
     other_clients st' = other_clients st \<and> secret_key st' = secret_key st \<and>
     latest_new_qc st' = latest_new_qc st \<and> cancel_wait st' = cancel_wait st"
  by (auto simp: same_base_def same_core_def HotstuffAppBase.truncate_def)

lemma same_base_core: "same_base st st' \<Longrightarrow> same_core st st'"
  by (simp add: same_base_iff)

lemma validate_and_add_event_core: "validate_and_add_event e st = Inr st' \<Longrightarrow> same_core st st'"
  by (auto simp: validate_and_add_event_def same_core_def elim!: bindE_InrE)

lemma base_do_vote_core: "base_do_vote env b r st = Inr st' \<Longrightarrow> same_core st st'"
  by (auto simp: base_do_vote_def send_vote_to_def self_client_vote_def same_core_def
      elim!: bindE_InrE split: if_splits dest!: validate_and_add_event_core)

locale app_contract =
  fixes vt :: "('tx, ('db, 'm) HotstuffAppBase_scheme) core_virtuals"
    and gnb :: "nat \<Rightarrow> bool \<Rightarrow> uint64 \<Rightarrow> ('db, 'm) HotstuffAppBase_scheme \<Rightarrow>
      (bytes \<times> ('db, 'm) HotstuffAppBase_scheme) result"
    and loc :: "'l \<Rightarrow> ('db, 'm) HotstuffAppBase_scheme \<Rightarrow> ('db, 'm) HotstuffAppBase_scheme result"
    and env :: "('bv, 'db, 'tx) env"
  assumes find_base: "find_block_by_hash vt = base_find_block_by_hash"
    and do_vote_base: "do_vote vt = base_do_vote env"
    and on_new_qc_base: "on_new_qc vt = base_on_new_qc"
    and prune_base: "notify_ok_to_prune_blocks vt = base_notify_ok_to_prune_blocks"
    and apply_block_own: "apply_block vt b txn st = Inr (txn', st') \<Longrightarrow> same_base st st'"
    and commitment_own: "notify_vm_of_commitment vt b st = Inr st' \<Longrightarrow> same_base st st'"
    and nonself_own: "notify_vm_of_qc_on_nonself_block vt b st = Inr st' \<Longrightarrow> same_base st st'"
    and next_vm_block_own: "gnb sched ne height st = Inr (bs, st') \<Longrightarrow> same_base st st'"
    and local_own: "loc l st = Inr st' \<Longrightarrow> same_base st st'"

sublocale app_contract \<subseteq> core_contract vt
proof unfold_locales
  fix b r st st' hash txn txn' height
  show "do_vote vt b r st = Inr st' \<Longrightarrow> same_core st st'"
    using base_do_vote_core by (simp add: do_vote_base)
  show "on_new_qc vt hash st = Inr st' \<Longrightarrow> same_core st st'"
    by (auto simp: on_new_qc_base base_on_new_qc_def same_core_def)
  show "apply_block vt b txn st = Inr (txn', st') \<Longrightarrow> same_core st st'"
    using apply_block_own same_base_core by blast
  show "notify_vm_of_commitment vt b st = Inr st' \<Longrightarrow> same_core st st'"
    using commitment_own same_base_core by blast
  show "notify_vm_of_qc_on_nonself_block vt b st = Inr st' \<Longrightarrow> same_core st st'"
    using nonself_own same_base_core by blast
  show "notify_ok_to_prune_blocks vt height st = Inr st' \<Longrightarrow> same_core st st'"
    by (auto simp: prune_base base_notify_ok_to_prune_blocks_def same_core_def)
qed

section \<open>The two applications\<close>

datatype app_local = VMThread nat | PutVMInProposerMode | StopProposals

fun app_local_step ::
  "('vb, 'vs) VMBase \<Rightarrow> app_local \<Rightarrow> ('db, 'vb, 'vs) HotstuffApp \<Rightarrow> ('db, 'vb, 'vs) HotstuffApp result"
  where
  "app_local_step vm (VMThread n) st =
     bindE (run_steps vm n (vm_interface (vm_bridge st))) (\<lambda>ci.
     Inr (st\<lparr>vm_bridge := (vm_bridge st)\<lparr>vm_interface := ci\<rparr>\<rparr>))"
| "app_local_step vm PutVMInProposerMode st = app_put_vm_in_proposer_mode st"
| "app_local_step vm StopProposals st = Inr (app_stop_proposals st)"

interpretation spec_app: app_contract "app_virtuals env vm await" "app_get_next_vm_block vm"
    "app_local_step vm" env
  for env :: "('bv, 'db, 'tx) env" and vm :: "('vb, 'vs) VMBase" and await
proof unfold_locales
  fix b txn txn' sched ne height bs l and st st' :: "('db, 'vb, 'vs) HotstuffApp"
  show "apply_block (app_virtuals env vm await) b txn st = Inr (txn', st') \<Longrightarrow> same_base st st'"
    by (auto simp: app_virtuals_def app_apply_block_def same_base_iff same_core_def elim!: bindE_InrE)
  show "notify_vm_of_commitment (app_virtuals env vm await) b st = Inr st' \<Longrightarrow> same_base st st'"
    by (auto simp: app_virtuals_def app_notify_vm_of_commitment_def same_base_iff same_core_def
        elim!: bindE_InrE)
  show "app_get_next_vm_block vm sched ne height st = Inr (bs, st') \<Longrightarrow> same_base st st'"
    by (auto simp: app_get_next_vm_block_def same_base_iff same_core_def elim!: bindE_InrE)
  show "app_local_step vm l st = Inr st' \<Longrightarrow> same_base st st'"
    by (cases l) (auto simp: app_put_vm_in_proposer_mode_def app_stop_proposals_def same_base_iff
        same_core_def elim!: bindE_InrE)
qed (simp_all add: app_virtuals_def)

datatype ns_local = AddProposal bytes

fun ns_local_step ::
  "ns_local \<Rightarrow> ('db, 'vs) NonspeculativeHotstuffApp \<Rightarrow> ('db, 'vs) NonspeculativeHotstuffApp result"
  where
  "ns_local_step (AddProposal proposal) st = Inr (ns_app_add_proposal proposal st)"

interpretation nonspec_app: app_contract "ns_virtuals env vm" "\<lambda>_. ns_get_next_vm_block"
    ns_local_step env
  for env :: "('bv, 'db, 'tx) env" and vm :: "('vb, 'vs) VMBase"
proof unfold_locales
  fix b txn txn' ne height bs l and st st' :: "('db, 'vs) NonspeculativeHotstuffApp"
  show "apply_block (ns_virtuals env vm) b txn st = Inr (txn', st') \<Longrightarrow> same_base st st'"
    by (auto simp: ns_virtuals_def ns_app_apply_block_def same_base_iff same_core_def elim!: bindE_InrE)
  show "notify_vm_of_commitment (ns_virtuals env vm) b st = Inr st' \<Longrightarrow> same_base st st'"
    by (auto simp: ns_virtuals_def ns_app_notify_vm_of_commitment_def same_base_iff same_core_def
        elim!: bindE_InrE)
  show "ns_get_next_vm_block ne height st = Inr (bs, st') \<Longrightarrow> same_base st st'"
    by (auto simp: ns_get_next_vm_block_def same_base_iff same_core_def elim!: bindE_InrE)
  show "ns_local_step l st = Inr st' \<Longrightarrow> same_base st st'"
    by (cases l) (auto simp: ns_app_add_proposal_def same_base_iff same_core_def)
qed (simp_all add: ns_virtuals_def)

end
