(* ===== verification/ReplicaInv.thy ===== *)
theory ReplicaInv
  imports Replica
begin

text \<open>
  The invariant of a whole replica: the block store and the core are well-formed, everything the
  core may propose on is in the store, and every event that waits in a queue, or for a missing
  block, refers to blocks of the heap in the state its handler expects. Every step of every
  thread keeps it.
\<close>

section \<open>The invariant\<close>

definition net_ok :: "block_heap \<Rightarrow> NetEvent \<Rightarrow> bool" where
  "net_ok h e \<longleftrightarrow>
     (case e of VoteNetEvent cert voter \<Rightarrow> True
      | ProposalNetEvent a rid \<Rightarrow> a < length h \<and> parsed_qc (h ! a) \<noteq> None
      | BlockReceiveNetEvent a rid \<Rightarrow> a < length h \<and> parsed_qc (h ! a) \<noteq> None)"

definition in_store :: "block_heap \<Rightarrow> BlockStore \<Rightarrow> block_addr \<Rightarrow> bool" where
  "in_store h bs a \<longleftrightarrow> rooted h a \<and> block_cache bs (get_hash (h ! a)) \<noteq> None"

definition event_ok :: "block_heap \<Rightarrow> BlockStore \<Rightarrow> Event \<Rightarrow> bool" where
  "event_ok h bs e \<longleftrightarrow> in_store h bs (ev_block e)"

definition held_net :: "('db, 'm) HotstuffAppBase_scheme \<Rightarrow> NetEvent set" where
  "held_net st = set (pending_events (network_event_queue st)) \<union> dependents (block_fetch_manager st)"

definition held_events :: "('db, 'm) HotstuffAppBase_scheme \<Rightarrow> Event set" where
  "held_events st = set (pending_events (event_queue st))"

definition gc_tracked :: "BlockGarbageCollector \<Rightarrow> block_addr set" where
  "gc_tracked gc = set (gc_list gc @ gc_list_buffer gc)"

definition replica_inv :: "('db, 'm) HotstuffAppBase_scheme \<Rightarrow> bool" where
  "replica_inv st \<longleftrightarrow>
     core_inv st \<and> store_wf (heap st) (block_store st) \<and>
     in_store (heap st) (block_store st) (fst (hqc st)) \<and>
     in_store (heap st) (block_store st) (b_leaf st) \<and>
     gc_tracked (gc_collector (block_store st)) \<subseteq> {..<length (heap st)} \<and>
     (\<forall>e \<in> held_net st. net_ok (heap st) e) \<and>
     (\<forall>e \<in> held_events st. event_ok (heap st) (block_store st) e) \<and>
     fetch_wf (block_fetch_manager st)"

lemma replica_invD:
  assumes "replica_inv st"
  shows "core_inv st" and "store_wf (heap st) (block_store st)"
    and "in_store (heap st) (block_store st) (fst (hqc st))"
    and "in_store (heap st) (block_store st) (b_leaf st)"
    and "gc_tracked (gc_collector (block_store st)) \<subseteq> {..<length (heap st)}"
    and "e \<in> held_net st \<Longrightarrow> net_ok (heap st) e"
    and "e' \<in> held_events st \<Longrightarrow> event_ok (heap st) (block_store st) e'"
    and "fetch_wf (block_fetch_manager st)"
  using assms unfolding replica_inv_def by blast+

section \<open>Growth\<close>

text \<open>A step that adds blocks to the heap and entries to the store.\<close>

definition cache_le :: "BlockStore \<Rightarrow> BlockStore \<Rightarrow> bool" where
  "cache_le bs bs' \<longleftrightarrow> block_cache bs \<subseteq>\<^sub>m block_cache bs'"

definition decided_same :: "block_heap \<Rightarrow> block_heap \<Rightarrow> bool" where
  "decided_same h h' \<longleftrightarrow> (\<forall>a < length h'. decided (h' ! a) \<longrightarrow> a < length h \<and> decided (h ! a))"

lemma cache_le_refl [simp, intro]: "cache_le bs bs"
  by (simp add: cache_le_def)

lemma net_ok_le: "net_ok h e \<Longrightarrow> heap_le h h' \<Longrightarrow> net_ok h' e"
  using heap_leD(1,4) by (fastforce simp: net_ok_def split: NetEvent.splits)

lemma in_store_le:
  assumes "in_store h bs a" "heap_le h h'" "cache_le bs bs'"
  shows "in_store h' bs' a"
proof -
  have a: "rooted h a" "block_cache bs (get_hash (h ! a)) \<noteq> None" using assms(1) by (auto simp: in_store_def)
  then have "block_cache bs' (get_hash (h ! a)) \<noteq> None"
    using assms(3) by (auto simp: cache_le_def dest: map_le_implies_dom_le)
  then show ?thesis
    using rooted_le [OF assms(2) a(1)] heap_leD(5) [OF assms(2) rooted_addr [OF a(1)]]
    by (simp add: in_store_def)
qed

lemma event_ok_le: "event_ok h bs e \<Longrightarrow> heap_le h h' \<Longrightarrow> cache_le bs bs' \<Longrightarrow> event_ok h' bs' e"
  by (auto simp: event_ok_def intro: in_store_le)

lemma core_inv_grow:
  assumes inv: "core_inv st" and le: "heap_le (heap st) (heap st')" and wf: "heap_wf (heap st')"
    and dec: "decided_same (heap st) (heap st')"
    and same: "genesis st' = genesis st" "hqc st' = hqc st" "b_lock st' = b_lock st"
      "b_exec st' = b_exec st" "b_leaf st' = b_leaf st"
  shows "core_inv st'"
proof -
  note D = core_invD [OF inv]
  have ht: "block_height (heap st' ! a) = block_height (heap st ! a)" if "rooted (heap st) a" for a
    using heap_leD(12) [OF le rooted_addr [OF that] that] .
  have "core_wf st'" using D rooted_le [OF le] wf same by (simp add: core_wf_def)
  moreover have "extends (heap st') (b_exec st) a" if "a < length (heap st')" "decided (heap st' ! a)" for a
    using dec that D(8) heap_le_extends [OF _ le] unfolding decided_same_def by blast
  ultimately show ?thesis
    using D(9,10) ht [OF D(5)] ht [OF D(6)] heap_leD(5) [OF le rooted_addr [OF D(4)]] same
    by (simp add: core_inv_def)
qed

text \<open>
  A step that keeps the core's own fields: the invariant follows from the store, the growth of
  heap and store, and the events that are new.
\<close>

lemma replica_inv_grow:
  assumes inv: "replica_inv st" and le: "heap_le (heap st) (heap st')"
    and wf: "store_wf (heap st') (block_store st')" and dec: "decided_same (heap st) (heap st')"
    and cle: "cache_le (block_store st) (block_store st')"
    and same: "genesis st' = genesis st" "hqc st' = hqc st" "b_lock st' = b_lock st"
      "b_exec st' = b_exec st" "b_leaf st' = b_leaf st"
    and gc: "gc_tracked (gc_collector (block_store st')) \<subseteq> {..<length (heap st')}"
    and net: "\<And>e. e \<in> held_net st' \<Longrightarrow> e \<in> held_net st \<or> net_ok (heap st') e"
    and ev: "\<And>e. e \<in> held_events st' \<Longrightarrow> e \<in> held_events st \<or> event_ok (heap st') (block_store st') e"
    and f: "fetch_wf (block_fetch_manager st')"
  shows "replica_inv st'"
proof -
  note D = replica_invD [OF inv]
  have "core_inv st'" using core_inv_grow [OF D(1) le store_wfD(1) [OF wf] dec same] .
  then show ?thesis
    using wf gc f same in_store_le [OF D(3) le cle] in_store_le [OF D(4) le cle]
      net net_ok_le [OF D(6) le] ev event_ok_le [OF D(7) le cle]
    unfolding replica_inv_def by metis
qed

section \<open>What a call into the core does to the rest of the replica\<close>

definition base_rel ::
  "block_addr \<Rightarrow> ('db, 'm) HotstuffAppBase_scheme \<Rightarrow> ('db, 'm) HotstuffAppBase_scheme \<Rightarrow> bool" where
  "base_rel b st st' \<longleftrightarrow>
     block_cache (block_store st') = block_cache (block_store st) \<and>
     gc_tracked (gc_collector (block_store st')) = gc_tracked (gc_collector (block_store st)) \<and>
     network_event_queue st' = network_event_queue st \<and>
     block_fetch_manager st' = block_fetch_manager st \<and>
     self_id st' = self_id st \<and> secret_key st' = secret_key st \<and>
     (\<exists>pcs. pending_events (event_queue st') =
        pending_events (event_queue st) @ map (\<lambda>pc. VoteEvent (self_id st) pc b) pcs)"

lemma base_rel_refl: "base_rel b st st"
  by (auto simp: base_rel_def intro: exI [of _ "[]"])

lemma base_rel_trans: "base_rel b st st' \<Longrightarrow> base_rel b st' st'' \<Longrightarrow> base_rel b st st''"
  unfolding base_rel_def by (metis append.assoc map_append)

lemma base_rel_same_base: "same_base st st' \<Longrightarrow> base_rel b st st'"
  using base_rel_refl [of b st] by (auto simp: same_base_iff same_core_def base_rel_def)

lemma pending_add_event [simp]: "pending_events (add_event e q) = pending_events q @ [e]"
  by (rule gq.pending_add)

lemma validate_and_add_event_ok:
  assumes "validate_and_add_event e st = Inr st'"
  obtains ok where "Event_validate (heap st) e = Inr ok"
    "st' = (if ok then st\<lparr>event_queue := add_event e (event_queue st)\<rparr> else st)"
  using assms by (auto simp: validate_and_add_event_def elim!: bindE_InrE split: if_splits)

lemma base_rel_do_vote:
  assumes "base_do_vote env b r st = Inr st'"
  shows "base_rel b st st'"
proof -
  obtain cert where send: "send_vote_to b cert r st = Inr st'"
    using assms by (auto simp: base_do_vote_def elim!: bindE_InrE)
  show ?thesis
  proof (cases "r = self_id st")
    case True
    then have add: "validate_and_add_event (VoteEvent (self_id st) cert b) st = Inr st'"
      using send by (simp add: send_vote_to_def self_client_vote_def)
    obtain ok where
      "st' = (if ok then st\<lparr>event_queue := add_event (VoteEvent (self_id st) cert b) (event_queue st)\<rparr> else st)"
      by (rule validate_and_add_event_ok [OF add])
    then show ?thesis
      using base_rel_refl [of b st] by (cases ok) (auto simp: base_rel_def intro: exI [of _ "[cert]"])
  next
    case False
    then obtain cl where "st' = st\<lparr>other_clients := cl\<rparr>"
      using send by (auto simp: send_vote_to_def elim!: bindE_InrE)
    then show ?thesis using base_rel_refl [of b st] by (simp add: base_rel_def)
  qed
qed

lemma base_rel_core_fields:
  "base_rel b st (st\<lparr>heap := h\<rparr>)" "base_rel b st (st\<lparr>files := d\<rparr>)" "base_rel b st (st\<lparr>hqc := q\<rparr>)"
  "base_rel b st (st\<lparr>b_lock := l\<rparr>)" "base_rel b st (st\<lparr>b_exec := e\<rparr>)" "base_rel b st (st\<lparr>vheight := v\<rparr>)"
  "base_rel b st (st\<lparr>b_leaf := f\<rparr>)" "base_rel b st (st\<lparr>decided_hash_index := i\<rparr>)"
  using base_rel_refl [of b st] by (simp_all add: base_rel_def)

lemma base_rel_base_methods:
  "base_on_new_qc hash st = Inr st' \<Longrightarrow> base_rel b st st'"
  "base_notify_ok_to_prune_blocks height st = Inr st' \<Longrightarrow> base_rel b st st'"
  using base_rel_refl [of b st]
  by (auto simp: base_on_new_qc_def base_notify_ok_to_prune_blocks_def prune_below_height_def invoke_gc_def
      gc_tracked_def base_rel_def)

text \<open>The events that wait for the core, and the messages that wait for peers; in the core only a vote adds one.\<close>

definition queue_same :: "('db, 'm) HotstuffAppBase_scheme \<Rightarrow> ('db, 'm) HotstuffAppBase_scheme \<Rightarrow> bool" where
  "queue_same st st' \<longleftrightarrow>
     pending_events (event_queue st') = pending_events (event_queue st) \<and> other_clients st' = other_clients st"

context app_contract
begin

lemma base_relation: "core_relation vt (base_rel b0) b0"
  by (intro core_relation.intro core_frame.intro core_relation_axioms.intro, rule base_rel_refl,
      erule base_rel_trans, assumption, (rule base_rel_core_fields)+)
    (auto simp: do_vote_base on_new_qc_base prune_base intro: base_rel_do_vote base_rel_base_methods
      dest: apply_block_own commitment_own nonself_own intro: base_rel_same_base)

lemma queue_frame: "core_frame vt queue_same"
  by (rule core_frame.intro)
    (auto simp: queue_same_def on_new_qc_base prune_base base_on_new_qc_def base_notify_ok_to_prune_blocks_def
      same_base_iff dest: apply_block_own commitment_own nonself_own)

end

interpretation spec_rel: core_relation "app_virtuals env vm await" "base_rel b0" b0
  for env :: "('bv, 'db, 'tx) env" and vm :: "('vb, 'vs) VMBase" and await b0
  by (rule spec_app.base_relation)

interpretation nonspec_rel: core_relation "ns_virtuals env vm" "base_rel b0" b0
  for env :: "('bv, 'db, 'tx) env" and vm :: "('vb, 'vs) VMBase" and b0
  by (rule nonspec_app.base_relation)

interpretation spec_queue: core_frame "app_virtuals env vm await" queue_same
  for env :: "('bv, 'db, 'tx) env" and vm :: "('vb, 'vs) VMBase" and await
  by (rule spec_app.queue_frame)

interpretation nonspec_queue: core_frame "ns_virtuals env vm" queue_same
  for env :: "('bv, 'db, 'tx) env" and vm :: "('vb, 'vs) VMBase"
  by (rule nonspec_app.queue_frame)

section \<open>Messages from the network\<close>

text \<open>The same blocks up to the cached outcome of the hash check and flags of that kind.\<close>

definition same_state :: "block_heap \<Rightarrow> block_heap \<Rightarrow> bool" where
  "same_state h h' \<longleftrightarrow> same_links h h' \<and>
     map (\<lambda>b. (decided b, self_qc b)) h' = map (\<lambda>b. (decided b, self_qc b)) h"

lemma same_state_nth:
  assumes "same_state h h'" "a < length h"
  shows "decided (h' ! a) = decided (h ! a)" and "self_qc (h' ! a) = self_qc (h ! a)"
proof -
  have len: "length h' = length h" using assms(1) same_links_length by (auto simp: same_state_def)
  have "map (\<lambda>b. (decided b, self_qc b)) h' ! a = map (\<lambda>b. (decided b, self_qc b)) h ! a"
    using assms(1) by (simp add: same_state_def)
  then show "decided (h' ! a) = decided (h ! a)" "self_qc (h' ! a) = self_qc (h ! a)"
    using assms(2) len by simp_all
qed

lemma same_state_links: "same_state h h' \<Longrightarrow> same_links h h'"
  by (simp add: same_state_def)

lemma same_state_refl [simp, intro]: "same_state h h"
  by (simp add: same_state_def)

lemma same_state_decided: "same_state h h' \<Longrightarrow> decided_same h h'"
  using same_state_nth(1) same_links_length [of h h'] by (auto simp: same_state_def decided_same_def)

lemma same_state_upd:
  "a < length h \<Longrightarrow> links b = links (h ! a) \<Longrightarrow> decided b = decided (h ! a) \<Longrightarrow> self_qc b = self_qc (h ! a) \<Longrightarrow>
   same_state h (upd_block a (\<lambda>_. b) h)"
  using same_links_upd [of a h "\<lambda>_. b"]
  by (auto simp: same_state_def upd_block_def map_update intro!: list_update_same_conv [THEN iffD2])

lemma validate_hash_same:
  "validate_hash env b = Inr (ok, b') \<Longrightarrow>
     links b' = links b \<and> decided b' = decided b \<and> self_qc b' = self_qc b \<and> parsed_qc b' = parsed_qc b"
  by (auto simp: validate_hash_def links_def get_hash_def elim!: bindE_InrE split: if_splits)

lemma validate_hotstuff_at_ok:
  assumes "validate_hotstuff_at env cfg a h = Inr (ok, h')"
  shows "a < length h" and "same_state h h'"
    and "ok \<Longrightarrow> \<exists>qc. parsed_qc (h ! a) = Some qc \<and> verify env cfg qc = Inr True"
proof -
  obtain b' where a: "a < length h" and v: "validate_hotstuff env cfg (h ! a) = Inr (ok, b')"
    and h': "h' = upd_block a (\<lambda>_. b') h"
    using assms by (auto simp: validate_hotstuff_at_def deref_def elim!: bindE_InrE split: if_splits)
  obtain ok' where vh: "validate_hash env (h ! a) = Inr (ok', b')"
    using v by (auto simp: validate_hotstuff_def elim!: bindE_InrE split: if_splits)
  show "a < length h" by (rule a)
  show "same_state h h'" unfolding h' using same_state_upd [OF a] validate_hash_same [OF vh] by blast
  show "\<exists>qc. parsed_qc (h ! a) = Some qc \<and> verify env cfg qc = Inr True" if ok
    using v that validate_hash_same [OF vh] vh
    by (auto simp: validate_hotstuff_def get_justify_qc_def elim!: bindE_InrE split: if_splits)
qed

text \<open>What an event was checked for before it entered the queue.\<close>

definition net_valid :: "('bv, 'db, 'tx) env \<Rightarrow> ReplicaConfig \<Rightarrow> block_heap \<Rightarrow> NetEvent \<Rightarrow> bool" where
  "net_valid env cfg h e \<longleftrightarrow>
     (case e of
        VoteNetEvent cert voter \<Rightarrow>
          (\<exists>pk. get_publickey cfg voter = Inr pk \<and> check_sig env (cert_sig cert) (cert_hash cert) pk)
      | ProposalNetEvent a rid \<Rightarrow> (\<exists>qc. parsed_qc (h ! a) = Some qc \<and> verify env cfg qc = Inr True)
      | BlockReceiveNetEvent a rid \<Rightarrow> (\<exists>qc. parsed_qc (h ! a) = Some qc \<and> verify env cfg qc = Inr True))"

lemma NetEvent_validate_ok:
  assumes "NetEvent_validate env cfg e h = Inr (ok, h')"
  shows "same_state h h'" and "ok \<Longrightarrow> net_valid env cfg h e"
  using assms validate_hotstuff_at_ok
  by (atomize (full), cases e)
    (auto simp: net_valid_def get_publickey_def PartialCertificate_validate_def elim!: bindE_InrE)

lemma net_validate_and_add_event_ok:
  assumes "net_validate_and_add_event env e st = Inr st'"
  obtains ok h' where "same_state (heap st) h'" "ok \<Longrightarrow> net_valid env (config st) (heap st) e"
    "st' = st\<lparr>heap := h', network_event_queue :=
       (if ok then add_event e (network_event_queue st) else network_event_queue st)\<rparr>"
proof -
  obtain ok h' where v: "NetEvent_validate env (config st) e (heap st) = Inr (ok, h')"
    and st': "st' = (if ok then (st\<lparr>heap := h'\<rparr>)\<lparr>network_event_queue := add_event e (network_event_queue st)\<rparr>
      else st\<lparr>heap := h'\<rparr>)"
    using assms by (auto simp: net_validate_and_add_event_def Let_def elim!: bindE_InrE)
  show thesis
    using that [of h' ok] NetEvent_validate_ok [OF v] st' by (cases ok) simp_all
qed

end
