(* ===== verification/ReplicaSteps.thy ===== *)
theory ReplicaSteps
  imports ReplicaInv
begin

text \<open>
  Every step of every thread keeps the invariant of the replica, and no step ever changes the
  place of a block in the tree or forgets a block.
\<close>

section \<open>Messages from the network\<close>

lemma held_net_simps [simp]:
  "held_net (st\<lparr>heap := h\<rparr>) = held_net st"
  "held_net (st\<lparr>event_queue := eq\<rparr>) = held_net st"
  "held_net (st\<lparr>network_event_queue := add_event e (network_event_queue st)\<rparr>) = insert e (held_net st)"
  "held_net (st\<lparr>network_event_queue := add_events es (network_event_queue st)\<rparr>) = set es \<union> held_net st"
  by (auto simp: held_net_def pending_add_events)

lemma held_events_simps [simp]:
  "held_events (st\<lparr>heap := h\<rparr>) = held_events st"
  "held_events (st\<lparr>network_event_queue := nq\<rparr>) = held_events st"
  "held_events (st\<lparr>block_fetch_manager := fm\<rparr>) = held_events st"
  "held_events (st\<lparr>block_store := bs\<rparr>) = held_events st"
  "held_events (st\<lparr>event_queue := add_event e' (event_queue st)\<rparr>) = insert e' (held_events st)"
  by (auto simp: held_events_def)

lemma gc_tracked_same_heap:
  "replica_inv st \<Longrightarrow> heap_le (heap st) h' \<Longrightarrow> gc_tracked (gc_collector (block_store st)) \<subseteq> {..<length h'}"
  using replica_invD(5) [of st] by (auto simp: heap_le_def)

text \<open>A heap with the same tree and the same decisions.\<close>

lemma replica_inv_same_state:
  assumes "replica_inv st" "same_state (heap st) h'"
  shows "replica_inv (st\<lparr>heap := h'\<rparr>)"
proof -
  note D = replica_invD [OF assms(1)]
  have le: "heap_le (heap st) h'" using assms(2) by (intro same_links_le same_state_links)
  show ?thesis
    by (rule replica_inv_grow [OF assms(1)])
      (use le store_wf_same_links [OF D(2) same_state_links [OF assms(2)]] same_state_decided [OF assms(2)]
        gc_tracked_same_heap [OF assms(1) le] D(8) in simp_all)
qed

lemma replica_inv_net_add:
  assumes "replica_inv st" "\<And>e. e \<in> set es \<Longrightarrow> net_ok (heap st) e"
  shows "replica_inv (st\<lparr>network_event_queue := add_events es (network_event_queue st)\<rparr>)"
  using assms by (auto simp: replica_inv_def core_inv_def core_wf_def)

lemma add_event_add_events: "add_event e q = add_events [e] q"
  by (simp add: add_event_def add_events_def)

lemma net_validate_inv:
  assumes inv: "replica_inv st" and e: "net_ok (heap st) e"
    and v: "net_validate_and_add_event env e st = Inr st'"
  shows "replica_inv st'" and "heap_le (heap st) (heap st')"
proof -
  obtain ok h' where h': "same_state (heap st) h'"
    and st': "st' = st\<lparr>heap := h', network_event_queue :=
       (if ok then add_event e (network_event_queue st) else network_event_queue st)\<rparr>"
    by (rule net_validate_and_add_event_ok [OF v])
  note inv' = replica_inv_same_state [OF inv h']
  have le: "heap_le (heap st) h'" using h' by (intro same_links_le same_state_links)
  show "replica_inv st'"
    using inv' replica_inv_net_add [OF inv', of "[e]"] net_ok_le [OF e le] st'
    by (cases ok) (simp_all add: add_event_add_events)
  show "heap_le (heap st) (heap st')" using le st' by simp
qed

lemma replica_inv_alloc:
  assumes inv: "replica_inv st"
    and b: "parent_block_ptr b = None" "justify_block_ptr b = None" "block_height b = 0" "\<not> decided b"
  shows "replica_inv (st\<lparr>heap := heap st @ [b]\<rparr>)" and "heap_le (heap st) (heap st @ [b])"
proof -
  note D = replica_invD [OF inv]
  show le: "heap_le (heap st) (heap st @ [b])"
    using heap_le_alloc [of "heap st" b] by (simp add: alloc_block_def)
  have "decided_same (heap st) (heap st @ [b])"
    using b(4) by (auto simp: decided_same_def nth_append split: if_splits)
  then show "replica_inv (st\<lparr>heap := heap st @ [b]\<rparr>)"
    by (intro replica_inv_grow [OF inv])
      (use le store_wf_alloc [OF D(2) b(1-3)] gc_tracked_same_heap [OF inv le] D(8) in simp_all)
qed

lemma new_HotstuffBlock_fields:
  assumes "new_HotstuffBlock env wire rid = Inr b"
  shows "parent_block_ptr b = None" and "justify_block_ptr b = None" and "block_height b = 0"
    and "\<not> decided b" and "parsed_qc b = Some (parse_QuorumCertificate env (header_qc (header wire)))"
    and "self_qc b = new_QuorumCertificate (get_hash b)" and "wire_block b = wire" and "proposer b = rid"
    and "hash_header env (header wire) = Inr (get_hash b)"
  using assms by (auto simp: new_HotstuffBlock_def get_hash_def elim!: bindE_InrE)

lemma handler_vote_inv:
  assumes "replica_inv st" "handler_vote env v st = Inr st'"
  shows "replica_inv st'" and "heap_le (heap st) (heap st')"
  using assms net_validate_inv [OF assms(1), of "new_VoteNetEvent v" env st']
  by (auto simp: handler_vote_def net_ok_def new_VoteNetEvent_def split: if_splits)

lemma handler_propose_inv:
  assumes inv: "replica_inv st" and h: "handler_propose env p st = Inr st'"
  shows "replica_inv st'" and "heap_le (heap st) (heap st')"
proof -
  have "replica_inv st' \<and> heap_le (heap st) (heap st')"
  proof (cases "is_valid_replica (config st) (msg_proposer p)")
    case False
    then show ?thesis using inv h by (simp add: handler_propose_def del: is_valid_replica_iff)
  next
    case True
    then obtain b where b: "new_HotstuffBlock env (msg_proposal p) (msg_proposer p) = Inr b"
      and v: "net_validate_and_add_event env (ProposalNetEvent (length (heap st)) (msg_proposer p))
        (st\<lparr>heap := heap st @ [b]\<rparr>) = Inr st'"
      using h by (auto simp: handler_propose_def new_ProposalNetEvent_def receive_block_def alloc_block_def
          simp del: is_valid_replica_iff elim!: bindE_InrE)
    note B = new_HotstuffBlock_fields [OF b]
    note A = replica_inv_alloc [OF inv B(1-4)]
    show ?thesis
      using net_validate_inv [OF A(1) _ v] A(2) B(5) heap_le_trans [OF A(2), of "heap st'"]
      by (simp add: net_ok_def)
  qed
  then show "replica_inv st'" "heap_le (heap st) (heap st')" by auto
qed

section \<open>The fetch worker\<close>

lemma replica_inv_upd_worker:
  assumes "replica_inv st"
  shows "replica_inv (upd_worker rid f st)" and "heap (upd_worker rid f st) = heap st"
proof -
  let ?fm = "block_fetch_manager (upd_worker rid f st)"
  note W = fetch_wfD [OF replica_invD(8) [OF assms]]
  have q: "\<exists>q'. queues (block_fetch_manager st) r = Some q' \<and> fq_outstanding_reqs q = fq_outstanding_reqs q'"
    if "queues ?fm r = Some q" for r q
    using that by (cases "r = rid") (auto simp: upd_worker_def)
  have fm: "outstanding_reqs ?fm = outstanding_reqs (block_fetch_manager st)"
    "request_ctxs ?fm = request_ctxs (block_fetch_manager st)"
    by (simp_all add: upd_worker_def)
  have "c < length (request_ctxs ?fm)" if "queues ?fm r = Some q" "c \<in> set (fq_outstanding_reqs q)" for r q c
    using q [OF that(1)] W(5) that(2) fm by metis
  then have "fetch_wf ?fm"
    using replica_invD(8) [OF assms] unfolding fetch_wf_def fm by blast
  moreover have "dependents ?fm = dependents (block_fetch_manager st)"
    by (simp add: dependents_def upd_worker_def)
  ultimately show "replica_inv (upd_worker rid f st)"
    using assms by (simp add: replica_inv_def held_net_def held_events_def core_inv_def core_wf_def upd_worker_def)
  show "heap (upd_worker rid f st) = heap st" by (simp add: upd_worker_def)
qed

lemma fetch_deliver_inv:
  assumes inv: "replica_inv st" and d: "fetch_deliver env rid resp st = Inr st'"
  shows "replica_inv st'" and "heap_le (heap st) (heap st')"
proof -
  obtain b b' ok where b: "new_HotstuffBlock env resp rid = Inr b" and vh: "validate_hash env b = Inr (ok, b')"
    and v: "net_validate_and_add_event env (BlockReceiveNetEvent (length (heap st)) rid)
      (st\<lparr>heap := heap st @ [b']\<rparr>) = Inr st'"
    using d by (auto simp: fetch_deliver_def receive_block_def alloc_block_def deref_def upd_block_def
        elim!: bindE_InrE split: if_splits)
  note B = new_HotstuffBlock_fields [OF b] and S = validate_hash_same [OF vh]
  note A = replica_inv_alloc [OF inv, of b']
  have f: "parent_block_ptr b' = None" "justify_block_ptr b' = None" "block_height b' = 0" "\<not> decided b'"
    "parsed_qc b' \<noteq> None"
    using B S by (auto simp: links_def)
  show "replica_inv st'" "heap_le (heap st) (heap st')"
    using net_validate_inv [OF A(1) _ v] f A(2) heap_le_trans [OF A(2), of "heap st'"]
    by (simp_all add: net_ok_def)
qed

lemma fetch_worker_end_inv:
  assumes inv: "replica_inv st" and e: "fetch_worker_end env rid res st = Inr st'"
  shows "replica_inv st'" and "heap_le (heap st) (heap st')"
proof -
  have "replica_inv st' \<and> heap_le (heap st) (heap st')"
    using e
  proof (cases rule: fetch_worker_end_cases)
    case idle
    then show ?thesis using inv by simp
  next
    case failed
    then show ?thesis using replica_inv_upd_worker [OF inv] by simp
  next
    case (answered responses)
    let ?st = "upd_worker rid (\<lambda>w. w\<lparr>in_flight := []\<rparr>) st"
    show ?thesis using answered(2)
    proof (rule foldE_invariant)
      show "replica_inv ?st \<and> heap_le (heap st) (heap ?st)"
        using replica_inv_upd_worker [OF inv] by simp
      show "replica_inv s' \<and> heap_le (heap st) (heap s')"
        if "replica_inv s \<and> heap_le (heap st) (heap s)" "fetch_deliver env rid x s = Inr s'" for x s s'
        using that fetch_deliver_inv [of s env rid x s'] heap_le_trans by blast
    qed
  qed
  then show "replica_inv st'" "heap_le (heap st) (heap st')" by auto
qed

section \<open>The network thread\<close>

lemma fetch_request_inv:
  assumes inv: "replica_inv st" and es: "\<And>e. e \<in> set es \<Longrightarrow> net_ok (heap st) e"
    and f: "fetch_request hash target es st = Inr st'"
  shows "replica_inv st'" and "heap st' = heap st"
proof -
  obtain fm where fm: "add_fetch_request (config st) hash target es (block_fetch_manager st) = Inr fm"
    and st': "st' = st\<lparr>block_fetch_manager := fm\<rparr>"
    using f by (auto simp: fetch_request_def elim!: bindE_InrE)
  note F = add_fetch_request_cases [OF replica_invD(8) [OF inv] fm]
  have net: "net_ok (heap st) e" if "e \<in> held_net st'" for e
    using that F(2) es replica_invD(6) [OF inv, of e] by (auto simp: held_net_def st')
  show "replica_inv st'"
    using inv F(1) net unfolding replica_inv_def by (simp add: st' core_inv_def core_wf_def)
  show "heap st' = heap st" by (simp add: st')
qed

lemma request_dependencies_inv:
  assumes inv: "replica_inv st" and es: "\<And>e. e \<in> set es \<Longrightarrow> net_ok (heap st) e"
    and f: "request_dependencies missing sender es st = Inr st'"
  shows "replica_inv st'" and "heap st' = heap st"
proof -
  obtain es1 st1 where 1: "replica_inv st1" "heap st1 = heap st" "set es1 \<subseteq> set es"
    and 2: "(case missing_justify missing of None \<Rightarrow> Inr st1
      | Some hash \<Rightarrow> fetch_request hash sender es1 st1) = Inr st'"
  proof (cases "missing_parent missing")
    case None
    then show thesis using that [of st es] inv f by (simp add: request_dependencies_def)
  next
    case (Some hash)
    then obtain st1 where st1: "fetch_request hash sender es st = Inr st1"
      and rest: "(case missing_justify missing of None \<Rightarrow> Inr st1
        | Some hash \<Rightarrow> fetch_request hash sender [] st1) = Inr st'"
      using f by (auto simp: request_dependencies_def elim!: bindE_InrE)
    show thesis using that [of st1 "[]"] fetch_request_inv [OF inv es st1] rest by simp
  qed
  have "replica_inv st' \<and> heap st' = heap st"
  proof (cases "missing_justify missing")
    case None
    then show ?thesis using 1 2 by simp
  next
    case (Some hash)
    then have f2: "fetch_request hash sender es1 st1 = Inr st'" using 2 by simp
    have "net_ok (heap st1) e" if "e \<in> set es1" for e using es 1 that by auto
    from fetch_request_inv [OF 1(1) this f2] show ?thesis using 1 by simp
  qed
  then show "replica_inv st'" "heap st' = heap st" by auto
qed

lemma votes_upd:
  assumes "\<And>b. decided (f b) = decided b" "\<And>b. self_qc (f b) = self_qc b"
  shows "map (\<lambda>b. (decided b, self_qc b)) (upd_block a f h) = map (\<lambda>b. (decided b, self_qc b)) h"
  by (cases "a < length h", rule nth_equalityI)
    (auto simp: upd_block_def nth_list_update list_update_beyond assms)

lemma insert_block_votes:
  assumes ins: "insert_block a h bs = Inr (missing, h', bs')"
  shows "map (\<lambda>b. (decided b, self_qc b)) h' = map (\<lambda>b. (decided b, self_qc b)) h"
    and "gc_tracked (gc_collector bs') \<subseteq> insert a (gc_tracked (gc_collector bs))"
    and "cache_le bs bs'" and "a < length h"
proof -
  obtain jh where a: "a < length h" and jh: "get_justify_hash (h ! a) = Inr jh"
    using ins by (auto simp: insert_block_def deref_def elim!: bindE_InrE split: if_splits)
  then show "a < length h" by simp
  have "map (\<lambda>b. (decided b, self_qc b)) h' = map (\<lambda>b. (decided b, self_qc b)) h \<and>
    gc_tracked (gc_collector bs') \<subseteq> insert a (gc_tracked (gc_collector bs)) \<and> cache_le bs bs'"
  proof (cases "block_cache bs (get_parent_hash (h ! a)) = None \<or> block_cache bs jh = None")
    case True
    then have "h' = h \<and> bs' = bs"
      using ins a jh by (auto simp: insert_block_def deref_def Let_def split: option.splits)
    then show ?thesis by auto
  next
    case False
    then obtain p j where "block_cache bs (get_parent_hash (h ! a)) = Some p" "block_cache bs jh = Some j" by auto
    then obtain h1 where h1: "set_parent a p h = Inr h1" and h2: "set_justify a j h1 = Inr h'"
      and bs': "bs' = bs\<lparr>block_cache := emplace (get_hash (h ! a)) a (block_cache bs),
        gc_collector := gc_add_block a (gc_collector bs)\<rparr>"
      using ins a jh by (auto simp: insert_block_def deref_def Let_def elim!: bindE_InrE)
    have "map (\<lambda>b. (decided b, self_qc b)) h1 = map (\<lambda>b. (decided b, self_qc b)) h"
      using h1 by (auto simp: set_parent_def intro: votes_upd elim!: bindE_InrE)
    moreover have "map (\<lambda>b. (decided b, self_qc b)) h' = map (\<lambda>b. (decided b, self_qc b)) h1"
      using h2 by (auto simp: set_justify_def intro: votes_upd elim!: bindE_InrE)
    moreover have "gc_tracked (gc_collector bs') \<subseteq> insert a (gc_tracked (gc_collector bs))"
      by (auto simp: bs' gc_tracked_def gc_add_block_def)
    moreover have "cache_le bs bs'" by (auto simp: bs' cache_le_def map_le_def emplace_def)
    ultimately show ?thesis by simp
  qed
  then show "map (\<lambda>b. (decided b, self_qc b)) h' = map (\<lambda>b. (decided b, self_qc b)) h"
    "gc_tracked (gc_collector bs') \<subseteq> insert a (gc_tracked (gc_collector bs))" "cache_le bs bs'"
    by auto
qed

lemma votes_decided_same:
  assumes "map (\<lambda>b. (decided b, self_qc b)) h' = map (\<lambda>b. (decided b, self_qc b)) h"
  shows "decided_same h h'"
proof -
  have len: "length h' = length h" using assms map_eq_imp_length_eq by blast
  have "decided (h' ! a) = decided (h ! a)" if "a < length h" for a
    using arg_cong [OF assms, of "\<lambda>xs. xs ! a"] that len by simp
  then show ?thesis using len by (simp add: decided_same_def)
qed

text \<open>Inserting a block that waits in the network queue.\<close>

lemma insert_block_inv:
  assumes inv: "replica_inv st" and room: "height_room (heap st) (block_store st)"
    and qc: "parsed_qc (heap st ! a) \<noteq> None"
    and ins: "insert_block a (heap st) (block_store st) = Inr (missing, h, store)"
  shows "replica_inv (st\<lparr>heap := h, block_store := store\<rparr>)" and "heap_le (heap st) h"
    and "\<not> MissingDependencies_bool missing \<Longrightarrow> in_store h store a \<and> parent_block_ptr (h ! a) \<noteq> None"
proof -
  note D = replica_invD [OF inv] and V = insert_block_votes [OF ins]
  obtain q where q: "parsed_qc (heap st ! a) = Some q" using qc by blast
  obtain missing' h' bs' where "insert_block a (heap st) (block_store st) = Inr (missing', h', bs')"
    and "store_wf h' bs'" and "heap_le (heap st) h'"
    and "if MissingDependencies_bool missing' then h' = heap st \<and> bs' = block_store st
      else inserted a (heap st) (block_store st) h' bs'"
    by (rule insert_block_ok [OF D(2) room V(4) q]) blast
  then have wf: "store_wf h store" and le: "heap_le (heap st) h"
    and new: "\<not> MissingDependencies_bool missing \<Longrightarrow> inserted a (heap st) (block_store st) h store"
    using ins by (auto split: if_splits)
  have "gc_tracked (gc_collector store) \<subseteq> {..<length h}"
    using V(2,4) gc_tracked_same_heap [OF inv le] le by (auto simp: heap_le_def)
  then show "replica_inv (st\<lparr>heap := h, block_store := store\<rparr>)"
    by (intro replica_inv_grow [OF inv])
      (use le wf V(3) votes_decided_same [OF V(1)] D(8) in \<open>simp_all add: held_net_def\<close>)
  show "heap_le (heap st) h" by (rule le)
  show "in_store h store a \<and> parent_block_ptr (h ! a) \<noteq> None" if "\<not> MissingDependencies_bool missing"
    using new [OF that] V(4) heap_leD(5) [OF le V(4)]
    by (auto simp: inserted_def in_store_def rooted_def emplace_def split: if_splits)
qed

lemma replica_inv_deliver:
  assumes inv: "replica_inv st" and d: "deliver_block hash (block_fetch_manager st) = (es, fm)"
  shows "replica_inv (st\<lparr>block_fetch_manager := fm\<rparr>)" and "e \<in> set es \<Longrightarrow> net_ok (heap st) e"
proof -
  note F = deliver_block_ok [OF replica_invD(8) [OF inv] d]
  have "net_ok (heap st) e" if "e \<in> held_net (st\<lparr>block_fetch_manager := fm\<rparr>)" for e
    using that F(4) replica_invD(6) [OF inv, of e] by (auto simp: held_net_def)
  then show "replica_inv (st\<lparr>block_fetch_manager := fm\<rparr>)"
    using inv F(1) unfolding replica_inv_def by (simp add: core_inv_def core_wf_def)
  show "e \<in> set es \<Longrightarrow> net_ok (heap st) e"
    using F(5) replica_invD(6) [OF inv, of e] by (auto simp: held_net_def)
qed

lemma net_insert_inv:
  assumes inv: "replica_inv st" and room: "height_room (heap st) (block_store st)"
    and e: "net_ok (heap st) e" and qc: "parsed_qc (heap st ! a) \<noteq> None"
    and ins: "net_insert e a sender st = Inr (ok, st')"
  shows "replica_inv st'" and "heap_le (heap st) (heap st')"
    and "ok \<Longrightarrow> in_store (heap st') (block_store st') a \<and> parent_block_ptr (heap st' ! a) \<noteq> None"
proof -
  obtain missing h store es fm where i: "insert_block a (heap st) (block_store st) = Inr (missing, h, store)"
    and d: "deliver_block (get_hash (h ! a)) (block_fetch_manager st) = (es, fm)"
    and rest: "(if \<not> MissingDependencies_bool missing
      then Inr (True, st\<lparr>heap := h, block_store := store, block_fetch_manager := fm,
        network_event_queue := add_events es (network_event_queue st)\<rparr>)
      else bindE (request_dependencies missing sender (es @ [e])
          (st\<lparr>heap := h, block_store := store, block_fetch_manager := fm\<rparr>)) (\<lambda>st. Inr (False, st))) = Inr (ok, st')"
    using ins by (auto simp: net_insert_def Let_def deref_def elim!: bindE_InrE split: prod.splits if_splits)
  let ?st = "st\<lparr>heap := h, block_store := store\<rparr>"
  note I = insert_block_inv [OF inv room qc i]
  note R = replica_inv_deliver [OF I(1), of "get_hash (h ! a)" es fm]
  have d': "deliver_block (get_hash (h ! a)) (block_fetch_manager ?st) = (es, fm)" using d by simp
  have es: "net_ok h x" if "x \<in> set (es @ [e])" for x
    using that R(2) [OF d'] net_ok_le [OF e I(2)] by auto
  have "replica_inv st' \<and> heap st' = h \<and> (ok \<longrightarrow> block_store st' = store \<and> \<not> MissingDependencies_bool missing)"
  proof (cases "MissingDependencies_bool missing")
    case False
    then show ?thesis
      using rest replica_inv_net_add [OF R(1) [OF d'], of es] es by auto
  next
    case True
    then obtain "request_dependencies missing sender (es @ [e]) (?st\<lparr>block_fetch_manager := fm\<rparr>) = Inr st'" "\<not> ok"
      using rest by (auto elim!: bindE_InrE)
    then show ?thesis
      using request_dependencies_inv [OF R(1) [OF d'], of "es @ [e]"] es by simp
  qed
  then show "replica_inv st'" "heap_le (heap st) (heap st')"
    "ok \<Longrightarrow> in_store (heap st') (block_store st') a \<and> parent_block_ptr (heap st' ! a) \<noteq> None"
    using I(2,3) by auto
qed

lemma add_core_event_inv:
  assumes inv: "replica_inv st" and e: "event_ok (heap st) (block_store st) e"
    and add: "validate_and_add_event e st = Inr st'"
  shows "replica_inv st'" and "heap st' = heap st"
proof -
  obtain ok where st': "st' = (if ok then st\<lparr>event_queue := add_event e (event_queue st)\<rparr> else st)"
    by (rule validate_and_add_event_ok [OF add])
  show "replica_inv st'"
    using inv e st' unfolding replica_inv_def by (cases ok) (auto simp: core_inv_def core_wf_def)
  show "heap st' = heap st" using st' by simp
qed

lemma cached_in_store:
  assumes "store_wf h bs" "block_cache bs hash = Some a"
  shows "in_store h bs a" and "get_hash (h ! a) = hash"
  using store_wfD(2,3,4) [OF assms] assms(2) by (simp_all add: in_store_def rooted_def)

lemma net_on_event_inv:
  assumes inv: "replica_inv st" and room: "height_room (heap st) (block_store st)"
    and e: "net_ok (heap st) e" and on: "net_on_event e st = Inr st'"
  shows "replica_inv st'" and "heap_le (heap st) (heap st')"
proof -
  have "replica_inv st' \<and> heap_le (heap st) (heap st')"
  proof (cases e)
    case (VoteNetEvent cert voter)
    show ?thesis
    proof (cases "block_cache (block_store st) (cert_hash cert)")
      case None
      then have f: "fetch_request (cert_hash cert) voter [e] st = Inr st'"
        using on VoteNetEvent by (simp add: get_block_def)
      show ?thesis using fetch_request_inv [OF inv _ f] e by simp
    next
      case (Some a)
      then have add: "validate_and_add_event (VoteEvent voter cert a) st = Inr st'"
        using on VoteNetEvent by (simp add: get_block_def VoteNetEvent_to_hotstuff_event_def)
      have "event_ok (heap st) (block_store st) (VoteEvent voter cert a)"
        using cached_in_store(1) [OF replica_invD(2) [OF inv] Some] by (simp add: event_ok_def)
      from add_core_event_inv [OF inv this add] show ?thesis by simp
    qed
  next
    case (ProposalNetEvent a rid)
    have "bindE (net_insert e a rid st) (\<lambda>(ok, st1).
        if ok then validate_and_add_event (ProposalEvent rid a) st1 else Inr st1) = Inr st'"
      using on unfolding ProposalNetEvent net_on_event.simps ProposalNetEvent_to_hotstuff_event_def .
    then obtain r where r: "net_insert e a rid st = Inr r" "(case r of (ok, st1) \<Rightarrow>
        if ok then validate_and_add_event (ProposalEvent rid a) st1 else Inr st1) = Inr st'"
      by (rule bindE_InrE)
    obtain ok st1 where i: "net_insert e a rid st = Inr (ok, st1)"
      and rest: "(if ok then validate_and_add_event (ProposalEvent rid a) st1 else Inr st1) = Inr st'"
      using r by (cases r) simp
    have qc: "parsed_qc (heap st ! a) \<noteq> None" using e ProposalNetEvent by (simp add: net_ok_def)
    note I = net_insert_inv [OF inv room e qc i]
    show ?thesis
      using rest I add_core_event_inv [OF I(1), of "ProposalEvent rid a" st']
      by (cases ok) (auto simp: event_ok_def)
  next
    case (BlockReceiveNetEvent a rid)
    then obtain ok where i: "net_insert e a rid st = Inr (ok, st')"
      using on by (auto elim!: bindE_InrE)
    have qc: "parsed_qc (heap st ! a) \<noteq> None" using e BlockReceiveNetEvent by (simp add: net_ok_def)
    show ?thesis using net_insert_inv [OF inv room e qc i] by simp
  qed
  then show "replica_inv st'" "heap_le (heap st) (heap st')" by auto
qed

lemma queue_pop:
  assumes "queue_next (queue_take q) = Some (e, q')"
  shows "pending_events q = e # pending_events q'"
  using gq.pending_next [OF assms] by (simp add: gq.pending_take)

lemma network_thread_inv:
  assumes inv: "replica_inv st" and room: "height_room (heap st) (block_store st)"
    and n: "network_thread st = Inr st'"
  shows "replica_inv st'" and "heap_le (heap st) (heap st')"
proof -
  have "replica_inv st' \<and> heap_le (heap st) (heap st')"
  proof (cases "queue_next (queue_take (network_event_queue st))")
    case None
    then show ?thesis using n inv by (simp add: network_thread_def)
  next
    case (Some eq)
    obtain e q where eq: "eq = (e, q)" by (cases eq)
    have pend: "pending_events (network_event_queue st) = e # pending_events q"
      using queue_pop [of "network_event_queue st" e q] Some eq by simp
    let ?st = "st\<lparr>network_event_queue := q\<rparr>"
    have "held_net ?st \<subseteq> held_net st" and e: "e \<in> held_net st" by (auto simp: held_net_def pend)
    then have inv': "replica_inv ?st"
      using inv unfolding replica_inv_def by (auto simp: core_inv_def core_wf_def)
    have "net_on_event e ?st = Inr st'" using n Some eq by (simp add: network_thread_def)
    then show ?thesis
      using net_on_event_inv [OF inv', of e st'] room replica_invD(6) [OF inv e] by simp
  qed
  then show "replica_inv st'" "heap_le (heap st) (heap st')" by auto
qed

text \<open>The tree only grows, also without the assumption on the heights.\<close>

lemma fetch_request_heap: "fetch_request hash target es st = Inr st' \<Longrightarrow> heap st' = heap st"
  by (auto simp: fetch_request_def elim!: bindE_InrE)

lemma request_dependencies_heap: "request_dependencies m sender es st = Inr st' \<Longrightarrow> heap st' = heap st"
  by (auto simp: request_dependencies_def fetch_request_heap elim!: bindE_InrE split: option.splits)

lemma validate_and_add_event_heap: "validate_and_add_event e st = Inr st' \<Longrightarrow> heap st' = heap st"
  by (auto simp: validate_and_add_event_def elim!: bindE_InrE)

lemma net_insert_heap:
  assumes "net_insert e a sender st = Inr (ok, st')"
  shows "\<exists>missing store. insert_block a (heap st) (block_store st) = Inr (missing, heap st', store)"
proof -
  obtain missing h store where i: "insert_block a (heap st) (block_store st) = Inr (missing, h, store)"
    and "heap st' = h"
    using assms by (auto simp: net_insert_def Let_def dest!: request_dependencies_heap elim!: bindE_InrE
        split: prod.splits if_splits)
  then show ?thesis by simp
qed

lemma net_on_event_le:
  assumes wf: "store_wf (heap st) (block_store st)" and e: "net_ok (heap st) e" and on: "net_on_event e st = Inr st'"
  shows "heap_le (heap st) (heap st')"
proof -
  have ins: "heap_le (heap st) (heap st1)"
    if i: "net_insert e a sender st = Inr (ok, st1)" and qc: "parsed_qc (heap st ! a) \<noteq> None" for a sender ok st1
  proof -
    obtain q where "parsed_qc (heap st ! a) = Some q" using qc by blast
    then show ?thesis using net_insert_heap [OF i] insert_block_le [OF wf] by blast
  qed
  show ?thesis
  proof (cases e)
    case (VoteNetEvent cert voter)
    then have "heap st' = heap st"
      using on by (auto dest: fetch_request_heap validate_and_add_event_heap split: option.splits)
    then show ?thesis by simp
  next
    case (ProposalNetEvent a rid)
    then obtain ok st1 where "net_insert e a rid st = Inr (ok, st1)" "heap st' = heap st1"
      using on by (auto dest!: validate_and_add_event_heap elim!: bindE_InrE split: if_splits)
    then show ?thesis using ins e ProposalNetEvent by (auto simp: net_ok_def)
  next
    case (BlockReceiveNetEvent a rid)
    then obtain ok where "net_insert e a rid st = Inr (ok, st')" using on by (auto elim!: bindE_InrE)
    then show ?thesis using ins e BlockReceiveNetEvent by (auto simp: net_ok_def)
  qed
qed

lemma network_thread_le:
  assumes inv: "replica_inv st" and n: "network_thread st = Inr st'"
  shows "heap_le (heap st) (heap st')"
proof (cases "queue_next (queue_take (network_event_queue st))")
  case None
  then show ?thesis using n by (simp add: network_thread_def)
next
  case (Some eq)
  obtain e q where eq: "eq = (e, q)" by (cases eq)
  have "pending_events (network_event_queue st) = e # pending_events q"
    using queue_pop [of "network_event_queue st" e q] Some eq by simp
  then have "net_ok (heap st) e" using replica_invD(6) [OF inv, of e] by (simp add: held_net_def)
  moreover have "net_on_event e (st\<lparr>network_event_queue := q\<rparr>) = Inr st'"
    using n Some eq by (simp add: network_thread_def)
  ultimately show ?thesis
    using net_on_event_le [of "st\<lparr>network_event_queue := q\<rparr>" e st'] replica_invD(2) [OF inv] by simp
qed

section \<open>The garbage collector\<close>

lemma same_state_flush: "same_state h (flush_all S h)"
  by (auto simp: same_state_def nth_upd_all flush_from_memory_def links_def get_hash_def
      intro!: same_links_upd_all nth_equalityI)

lemma gc_run_step_effect:
  assumes "gc_run_step gc h = Inr (gc', h')" "gc_tracked gc \<subseteq> {..<length h}"
  shows "same_state h h'" and "gc_tracked gc' \<subseteq> gc_tracked gc"
proof -
  let ?xs = "gc_list gc @ gc_list_buffer gc"
  obtain hh where r: "do_gc hh 0 ?xs h = Inr (gc_list gc', h')" and b: "gc_list_buffer gc' = []"
    using assms(1) by (auto simp: gc_run_step_def push_buffer_to_gc_list_def Let_def elim!: bindE_InrE)
  have "do_gc hh 0 ?xs h = Inr (swap_remove (stale hh h) 0 ?xs, flush_all {a \<in> set (drop 0 ?xs). stale hh h a} h)"
    using assms(2) by (intro do_gc_result) (simp add: gc_tracked_def)
  then have l: "gc_list gc' = swap_remove (stale hh h) 0 ?xs" and h': "h' = flush_all {a \<in> set ?xs. stale hh h a} h"
    using r by simp_all
  have "set_mset (mset (swap_remove (stale hh h) 0 ?xs)) \<subseteq> set_mset (mset ?xs)"
    unfolding mset_swap_remove by (rule multiset_filter_subset [THEN set_mset_mono])
  then show "gc_tracked gc' \<subseteq> gc_tracked gc" by (simp add: gc_tracked_def b l)
  show "same_state h h'" unfolding h' by (rule same_state_flush)
qed

lemma gc_thread_inv:
  assumes inv: "replica_inv st" and g: "gc_thread st = Inr st'"
  shows "replica_inv st'" and "heap_le (heap st) (heap st')"
proof -
  have "replica_inv st' \<and> heap_le (heap st) (heap st')"
  proof (cases "gc_exists_work_to_do (gc_collector (block_store st))")
    case False
    then show ?thesis using g inv by (simp add: gc_thread_def)
  next
    case True
    then obtain gc h where r: "gc_run_step (gc_collector (block_store st)) (heap st) = Inr (gc, h)"
      and st': "st' = st\<lparr>heap := h, block_store := (block_store st)\<lparr>gc_collector := gc\<rparr>\<rparr>"
      using g by (auto simp: gc_thread_def elim!: bindE_InrE)
    note G = gc_run_step_effect [OF r replica_invD(5) [OF inv]]
    have le: "heap_le (heap st) h" using G(1) by (intro same_links_le same_state_links)
    have gc: "gc_tracked gc \<subseteq> {..<length h}"
      using G(2) gc_tracked_same_heap [OF inv le] by simp
    have wf: "store_wf h (block_store st')"
      by (rule store_wf_same_links [OF replica_invD(2) [OF inv] same_state_links [OF G(1)]]) (simp add: st')
    have "replica_inv st'"
      by (rule replica_inv_grow [OF inv])
        (use le wf gc same_state_decided [OF G(1)] replica_invD(8) [OF inv] in
          \<open>simp_all add: st' held_net_def cache_le_def\<close>)
    then show ?thesis using le st' by simp
  qed
  then show "replica_inv st'" "heap_le (heap st) (heap st')" by auto
qed

end
