(* ===== verification/ReplicaThreads.thy ===== *)
theory ReplicaThreads
  imports ReplicaSteps
begin

text \<open>
  The thread that runs the consensus core, the thread that proposes, and the theorem that a
  replica keeps its invariant whatever its threads and its peers do.
\<close>

section \<open>The core thread\<close>

lemma core_le_heap: "core_le st st' \<Longrightarrow> same_links (heap st) (heap st')"
  by (simp add: core_le_def)

text \<open>A call into the core keeps the invariant, if what it certifies is in the store.\<close>

lemma core_call_inv:
  assumes inv: "replica_inv st" and core: "core_inv st'" and le: "core_le st st'" and rel: "base_rel b st st'"
    and b: "in_store (heap st) (block_store st) b"
    and hq: "in_store (heap st) (block_store st) (fst (hqc st'))"
    and leaf: "in_store (heap st) (block_store st) (b_leaf st')"
  shows "replica_inv st'"
proof -
  note D = replica_invD [OF inv]
  have sl: "same_links (heap st) (heap st')" using le by (rule core_le_heap)
  then have hle: "heap_le (heap st) (heap st')" by (rule same_links_le)
  have bc: "block_cache (block_store st') = block_cache (block_store st)" using rel by (simp add: base_rel_def)
  then have cle: "cache_le (block_store st) (block_store st')" by (simp add: cache_le_def)
  have net: "held_net st' = held_net st" using rel by (simp add: base_rel_def held_net_def)
  have ev: "e \<in> held_events st \<or> ev_block e = b" if "e \<in> held_events st'" for e
    using rel that by (auto simp: base_rel_def held_events_def)
  have gc: "gc_tracked (gc_collector (block_store st')) \<subseteq> {..<length (heap st')}"
    using rel gc_tracked_same_heap [OF inv hle] by (simp add: base_rel_def)
  have wf: "store_wf (heap st') (block_store st')" using store_wf_same_links [OF D(2) sl bc] .
  have f: "fetch_wf (block_fetch_manager st')" using rel D(8) by (simp add: base_rel_def)
  have "event_ok (heap st') (block_store st') e" if "e \<in> held_events st'" for e
    using ev [OF that] event_ok_le [OF D(7) hle cle] in_store_le [OF b hle cle] by (auto simp: event_ok_def)
  then show ?thesis
    using core wf f gc in_store_le [OF hq hle cle] in_store_le [OF leaf hle cle] net net_ok_le [OF D(6) hle]
    unfolding replica_inv_def by blast
qed

context app_contract
begin

lemma on_event_inv:
  assumes inv: "replica_inv st" and e: "event_ok (heap st) (block_store st) e"
    and on: "on_event vt env e st = Inr st'"
  shows "replica_inv st'" and "heap_le (heap st) (heap st')"
proof -
  note D = replica_invD [OF inv]
  have b: "in_store (heap st) (block_store st) (ev_block e)" using e by (simp add: event_ok_def)
  then have rb: "rooted (heap st) (ev_block e)" by (simp add: in_store_def)
  have "replica_inv st' \<and> core_le st st'"
  proof (cases e)
    case (VoteEvent rid cert a)
    then have v: "on_receive_vote vt env cert a rid st = Inr st'" using on by simp
    note C = on_receive_vote_inv [OF D(1) v]
    have "in_store (heap st) (block_store st) (fst (hqc st')) \<and> in_store (heap st) (block_store st) (b_leaf st')"
      using on_receive_vote_hqc [OF v] D(3,4) b VoteEvent by auto
    then show ?thesis
      using core_call_inv [OF inv C core_frame.on_receive_vote_rel [OF core_relation.axioms(1) [OF base_relation] v, of a]] b rb C VoteEvent
      by simp
  next
    case (ProposalEvent rid a)
    then have p: "on_receive_proposal vt env a rid st = Inr st'" using on by simp
    note C = on_receive_proposal_inv [OF D(1) p]
    have "in_store (heap st) (block_store st) j" if "justify_block_ptr (heap st ! a) = Some j" for j
      using cached_in_store(1) [OF D(2) store_wfD(6) [OF D(2) _ that]] rooted_addr [OF rb] ProposalEvent by simp
    then have "in_store (heap st) (block_store st) (fst (hqc st')) \<and> in_store (heap st) (block_store st) (b_leaf st')"
      using on_receive_proposal_hqc [OF D(1) p] D(3,4) by auto
    then show ?thesis
      using core_call_inv [OF inv C core_relation.on_receive_proposal_rel [OF base_relation p]] b C ProposalEvent
      by simp
  qed
  then show "replica_inv st'" "heap_le (heap st) (heap st')" using same_links_le core_le_heap by auto
qed

lemma core_thread_inv:
  assumes inv: "replica_inv st" and c: "core_thread vt env st = Inr st'"
  shows "replica_inv st'" and "heap_le (heap st) (heap st')"
proof -
  have "replica_inv st' \<and> heap_le (heap st) (heap st')"
  proof (cases "queue_next (queue_take (event_queue st))")
    case None
    then show ?thesis using c inv by (simp add: core_thread_def)
  next
    case (Some eq)
    obtain e q where eq: "eq = (e, q)" by (cases eq)
    have pend: "pending_events (event_queue st) = e # pending_events q"
      using queue_pop [of "event_queue st" e q] Some eq by simp
    let ?st = "st\<lparr>event_queue := q\<rparr>"
    have "held_events ?st \<subseteq> held_events st" and e: "e \<in> held_events st" by (auto simp: held_events_def pend)
    then have inv': "replica_inv ?st"
      using inv unfolding replica_inv_def by (auto simp: core_inv_def core_wf_def)
    have "on_event vt env e ?st = Inr st'" using c Some eq by (simp add: core_thread_def)
    then show ?thesis using on_event_inv [OF inv', of e st'] replica_invD(7) [OF inv e] by simp
  qed
  then show "replica_inv st'" "heap_le (heap st) (heap st')" by auto
qed

end

section \<open>Proposing\<close>

lemma replica_inv_same_base: "same_base st st' \<Longrightarrow> replica_inv st \<Longrightarrow> replica_inv st'"
  by (auto simp: same_base_iff same_core_def replica_inv_def held_net_def held_events_def core_inv_def core_wf_def)

lemma replica_inv_leaf:
  assumes "replica_inv st" "in_store (heap st) (block_store st) a"
  shows "replica_inv (st\<lparr>b_leaf := a\<rparr>)"
  using assms
  by (auto simp: replica_inv_def held_net_def held_events_def core_inv_def core_wf_def in_store_def)

text \<open>
  A proposal: a new block with the given body, the highest certificate and the leaf as parent; it
  is linked, becomes the leaf and enters the event queue.
\<close>

lemma propose_with_body_ok:
  assumes inv: "replica_inv st" and room: "height_room (heap st) (block_store st)"
    and p: "propose_with_body env bs st = Inr (hash, st')"
  shows "replica_inv st'" and "heap_le (heap st) (heap st')" and "b_leaf st' = length (heap st)"
    and "get_hash (heap st' ! b_leaf st') = hash"
    and "get_parent_hash (heap st' ! b_leaf st') = get_hash (heap st ! b_leaf st)"
    and "parsed_qc (heap st' ! b_leaf st') = Some (parse_QuorumCertificate env (snd (hqc st)))"
    and "parent_block_ptr (heap st' ! b_leaf st') \<noteq> None"
    and "length (heap st') = Suc (length (heap st))"
proof -
  let ?a = "length (heap st)"
  obtain b bh missing h store where
    b: "new_HotstuffBlock env \<lparr>header = \<lparr>parent_hash = get_hash (heap st ! b_leaf st), header_qc = snd (hqc st),
        body_hash = bh\<rparr>, body = bs\<rparr> (self_id st) = Inr b"
    and i: "insert_block ?a (heap st @ [b]) (block_store st) = Inr (missing, h, store)"
    and m: "\<not> MissingDependencies_bool missing"
    and bc: "broadcast_proposal ?a (st\<lparr>heap := h, block_store := store, b_leaf := ?a\<rparr>) = Inr st'"
    and hash: "hash = get_hash (heap st' ! b_leaf st')"
    using p by (auto simp: propose_with_body_def mint_block_def alloc_block_def deref_def Let_def
        elim!: bindE_InrE split: if_splits)
  note B = new_HotstuffBlock_fields [OF b]
  note A = replica_inv_alloc [OF inv B(1-4)]
  have room': "height_room (heap (st\<lparr>heap := heap st @ [b]\<rparr>)) (block_store (st\<lparr>heap := heap st @ [b]\<rparr>))"
    using room store_wfD(2) [OF replica_invD(2) [OF inv]] by (auto simp: height_room_def nth_append)
  note I = insert_block_inv [OF A(1) room', of ?a missing h store]
  have I': "replica_inv (st\<lparr>heap := h, block_store := store\<rparr>)" "heap_le (heap st @ [b]) h"
    "in_store h store ?a" "parent_block_ptr (h ! ?a) \<noteq> None"
    using I i B(5) m by auto
  let ?st = "st\<lparr>heap := h, block_store := store, b_leaf := ?a\<rparr>"
  have leaf: "replica_inv ?st" using replica_inv_leaf [OF I'(1), of ?a] I'(3) by simp
  obtain st1 cl where v: "validate_and_add_event (ProposalEvent (self_id st) ?a) ?st = Inr st1"
    and st': "st' = st1\<lparr>other_clients := cl\<rparr>"
    using bc by (auto simp: broadcast_proposal_def self_client_propose_def Let_def elim!: bindE_InrE)
  have "event_ok (heap ?st) (block_store ?st) (ProposalEvent (self_id st) ?a)"
    using I'(3) by (simp add: event_ok_def)
  note E = add_core_event_inv [OF leaf this v]
  have "b_leaf st1 = ?a"
    by (rule validate_and_add_event_ok [OF v]) simp
  then show "b_leaf st' = length (heap st)" by (simp add: st')
  have "same_core st1 st'" by (simp add: st' same_core_def)
  then show "replica_inv st'"
    using E(1) by (simp add: st' replica_inv_def held_net_def held_events_def core_inv_def core_wf_def)
  have hp: "heap st' = h" using E(2) by (simp add: st')
  show "heap_le (heap st) (heap st')" using heap_le_trans [OF A(2) I'(2)] hp by simp
  show "length (heap st') = Suc (length (heap st))"
    using map_eq_imp_length_eq [OF insert_block_votes(1) [OF i]] hp by simp
  show "get_hash (heap st' ! b_leaf st') = hash" by (simp add: hash)
  have at: "b_leaf st' = ?a" by (simp add: st' \<open>b_leaf st1 = ?a\<close>)
  have "?a < length (heap st @ [b])" by simp
  note L = heap_leD [OF I'(2) this]
  show "get_parent_hash (heap st' ! b_leaf st') = get_hash (heap st ! b_leaf st)"
    "parsed_qc (heap st' ! b_leaf st') = Some (parse_QuorumCertificate env (snd (hqc st)))"
    "parent_block_ptr (heap st' ! b_leaf st') \<noteq> None"
    using L(3,4) B(5,7) I'(4) hp at by (simp_all add: get_parent_hash_def)
qed

lemma propose_with_body_le:
  assumes inv: "replica_inv st" and p: "propose_with_body env bs st = Inr (hash, st')"
  shows "heap_le (heap st) (heap st')"
proof -
  let ?a = "length (heap st)"
  obtain w b missing h store where b: "new_HotstuffBlock env w (self_id st) = Inr b"
    and i: "insert_block ?a (heap st @ [b]) (block_store st) = Inr (missing, h, store)"
    and bc: "broadcast_proposal ?a (st\<lparr>heap := h, block_store := store, b_leaf := ?a\<rparr>) = Inr st'"
    using p by (auto simp: propose_with_body_def mint_block_def alloc_block_def deref_def Let_def
        elim!: bindE_InrE split: if_splits)
  note B = new_HotstuffBlock_fields [OF b]
  note A = replica_inv_alloc [OF inv B(1-4)]
  have "heap_le (heap st @ [b]) h"
    using insert_block_le [of "heap st @ [b]" "block_store st" ?a] replica_invD(2) [OF A(1)] B(5) i by simp
  moreover have "heap st' = h"
    using bc by (auto simp: broadcast_proposal_def self_client_propose_def Let_def
        dest!: validate_and_add_event_heap elim!: bindE_InrE)
  ultimately show ?thesis using heap_le_trans [OF A(2)] by simp
qed

section \<open>All steps\<close>

context app_contract
begin

lemma do_propose_ok:
  assumes inv: "replica_inv st"
    and p: "do_propose (gnb sched) env st = Inr (hash, st') \<or> do_empty_propose (gnb sched) env st = Inr (hash, st')"
  obtains bs st1 where "same_base st st1" "propose_with_body env bs st1 = Inr (hash, st')" "replica_inv st1"
proof -
  obtain ne height bs st1 where g: "gnb sched ne height st = Inr (bs, st1)"
    and rest: "propose_with_body env bs st1 = Inr (hash, st')"
    using p by (auto simp: do_propose_def do_empty_propose_def elim!: bindE_InrE)
  have "same_base st st1" using next_vm_block_own [OF g] .
  then show thesis using that rest inv replica_inv_same_base by blast
qed

lemma propose_inv:
  assumes inv: "replica_inv st"
    and p: "do_propose (gnb sched) env st = Inr (hash, st') \<or> do_empty_propose (gnb sched) env st = Inr (hash, st')"
    and fit: "heights_fit (heap st')"
  shows "replica_inv st'" and "heap_le (heap st) (heap st')"
proof -
  obtain bs st1 where sb: "same_base st st1" and pb: "propose_with_body env bs st1 = Inr (hash, st')"
    and i: "replica_inv st1"
    by (rule do_propose_ok [OF inv p])
  have same: "heap st1 = heap st" using sb by (simp add: same_base_iff same_core_def)
  have le: "heap_le (heap st1) (heap st')" using propose_with_body_le [OF i pb] .
  have room: "height_room (heap st1) (block_store st1)"
    using height_room_before [OF replica_invD(2) [OF i] le] fit by (simp add: heights_fit_def)
  show "replica_inv st'" using propose_with_body_ok(1) [OF i room pb] .
  show "heap_le (heap st) (heap st')" using le same by simp
qed

lemma replica_step_inv:
  assumes inv: "replica_inv st" and step: "replica_step vt gnb loc env l st = Inr st'"
    and fit: "heights_fit (heap st')"
  shows "replica_inv st'" and "heap_le (heap st) (heap st')"
proof -
  have easy: "replica_inv st' \<and> heap_le (heap st) (heap st')"
    if "heap st' = heap st" "same_core st st'" "held_net st' = held_net st" "held_events st' = held_events st"
      "block_store st' = block_store st" "block_fetch_manager st' = block_fetch_manager st"
    using inv that by (simp add: replica_inv_def core_inv_def core_wf_def same_core_def)
  have "replica_inv st' \<and> heap_le (heap st) (heap st')"
  proof (cases l)
    case (FetchBegin rid)
    then show ?thesis using replica_inv_upd_worker [OF inv] step by (auto simp: fetch_worker_begin_def)
  next
    case NetworkThread
    then have n: "network_thread st = Inr st'" using step by simp
    have "height_room (heap st) (block_store st)"
      using height_room_before [OF replica_invD(2) [OF inv] network_thread_le [OF inv n]] fit
      by (simp add: heights_fit_def)
    then show ?thesis using network_thread_inv [OF inv _ n] by blast
  next
    case (WaitForQC hash)
    then show ?thesis
      using step by (intro easy) (auto simp: wait_for_new_qc_def same_core_def held_net_def held_events_def
          split: option.splits if_splits)
  next
    case (Propose sched)
    then show ?thesis using step propose_inv [OF inv _ fit] by (auto elim!: bindE_InrE)
  next
    case (ProposeEmpty sched)
    then show ?thesis using step propose_inv [OF inv _ fit] by (auto elim!: bindE_InrE)
  next
    case (Local l)
    then show ?thesis
      using step local_own replica_inv_same_base [OF _ inv, of st'] by (auto simp: same_base_iff same_core_def)
  next
    case CancelWait
    then show ?thesis
      using step by (intro easy) (auto simp: cancel_wait_for_new_qc_def same_core_def held_net_def held_events_def)
  next
    case (ClientTake rid)
    then show ?thesis
      using step by (intro easy) (auto simp: client_thread_def same_core_def held_net_def held_events_def)
  next
    case (ClientSend rid ok)
    then show ?thesis
      using step by (intro easy) (auto simp: client_thread_def same_core_def held_net_def held_events_def)
  qed (use step handler_vote_inv [OF inv] handler_propose_inv [OF inv] fetch_worker_end_inv [OF inv]
      core_thread_inv [OF inv] gc_thread_inv [OF inv] in auto)
  then show "replica_inv st'" "heap_le (heap st) (heap st')" by auto
qed

lemma replica_reach_inv:
  "replica_reach vt gnb loc env st0 st \<Longrightarrow> replica_inv st0 \<Longrightarrow>
     replica_inv st \<and> heap_le (heap st0) (heap st)"
proof (induction rule: replica_reach.induct)
  case (reach_step st l st')
  then show ?case using replica_step_inv [of st l st'] heap_le_trans by blast
qed simp

end

section \<open>The initial state\<close>

lemma initial_inv:
  assumes "heap st = [new_HotstuffBlock_genesis]" "genesis st = 0" "fst (hqc st) = 0" "justify (snd (hqc st)) = zero_hash"
    "b_lock st = 0" "b_exec st = 0" "b_leaf st = 0" "block_cache (block_store st) = [zero_hash \<mapsto> 0]"
    "gc_collector (block_store st) = new_BlockGarbageCollector"
    "event_queue st = new_GenericEventQueue" "network_event_queue st = new_GenericEventQueue"
    "block_fetch_manager st = init_configs cfg new_BlockFetchManager"
  shows "replica_inv st"
proof -
  have dep: "dependents (init_configs cfg new_BlockFetchManager) = {}"
  proof -
    have "request_ctxs (fold fm_add_replica infos fm) = request_ctxs fm" for infos fm
      by (induction infos arbitrary: fm) (simp_all add: fm_add_replica_def)
    then show ?thesis by (simp add: dependents_def init_configs_def new_BlockFetchManager_def)
  qed
  have "extends [new_HotstuffBlock_genesis] 0 0" by (simp add: extends_refl)
  then show ?thesis
    using assms fetch_wf_init [of cfg] dep
    by (auto simp: replica_inv_def core_inv_def core_wf_def rooted_def heap_wf_def store_wf_def in_store_def
        held_net_def held_events_def gq.pending_empty gc_tracked_def new_BlockGarbageCollector_def
        split: if_splits)
qed

lemma new_HotstuffApp_inv:
  assumes "new_HotstuffApp env cfg rid sk vm cfgs db d = Inr st"
  shows "replica_inv (app_init_clean env vmb st)"
  using assms
  by (intro initial_inv [where cfg = cfg])
    (auto simp: new_HotstuffApp_def new_HotstuffAppBase_def new_HotstuffCore_def genesis_block_def alloc_block_def
      deref_def new_BlockStore_def emplace_def app_init_clean_def HotstuffAppBase.defs HotstuffCore.defs
      get_hash_def [symmetric] elim!: bindE_InrE)

lemma new_NonspeculativeHotstuffApp_inv:
  assumes "new_NonspeculativeHotstuffApp env cfg rid sk vm db d = Inr st"
  shows "replica_inv (ns_app_init_clean env vmb st)"
  using assms
  by (intro initial_inv [where cfg = cfg])
    (auto simp: new_NonspeculativeHotstuffApp_def new_HotstuffAppBase_def new_HotstuffCore_def genesis_block_def
      alloc_block_def deref_def new_BlockStore_def emplace_def ns_app_init_clean_def HotstuffAppBase.defs
      HotstuffCore.defs get_hash_def [symmetric] elim!: bindE_InrE)

end
