(* ===== verification/Demo_Chain.thy ===== *)
theory Demo_Chain
  imports ReplicaThreads
begin

text \<open>
  A concrete replica in the middle of a run, for the examples that accompany the theorems: four
  blocks in a row on top of the genesis block, each certifying its parent; the replica has voted
  for the first three and is about to receive the fourth.
\<close>

definition chain_block :: "8 word \<Rightarrow> uint64 \<Rightarrow> block_addr \<Rightarrow> Hash \<Rightarrow> HotstuffBlock" where
  "chain_block n height p ph = new_HotstuffBlock_genesis\<lparr>
     wire_block := \<lparr>header = \<lparr>parent_hash = ph, header_qc = \<lparr>justify = ph, bmp = 0, wire_sigs = []\<rparr>,
       body_hash = []\<rparr>, body = []\<rparr>,
     parsed_qc := Some (new_QuorumCertificate ph), self_qc := new_QuorumCertificate [n],
     block_height := height, parent_block_ptr := Some p, justify_block_ptr := Some p,
     decided := False, flushed_from_memory := False\<rparr>"

definition demo_chain :: block_heap where
  "demo_chain = [new_HotstuffBlock_genesis, chain_block 1 1 0 zero_hash, chain_block 2 2 1 [1],
     chain_block 3 3 2 [2], chain_block 4 4 3 [3]]"

definition demo_state :: "(demo_db, CountingVMBlock, CountingVM) HotstuffApp" where
  "demo_state = \<lparr>heap = demo_chain, files = Map.empty, genesis = 0,
     hqc = (0, \<lparr>justify = zero_hash, bmp = 0, wire_sigs = []\<rparr>), b_lock = 0, b_exec = 0, vheight = 3,
     self_id = 0, config = demo_config 4, b_leaf = 0, decided_hash_index = demo_new_db,
     block_store = \<lparr>block_cache = Map.empty, gc_collector = new_BlockGarbageCollector\<rparr>,
     block_fetch_manager = new_BlockFetchManager, event_queue = new_GenericEventQueue,
     network_event_queue = new_GenericEventQueue, other_clients = [1 \<mapsto> new_HotstuffProtocolClient],
     secret_key = [0], latest_new_qc = None, cancel_wait = False,
     vm_bridge = bridge_init_clean (counting_vm demo_env)
       (new_HotstuffVMBridge \<lparr>vm_state = 0, last_committed_state = 0\<rparr> default_HotstuffConfigs)\<rparr>"

abbreviation demo_vm :: "(CountingVMBlock, CountingVM) VMBase" where
  "demo_vm \<equiv> counting_vm demo_env"

abbreviation demo_virtuals ::
  "(demo_db, (demo_db, CountingVMBlock, CountingVM) HotstuffApp) core_virtuals" where
  "demo_virtuals \<equiv> app_virtuals demo_env demo_vm Inr"

lemma demo_chain_nth [simp]:
  "length demo_chain = 5" "demo_chain ! 0 = new_HotstuffBlock_genesis"
  "demo_chain ! 1 = chain_block 1 1 0 zero_hash" "demo_chain ! Suc 0 = chain_block 1 1 0 zero_hash"
  "demo_chain ! 2 = chain_block 2 2 1 [1]" "demo_chain ! 3 = chain_block 3 3 2 [2]"
  "demo_chain ! 4 = chain_block 4 4 3 [3]"
  by (simp_all add: demo_chain_def)

lemma chain_block_fields [simp]:
  "parent_block_ptr (chain_block n t p ph) = Some p" "justify_block_ptr (chain_block n t p ph) = Some p"
  "block_height (chain_block n t p ph) = t" "get_hash (chain_block n t p ph) = [n]"
  "get_parent_hash (chain_block n t p ph) = ph" "parsed_qc (chain_block n t p ph) = Some (new_QuorumCertificate ph)"
  "get_justify_hash (chain_block n t p ph) = Inr ph" "\<not> decided (chain_block n t p ph)"
  by (simp_all add: chain_block_def get_hash_def get_parent_hash_def get_justify_hash_def get_justify_qc_def)

lemma less_five_cases: "a < (5 :: nat) \<longleftrightarrow> a = 0 \<or> a = 1 \<or> a = 2 \<or> a = 3 \<or> a = 4"
  by auto

lemma demo_chain_wf: "heap_wf demo_chain"
  unfolding heap_wf_def demo_chain_nth(1) less_five_cases
  by (auto simp: rooted_def)

lemma demo_state_inv: "core_inv demo_state"
proof -
  have "extends demo_chain 0 0" by (simp add: extends_refl)
  then show ?thesis
    using demo_chain_wf unfolding core_inv_def
    by (auto simp: core_wf_def demo_state_def rooted_def less_five_cases)
qed

lemma demo_opinion: "proposal_opinion 4 demo_state = Inr True"
  by (simp add: proposal_opinion_def demo_state_def deref_def loop_result_def descend.simps)

lemmas core_run_defs =
  update_def update_hqc_def update_lock_def update_try_commit_def update_commit_def
  finish_commit_def deref_def loop_result_def descend.simps commit_one_def decide_def upd_block_def Let_def
  get_justify_qc_def write_to_disk.simps

lemmas app_run_defs =
  app_virtuals_def app_apply_block_def bridge_apply_block_def app_notify_vm_of_commitment_def
  bridge_notify_vm_of_commitment_def bridge_init_clean_def new_HotstuffVMBridge_def
  new_SpeculativeExecGadget_def gadget_lock_def init_guard_def gadget_empty_def add_height_pair_def
  submit_block_for_exec_def base_do_vote_def new_PartialCertificate_def send_vote_to_def
  on_commit_hotstuff_def gadget_unlock_def log_commitment_def base_notify_ok_to_prune_blocks_def

text \<open>The fourth block commits the first.\<close>

lemma demo_commit:
  "\<exists>st. on_receive_proposal demo_virtuals demo_env 4 1 demo_state = Inr st \<and> b_exec st = 1 \<and> b_lock st = 2 \<and>
     vheight st = 4"
proof -
  have info: "get_info (demo_config 4) 0 = Inr (demo_info 0)"
    by (rule get_info_demo) (simp add: replica_ids_demo_4)
  have sign: "crypto_sign_detached demo_env m sk = Some (sk @ m)" for m sk by (simp add: demo_env_def)
  show ?thesis
    unfolding on_receive_proposal_def proposal_vote_def demo_opinion bindE_Inr
    by (simp add: core_run_defs app_run_defs demo_state_def info sign
        new_HotstuffBlock_genesis_def chain_block_def get_hash_def new_QuorumCertificate_def)
qed

end
