(* ===== verification/Votes.thy ===== *)
theory Votes
  imports ReplicaThreads
begin

text \<open>
  The votes a replica signs, read off the messages it emits. A signed vote leaves \<open>do_vote\<close> in one of
  two ways: as a message in the queue of the client for the proposer, or, when the replica itself is
  the proposer, as an event in its own queue. What a step of a thread adds to these queues is what it
  has signed; the voting rule is a theorem about it, not part of the definition.
\<close>

section \<open>Signed votes in the queues\<close>

text \<open>The votes that wait in the vector \<open>work\<close> of the client for a peer.\<close>

definition outgoing_votes :: "('db, 'm) HotstuffAppBase_scheme \<Rightarrow> ReplicaID \<Rightarrow> VoteMessage list" where
  "outgoing_votes st t =
     (case other_clients st t of
        None \<Rightarrow> []
      | Some c \<Rightarrow> concat (map (\<lambda>m. case m of VoteMsg v \<Rightarrow> [v] | ProposeMsg _ \<Rightarrow> []) (work c)))"

definition sent_votes ::
  "('db, 'm) HotstuffAppBase_scheme \<Rightarrow> ('db, 'm) HotstuffAppBase_scheme \<Rightarrow> Hash set" where
  "sent_votes st st' =
     (\<Union>t. (\<lambda>v. cert_hash (msg_vote v)) ` set (drop (length (outgoing_votes st t)) (outgoing_votes st' t)))"

definition self_votes ::
  "('db, 'm) HotstuffAppBase_scheme \<Rightarrow> ('db, 'm) HotstuffAppBase_scheme \<Rightarrow> Hash set" where
  "self_votes st st' =
     (\<Union>e \<in> set (drop (length (pending_events (event_queue st))) (pending_events (event_queue st'))).
        case e of VoteEvent rid cert b \<Rightarrow> {cert_hash cert} | ProposalEvent rid b \<Rightarrow> {})"

definition signed_votes ::
  "('db, 'm) HotstuffAppBase_scheme \<Rightarrow> ('db, 'm) HotstuffAppBase_scheme \<Rightarrow> Hash set" where
  "signed_votes st st' = sent_votes st st' \<union> self_votes st st'"

text \<open>
  The votes signed while an event is handled. When the handler ends with an exception, what it
  emitted before has left: for a proposal, what the part up to the vote emits.
\<close>

definition event_votes ::
  "('tx, ('db, 'm) HotstuffAppBase_scheme) core_virtuals \<Rightarrow> ('bv, 'db, 'tx) env \<Rightarrow> Event \<Rightarrow>
   ('db, 'm) HotstuffAppBase_scheme \<Rightarrow> Hash set" where
  "event_votes vt env e st =
     (case on_event vt env e st of
        Inr st' \<Rightarrow> signed_votes st st'
      | Inl _ \<Rightarrow>
          (case e of
             VoteEvent rid cert b \<Rightarrow> {}
           | ProposalEvent rid b \<Rightarrow>
               (case proposal_vote vt b rid st of Inl _ \<Rightarrow> {} | Inr st' \<Rightarrow> signed_votes st st')))"

definition core_votes ::
  "('tx, ('db, 'm) HotstuffAppBase_scheme) core_virtuals \<Rightarrow> ('bv, 'db, 'tx) env \<Rightarrow>
   ('db, 'm) HotstuffAppBase_scheme \<Rightarrow> Hash set" where
  "core_votes vt env st =
     (case queue_next (queue_take (event_queue st)) of
        None \<Rightarrow> {}
      | Some (e, q) \<Rightarrow> event_votes vt env e (st\<lparr>event_queue := q\<rparr>))"

text \<open>The votes signed in a step of a replica with the given outcome.\<close>

definition step_votes ::
  "('tx, ('db, 'm) HotstuffAppBase_scheme) core_virtuals \<Rightarrow> ('bv, 'db, 'tx) env \<Rightarrow> 'l replica_label \<Rightarrow>
   ('db, 'm) HotstuffAppBase_scheme \<Rightarrow> ('db, 'm) HotstuffAppBase_scheme result \<Rightarrow> Hash set" where
  "step_votes vt env l st res =
     (case l of
        CoreThread \<Rightarrow> core_votes vt env st
      | _ \<Rightarrow> (case res of Inl _ \<Rightarrow> {} | Inr st' \<Rightarrow> sent_votes st st'))"

section \<open>The voting rule decides what is signed\<close>

text \<open>The vote the rule asks for in the next step of the core: the hash to sign, and the hash of the lock.\<close>

definition core_vote :: "('db, 'm) HotstuffAppBase_scheme \<Rightarrow> (Hash \<times> Hash) option" where
  "core_vote st =
     (case queue_next (queue_take (event_queue st)) of
        Some (ProposalEvent rid b, q) \<Rightarrow>
          if proposal_opinion b st = Inr True
          then Some (get_hash (heap st ! b), get_hash (heap st ! b_lock st)) else None
      | _ \<Rightarrow> None)"

lemma signed_votes_same: "queue_same st st' \<Longrightarrow> signed_votes st' st'' = signed_votes st st''"
  by (simp add: signed_votes_def sent_votes_def self_votes_def outgoing_votes_def queue_same_def)

lemma signed_votes_same': "queue_same st' st'' \<Longrightarrow> signed_votes st st'' = signed_votes st st'"
  by (simp add: signed_votes_def sent_votes_def self_votes_def outgoing_votes_def queue_same_def)

lemma signed_votes_refl [simp]: "signed_votes st st = {}"
  by (simp add: signed_votes_def sent_votes_def self_votes_def)

lemma validate_vote_signed:
  assumes "validate_and_add_event (VoteEvent rid pc b) st = Inr st'"
  shows "signed_votes st st' = {cert_hash pc}"
proof -
  have st': "st' = st\<lparr>event_queue := add_event (VoteEvent rid pc b) (event_queue st)\<rparr>"
    using assms by (auto simp: validate_and_add_event_def elim!: bindE_InrE split: if_splits)
  show ?thesis
    by (simp add: st' signed_votes_def sent_votes_def self_votes_def outgoing_votes_def gq.pending_add)
qed

lemma send_vote_to_signed:
  assumes "send_vote_to b pc target st = Inr st'"
  shows "signed_votes st st' = {cert_hash pc}"
proof (cases "target = self_id st")
  case True
  then have "validate_and_add_event (VoteEvent (self_id st) pc b) st = Inr st'"
    using assms by (simp add: send_vote_to_def self_client_vote_def)
  then show ?thesis by (rule validate_vote_signed)
next
  case False
  let ?v = "\<lparr>msg_vote = pc, msg_voter = self_id st\<rparr>"
  obtain c where c: "other_clients st target = Some c"
    and st': "st' = st\<lparr>other_clients := (other_clients st)(target \<mapsto> client_vote ?v c)\<rparr>"
    using assms False by (auto simp: send_vote_to_def of_option_def elim!: bindE_InrE split: option.splits)
  have out: "outgoing_votes st' t = outgoing_votes st t @ (if t = target then [?v] else [])" for t
    using c by (simp add: st' outgoing_votes_def client_vote_def)
  have "self_votes st st' = {}" by (simp add: st' self_votes_def)
  moreover have "sent_votes st st' = {cert_hash pc}" unfolding sent_votes_def out by auto
  ultimately show ?thesis by (simp add: signed_votes_def)
qed

lemma base_do_vote_signed:
  assumes "base_do_vote env b rid st = Inr st'"
  shows "signed_votes st st' = {get_hash (heap st ! b)}"
proof -
  obtain pc where "send_vote_to b pc rid st = Inr st'" and "cert_hash pc = get_hash (heap st ! b)"
    using assms by (auto simp: base_do_vote_def new_PartialCertificate_def deref_def elim!: bindE_InrE split: if_splits)
  then show ?thesis using send_vote_to_signed by metis
qed

context app_contract
begin

lemma proposal_vote_signed:
  assumes "proposal_vote vt b rid st = Inr st'"
  shows "signed_votes st st' = (if proposal_opinion b st = Inr True then {get_hash (heap st ! b)} else {})"
proof (cases "proposal_opinion b st = Inr True")
  case True
  then obtain v where "base_do_vote env b rid (st\<lparr>vheight := v\<rparr>) = Inr st'"
    using assms by (auto simp: proposal_vote_def do_vote_base elim!: bindE_InrE)
  from base_do_vote_signed [OF this] signed_votes_same [of st "st\<lparr>vheight := v\<rparr>" st'] True
  show ?thesis by (simp add: queue_same_def)
next
  case False
  then show ?thesis using assms by (auto simp: proposal_vote_def elim!: bindE_InrE split: if_splits)
qed

text \<open>The handler of an event signs exactly what the rule asks for.\<close>

lemma on_event_signed:
  assumes "on_event vt env e st = Inr st'"
  shows "signed_votes st st' =
    (case e of VoteEvent rid cert b \<Rightarrow> {}
     | ProposalEvent rid b \<Rightarrow> if proposal_opinion b st = Inr True then {get_hash (heap st ! b)} else {})"
proof (cases e)
  case (VoteEvent rid cert b)
  then have "queue_same st st'" using core_frame.on_receive_vote_rel [OF queue_frame] assms by simp
  from signed_votes_same' [OF this, of st] show ?thesis using VoteEvent by simp
next
  case (ProposalEvent rid b)
  then obtain st1 where st1: "proposal_vote vt b rid st = Inr st1" and u: "update vt env b st1 = Inr st'"
    using assms by (auto simp: on_receive_proposal_def elim!: bindE_InrE)
  have "signed_votes st st' = signed_votes st st1"
    by (rule signed_votes_same' [OF core_frame.update_rel [OF queue_frame u]])
  then show ?thesis using proposal_vote_signed [OF st1] ProposalEvent by simp
qed

lemma event_votes_rule:
  "event_votes vt env e st \<subseteq>
    (case e of VoteEvent rid cert b \<Rightarrow> {}
     | ProposalEvent rid b \<Rightarrow> if proposal_opinion b st = Inr True then {get_hash (heap st ! b)} else {})"
proof (cases "on_event vt env e st")
  case (Inl err)
  then show ?thesis
    using proposal_vote_signed [of "ev_block e" "ev_rid e" st]
    by (cases e; cases "proposal_vote vt (ev_block e) (ev_rid e) st") (simp_all add: event_votes_def)
next
  case (Inr st')
  then show ?thesis using on_event_signed [OF Inr] by (simp add: event_votes_def)
qed

lemma opinion_event_queue [simp]: "proposal_opinion b (st\<lparr>event_queue := q\<rparr>) = proposal_opinion b st"
proof -
  have eqs: "heap (st\<lparr>event_queue := q\<rparr>) = heap st" "b_lock (st\<lparr>event_queue := q\<rparr>) = b_lock st"
    "vheight (st\<lparr>event_queue := q\<rparr>) = vheight st"
    by simp_all
  show ?thesis unfolding proposal_opinion_def eqs ..
qed

lemma core_votes_rule: "core_votes vt env st \<subseteq> fst ` set_option (core_vote st)"
proof (cases "queue_next (queue_take (event_queue st))")
  case (Some eq)
  obtain e q where eq: "eq = (e, q)" by (cases eq)
  show ?thesis
    using event_votes_rule [of e "st\<lparr>event_queue := q\<rparr>"] Some eq
    by (cases e) (simp_all add: core_votes_def core_vote_def split: if_splits)
qed (simp add: core_votes_def)

lemma core_thread_votes:
  assumes "core_thread vt env st = Inr st'"
  shows "core_votes vt env st = fst ` set_option (core_vote st)"
proof (cases "queue_next (queue_take (event_queue st))")
  case (Some eq)
  obtain e q where eq: "eq = (e, q)" by (cases eq)
  then have on: "on_event vt env e (st\<lparr>event_queue := q\<rparr>) = Inr st'"
    using assms Some by (simp add: core_thread_def)
  then have "core_votes vt env st = signed_votes (st\<lparr>event_queue := q\<rparr>) st'"
    using Some eq by (simp add: core_votes_def event_votes_def)
  then show ?thesis
    unfolding on_event_signed [OF on] using Some eq by (cases e) (simp_all add: core_vote_def)
qed (simp add: core_votes_def core_vote_def)

end

end
