(* ===== verification/ReplicaProps.thy ===== *)
theory ReplicaProps
  imports Demo_Chain Votes
begin

text \<open>
  What one replica guarantees: the theorems about the consensus core and about whole replicas
  that the other theories prepare, each for the code of the two applications.
\<close>

section \<open>Proposing never fails\<close>

lemma hash_xdr_returns: "hash_laws env \<Longrightarrow> \<exists>h. hash_xdr env bs = Inr h"
  unfolding hash_laws_def hash_xdr_def by (metis of_option_simps(2))

lemma propose_with_body_succeeds:
  assumes inv: "replica_inv st" and room: "height_room (heap st) (block_store st)" and laws: "hash_laws env"
  shows "\<exists>hash st'. propose_with_body env bs st = Inr (hash, st')"
proof -
  let ?a = "length (heap st)" and ?bs = "block_store st"
  note D = replica_invD [OF inv] and C = core_invD [OF replica_invD(1) [OF inv]]
  obtain bh where bh: "hash_body env bs = Inr bh"
    using hash_xdr_returns [OF laws] by (auto simp: hash_body_def)
  let ?w = "\<lparr>header = \<lparr>parent_hash = get_hash (heap st ! b_leaf st), header_qc = snd (hqc st), body_hash = bh\<rparr>,
    body = bs\<rparr>"
  obtain hh where hh: "hash_header env (header ?w) = Inr hh"
    using hash_xdr_returns [OF laws] by (auto simp: hash_header_def)
  obtain b where b: "new_HotstuffBlock env ?w (self_id st) = Inr b"
    using hh by (simp add: new_HotstuffBlock_def)
  note B = new_HotstuffBlock_fields [OF b]
  note A = replica_inv_alloc [OF inv B(1-4)]
  have wf: "store_wf (heap st @ [b]) ?bs" using replica_invD(2) [OF A(1)] by simp
  have room': "height_room (heap st @ [b]) ?bs"
    using room store_wfD(2) [OF D(2)] by (auto simp: height_room_def nth_append)
  have at: "(heap st @ [b]) ! ?a = b" "?a < length (heap st @ [b])" by simp_all
  have qc: "parsed_qc ((heap st @ [b]) ! ?a) = Some (parse_QuorumCertificate env (snd (hqc st)))"
    using B(5) at by simp
  have present: "absent ?bs (get_hash (heap st ! b_leaf st)) = None" "absent ?bs (justify (snd (hqc st))) = None"
    using D(3,4) C(10) by (simp_all add: absent_def in_store_def)
  obtain missing h store where i: "insert_block ?a (heap st @ [b]) ?bs = Inr (missing, h, store)"
    and le: "heap_le (heap st @ [b]) h"
    and miss: "missing_parent missing = absent ?bs (get_parent_hash ((heap st @ [b]) ! ?a))"
      "missing_justify missing = absent ?bs (obj_hash (parse_QuorumCertificate env (snd (hqc st))))"
    by (rule insert_block_ok [OF wf room' at(2) qc])
  have "\<not> MissingDependencies_bool missing" using miss present at(1) B(7) by (simp add: MissingDependencies_bool_def get_parent_hash_def)
  moreover have "?a < length h" using heap_leD(1) [OF le at(2)] .
  ultimately show ?thesis
    using i b bh rooted_addr [OF C(7)]
    by (simp add: propose_with_body_def mint_block_def alloc_block_def deref_def Let_def broadcast_proposal_def
        self_client_propose_def validate_and_add_event_def)
qed

text \<open>
  C25 --- A replica can always propose. In every state a replica reaches after a clean start, with
  heights below the limit, minting a block on the current leaf and inserting it into the store
  succeeds: the exception for a newly minted block with missing dependencies is never thrown. The
  new block carries the highest certificate, is linked to the leaf, becomes the leaf, and is in
  the store.
\<close>

theorem proposing_succeeds:
  assumes new: "new_HotstuffApp env cfg rid sk vs cfgs db d = Inr st0"
    and reach: "replica_reach (app_virtuals env vm await) (app_get_next_vm_block vm) (app_local_step vm) env
      (app_init_clean env vm st0) st"
    and fit: "heights_fit (heap st)" and laws: "hash_laws env"
  shows "\<exists>hash st'. propose_with_body env bs st = Inr (hash, st') \<and>
    b_leaf st' = length (heap st) \<and> get_hash (heap st' ! b_leaf st') = hash \<and>
    get_parent_hash (heap st' ! b_leaf st') = get_hash (heap st ! b_leaf st) \<and>
    parsed_qc (heap st' ! b_leaf st') = Some (parse_QuorumCertificate env (snd (hqc st))) \<and>
    in_store (heap st') (block_store st') (b_leaf st')"
proof -
  have inv: "replica_inv st"
    using spec_app.replica_reach_inv [OF reach] new_HotstuffApp_inv [OF new] by blast
  have room: "height_room (heap st) (block_store st)"
    using height_room_before [OF replica_invD(2) [OF inv] heap_le_refl] fit by (simp add: heights_fit_def)
  obtain hash st' where p: "propose_with_body env bs st = Inr (hash, st')"
    using propose_with_body_succeeds [OF inv room laws] by blast
  show ?thesis
    using p propose_with_body_ok(3-6) [OF inv room p] replica_invD(4) [OF propose_with_body_ok(1) [OF inv room p]]
    by blast
qed

section \<open>The invariant\<close>

text \<open>
  C16 --- The type invariant of a replica. In every state that a replica reaches after a clean
  start, whatever messages arrive and however its threads interleave: all pointers of the core and
  of the blocks lead to blocks of the tree with the hashes the headers name and heights that count
  the links to the genesis block; the decided blocks are ancestors of the last executed block,
  which is not above the lock; every event in a queue, and every event that waits for a missing
  block, refers to blocks its handler can work on; and no block of the tree has been lost.
\<close>

theorem replica_invariant:
  assumes "new_HotstuffApp env cfg rid sk vs cfgs db d = Inr st0"
    and "replica_reach (app_virtuals env vm await) (app_get_next_vm_block vm) (app_local_step vm) env
      (app_init_clean env vm st0) st"
  shows "replica_inv st \<and> heap_le (heap (app_init_clean env vm st0)) (heap st)"
  using spec_app.replica_reach_inv [OF assms(2)] new_HotstuffApp_inv [OF assms(1)] by blast

text \<open>
  C17 --- The same invariant for the application without speculation.
\<close>

theorem nonspec_replica_invariant:
  assumes "new_NonspeculativeHotstuffApp env cfg rid sk vs db d = Inr st0"
    and "replica_reach (ns_virtuals env vm) (\<lambda>_. ns_get_next_vm_block) ns_local_step env
      (ns_app_init_clean env vm st0) st"
  shows "replica_inv st \<and> heap_le (heap (ns_app_init_clean env vm st0)) (heap st)"
  using nonspec_app.replica_reach_inv [OF assms(2)] new_NonspeculativeHotstuffApp_inv [OF assms(1)] by blast

section \<open>A concrete replica\<close>

text \<open>Replica 0 of four, with the counting virtual machine, after one empty proposal.\<close>

abbreviation demo_new_app :: "(demo_db, CountingVMBlock, CountingVM) HotstuffApp result" where
  "demo_new_app \<equiv> new_HotstuffApp demo_env (demo_config 4) 0 [0] \<lparr>vm_state = 0, last_committed_state = 0\<rparr>
     default_HotstuffConfigs demo_new_db Map.empty"

abbreviation demo_reach ::
  "(demo_db, CountingVMBlock, CountingVM) HotstuffApp \<Rightarrow> (demo_db, CountingVMBlock, CountingVM) HotstuffApp \<Rightarrow> bool"
  where "demo_reach st0 \<equiv> replica_reach (app_virtuals demo_env demo_vm Inr) (app_get_next_vm_block demo_vm)
     (app_local_step demo_vm) demo_env (app_init_clean demo_env demo_vm st0)"

lemma demo_app_exists:
  obtains st0 where "demo_new_app = Inr st0" "heap st0 = [new_HotstuffBlock_genesis]"
    "vm_bridge st0 = new_HotstuffVMBridge \<lparr>vm_state = 0, last_committed_state = 0\<rparr> default_HotstuffConfigs"
proof -
  have "get_info (demo_config 4) 0 = Inr (demo_info 0)"
    by (rule get_info_demo) (simp add: replica_ids_demo_4)
  then show thesis
    using that by (simp add: new_HotstuffApp_def new_HotstuffAppBase_def new_HotstuffCore_def genesis_block_def
        alloc_block_def deref_def new_BlockStore_def HotstuffAppBase.defs HotstuffCore.defs HotstuffApp.defs)
qed

lemma demo_run:
  obtains st0 st where "demo_new_app = Inr st0" "demo_reach st0 st" "length (heap st) = 2" "heights_fit (heap st)"
proof -
  obtain st0 where st0: "demo_new_app = Inr st0" and h: "heap st0 = [new_HotstuffBlock_genesis]"
    and br: "vm_bridge st0 = new_HotstuffVMBridge \<lparr>vm_state = 0, last_committed_state = 0\<rparr> default_HotstuffConfigs"
    by (rule demo_app_exists)
  let ?st = "app_init_clean demo_env demo_vm st0"
  have inv: "replica_inv ?st" using new_HotstuffApp_inv [OF st0] .
  have hp: "heap ?st = [new_HotstuffBlock_genesis]" using h by (simp add: app_init_clean_def)
  have fit: "heights_fit (heap ?st)" by (simp add: hp heights_fit_def)
  have leaf: "b_leaf ?st = 0" using core_invD(7) [OF replica_invD(1) [OF inv]] hp by (simp add: rooted_def)
  obtain br1 where g: "app_get_next_vm_block demo_vm 0 False 1 ?st = Inr ([], ?st\<lparr>vm_bridge := br1\<rparr>)"
    using br by (simp add: app_get_next_vm_block_def app_init_clean_def make_empty_proposal_def init_guard_def
        bridge_init_clean_def new_HotstuffVMBridge_def new_SpeculativeExecGadget_def gadget_lock_def
        add_height_pair_def Let_def)
  let ?st1 = "?st\<lparr>vm_bridge := br1\<rparr>"
  have inv1: "replica_inv ?st1"
    using replica_inv_same_base [OF spec_app.next_vm_block_own [OF g] inv] .
  have room: "height_room (heap ?st1) (block_store ?st1)"
    using height_room_before [OF replica_invD(2) [OF inv1] heap_le_refl] fit by (simp add: heights_fit_def)
  obtain hash st where p: "propose_with_body demo_env [] ?st1 = Inr (hash, st)"
    using propose_with_body_succeeds [OF inv1 room demo_hash_laws] by blast
  note P = propose_with_body_ok [OF inv1 room p]
  have len: "length (heap st) = 2" using P(8) hp by simp
  note W = core_invD(2) [OF replica_invD(1) [OF P(1)]]
  have g0: "block_height (heap st ! 0) = 0"
    using heap_leD(12) [OF P(2), of 0] hp by (simp add: rooted_def)
  obtain q where q: "parent_block_ptr (heap st ! 1) = Some q" using P(3,7) hp by auto
  have "q = 0" using heap_wfD(3) [OF W _ q] parent_lower [OF W _ q] len by (cases "q = 1") auto
  then have "unat (block_height (heap st ! 1)) = 1" using heap_wfD(5) [OF W _ q] g0 len by simp
  then have "block_height (heap st ! 1) = 1" by (simp add: word_unat_eq_iff)
  then have "block_height (heap st ! 1) \<noteq> - 1" by simp
  then have fit': "heights_fit (heap st)"
    using len g0 by (auto simp: heights_fit_def in_set_conv_nth less_two_cases)
  have "replica_step (app_virtuals demo_env demo_vm Inr) (app_get_next_vm_block demo_vm) (app_local_step demo_vm)
      demo_env (ProposeEmpty 0) ?st = Inr st"
    using g p leaf hp by (simp add: do_empty_propose_def deref_def)
  from reach_step [OF reach_refl this fit'] show thesis using that st0 len fit' by blast
qed

theorem replica_invariant_witness:
  "\<exists>st0 st. demo_new_app = Inr st0 \<and> demo_reach st0 st \<and> length (heap st) = 2 \<and> replica_inv st"
  by (rule demo_run) (metis replica_invariant)

theorem proposing_succeeds_witness:
  "\<exists>st0 st hash st'. demo_new_app = Inr st0 \<and> demo_reach st0 st \<and>
     propose_with_body demo_env [] st = Inr (hash, st') \<and> b_leaf st' = 2"
proof -
  obtain st0 st where r: "demo_new_app = Inr st0" "demo_reach st0 st" "length (heap st) = 2" "heights_fit (heap st)"
    by (rule demo_run)
  show ?thesis using proposing_succeeds [OF r(1,2,4) demo_hash_laws, of "[]"] r by auto
qed

theorem nonspec_replica_invariant_witness:
  "\<exists>st0 st. new_NonspeculativeHotstuffApp demo_env (demo_config 4) 0 [0] \<lparr>vm_state = 0, last_committed_state = 0\<rparr>
       demo_new_db Map.empty = Inr st0 \<and>
     replica_reach (ns_virtuals demo_env demo_vm) (\<lambda>_. ns_get_next_vm_block) ns_local_step demo_env
       (ns_app_init_clean demo_env demo_vm st0) st \<and>
     ns_proposal_buffer (ns_vm_bridge st) = [[7]] \<and> replica_inv st"
proof -
  let ?vm0 = "\<lparr>vm_state = 0, last_committed_state = 0\<rparr>"
  have "get_info (demo_config 4) 0 = Inr (demo_info 0)"
    by (rule get_info_demo) (simp add: replica_ids_demo_4)
  then obtain st0 where st0:
    "new_NonspeculativeHotstuffApp demo_env (demo_config 4) 0 [0] ?vm0 demo_new_db Map.empty = Inr st0"
    and h: "heap st0 = [new_HotstuffBlock_genesis]" and b: "ns_vm_bridge st0 = new_NonspeculativeVMBridge ?vm0"
    by (auto simp: new_NonspeculativeHotstuffApp_def new_HotstuffAppBase_def new_HotstuffCore_def genesis_block_def
        alloc_block_def deref_def new_BlockStore_def HotstuffAppBase.defs HotstuffCore.defs
        NonspeculativeHotstuffApp.defs)
  let ?init = "ns_app_init_clean demo_env demo_vm st0"
  let ?st = "ns_app_add_proposal [7] ?init"
  have fit: "heights_fit (heap ?st)"
    using h by (simp add: heights_fit_def ns_app_add_proposal_def ns_app_init_clean_def)
  have step: "replica_step (ns_virtuals demo_env demo_vm) (\<lambda>_. ns_get_next_vm_block) ns_local_step demo_env
      (Local (AddProposal [7])) ?init = Inr ?st" by simp
  have r: "replica_reach (ns_virtuals demo_env demo_vm) (\<lambda>_. ns_get_next_vm_block) ns_local_step demo_env ?init ?st"
    by (rule reach_step [OF reach_refl step fit])
  moreover have "ns_proposal_buffer (ns_vm_bridge ?st) = [[7]]"
    using b by (simp add: ns_app_add_proposal_def ns_app_init_clean_def ns_add_proposal_def ns_init_clean_def
        new_NonspeculativeVMBridge_def)
  ultimately show ?thesis using nonspec_replica_invariant [OF st0 r] st0 by blast
qed

section \<open>The consensus core\<close>

text \<open>
  C20 --- The voting rule. On a well-formed heap the loop along parent pointers that
  \<open>on_receive_proposal\<close> uses to form its opinion computes the rule of the protocol, and it always
  returns: vote for a block above the last voted height if its justify block is above the lock,
  or if the block extends the lock.
\<close>

theorem voting_rule:
  assumes "heap_wf (heap st)" "bnew < length (heap st)" "b_lock st < length (heap st)"
  shows "proposal_opinion bnew st = Inr (safe_to_vote st bnew)"
  using proposal_opinion_eq [OF assms] .

text \<open>
  C23 --- The loops of the core end. From any block of a well-formed heap, following parent pointers
  down to a given height terminates without reaching a null pointer; the result is the path of
  blocks above that height, lowest first, and the block it stops at, which is exactly at the
  height whenever the path is not empty.
\<close>

theorem descend_terminates:
  assumes "heap_wf h" "a < length h"
  shows "\<exists>b vs. descend h height a [] = Some (Inr (b, vs)) \<and> linked_from h b vs a \<and>
    block_height (h ! b) \<le> height \<and> (\<forall>v \<in> set vs. height < block_height (h ! v)) \<and>
    (vs \<noteq> [] \<longrightarrow> block_height (h ! b) = height)"
  by (rule descend_ends [OF assms, of height "[]"]) auto

lemma demo_linked_heap_wf: "heap_wf demo_linked" "length demo_linked = 2"
  using store_wfD(1) [OF demo_linked_wf] by (simp_all add: demo_linked_fields)

theorem descend_terminates_witness:
  "\<exists>b vs. descend demo_linked 0 1 [] = Some (Inr (b, vs)) \<and> linked_from demo_linked b vs 1 \<and>
     block_height (demo_linked ! b) \<le> 0"
  using descend_terminates [OF demo_linked_heap_wf(1), of 1 0] demo_linked_heap_wf(2) by auto

theorem voting_rule_witness: "proposal_opinion 4 demo_state = Inr True \<and> safe_to_vote demo_state 4"
  using voting_rule [of demo_state 4] demo_opinion demo_chain_wf by (simp add: demo_state_def)

text \<open>
  C18 --- Progress is never undone. An event handled by the core keeps its invariant; the lock, the
  highest certified block and the last executed block never move down, the new executed block
  extends the old one, no decision is taken back and no block moves in the tree.
\<close>

theorem on_event_monotone:
  assumes inv: "core_inv st" and b: "rooted (heap st) (ev_block e)"
    and on: "on_event (app_virtuals env vm await) env e st = Inr st'"
  shows "core_inv st' \<and> core_le st st'"
proof (cases e)
  case (VoteEvent rid cert a)
  then show ?thesis using spec_app.on_receive_vote_inv [OF inv] b on by auto
next
  case (ProposalEvent rid a)
  then show ?thesis using spec_app.on_receive_proposal_inv [OF inv] on by auto
qed

text \<open>
  C19 --- The commit rule. When a proposal moves the last executed block, the new one is the bottom
  of a chain of three blocks, each the direct parent of the next and certified by it, whose top is
  the justify block of the proposal; none of the three was decided before; it extends the old
  executed block, and exactly the blocks between the two become decided.
\<close>

theorem commit_rule:
  assumes inv: "core_inv st" and rcv: "on_receive_proposal (app_virtuals env vm await) env bnew rid st = Inr st'"
  shows "\<exists>vs. linked_from (heap st) (b_exec st) vs (b_exec st') \<and>
    (\<forall>a < length (heap st). decided (heap st' ! a) \<longleftrightarrow> decided (heap st ! a) \<or> a \<in> set vs) \<and>
    (b_exec st' \<noteq> b_exec st \<longrightarrow> (\<exists>b2 b1. justify_block_ptr (heap st ! bnew) = Some b2 \<and>
       three_chain (heap st) b2 b1 (b_exec st') \<and> \<not> decided (heap st ! b2) \<and> \<not> decided (heap st ! b1) \<and>
       \<not> decided (heap st ! b_exec st')))"
proof -
  note D = core_invD [OF inv]
  obtain st1 where b: "bnew < length (heap st)" and sc: "same_core (if safe_to_vote st bnew
      then st\<lparr>vheight := ucast (block_height (heap st ! bnew))\<rparr> else st) st1"
    and u: "update_effect env bnew st1 st'"
    by (rule spec_app.on_receive_proposal_effect [OF rcv D(2) rooted_addr [OF D(5)]])
  have same: "heap st1 = heap st" "b_exec st1 = b_exec st"
    using sc by (auto simp: same_core_def split: if_splits)
  obtain S vs where h': "heap st' = decide_all (set vs) (mark_written S (heap st))"
    and c: "commit_effect (heap st) (b_exec st) (justify_block_ptr (heap st ! bnew)) vs (b_exec st')"
    using u same unfolding update_effect_def by auto
  have "linked_from (heap st) (b_exec st) vs (b_exec st')"
    using c by (auto simp: commit_effect_def)
  moreover have "decided (heap st' ! a) \<longleftrightarrow> decided (heap st ! a) \<or> a \<in> set vs" if "a < length (heap st)" for a
    using decide_mark_decided [OF that] h' by auto
  moreover have "\<exists>b2 b1. justify_block_ptr (heap st ! bnew) = Some b2 \<and> three_chain (heap st) b2 b1 (b_exec st') \<and>
      \<not> decided (heap st ! b2) \<and> \<not> decided (heap st ! b1) \<and> \<not> decided (heap st ! b_exec st')"
    if "b_exec st' \<noteq> b_exec st"
    using c that unfolding commit_effect_def by blast
  ultimately show ?thesis by blast
qed

theorem on_event_monotone_witness:
  "\<exists>st. on_event demo_virtuals demo_env (ProposalEvent 1 4) demo_state = Inr st \<and> core_inv st \<and> core_le demo_state st"
proof -
  obtain st where on: "on_receive_proposal demo_virtuals demo_env 4 1 demo_state = Inr st"
    using demo_commit by blast
  have "rooted (heap demo_state) 4" by (simp add: demo_state_def rooted_def)
  then show ?thesis
    using on_event_monotone [OF demo_state_inv, of "ProposalEvent 1 4" demo_env demo_vm Inr st] on by simp
qed

theorem commit_rule_witness:
  "\<exists>st. on_receive_proposal demo_virtuals demo_env 4 1 demo_state = Inr st \<and> b_exec st = 1 \<and>
     decided (heap st ! 1) \<and> three_chain demo_chain 3 2 1"
proof -
  obtain st where on: "on_receive_proposal demo_virtuals demo_env 4 1 demo_state = Inr st" and e: "b_exec st = 1"
    using demo_commit by blast
  obtain vs where vs: "linked_from demo_chain 0 vs 1"
    "\<forall>a < 5. decided (heap st ! a) \<longleftrightarrow> decided (demo_chain ! a) \<or> a \<in> set vs"
    and "\<exists>b2 b1. justify_block_ptr (demo_chain ! 4) = Some b2 \<and> three_chain demo_chain b2 b1 1"
    using commit_rule [OF demo_state_inv on] e by (auto simp: demo_state_def)
  then have "three_chain demo_chain 3 2 1" by (auto simp: three_chain_def)
  moreover have "1 \<in> set vs" using vs(1) by (cases vs rule: rev_cases) (auto simp: linked_from_snoc)
  ultimately show ?thesis using on e vs(2) by auto
qed

text \<open>
  C24 --- When "safety breached" is thrown. On a well-formed heap the commit of a block \<open>blk\<close> ends with
  that exception, before anything is decided, exactly when \<open>blk\<close> does not extend the last executed
  block; otherwise the blocks on the path between the two, and no others, are committed in order
  of their heights and the index is closed.
\<close>

theorem safety_breached_iff:
  assumes wf: "heap_wf (heap st)" and blk: "blk < length (heap st)" and ex: "b_exec st < length (heap st)"
  shows "if extends (heap st) blk (b_exec st)
    then \<exists>vs. linked_from (heap st) (b_exec st) vs blk \<and>
      update_commit vt env blk1 blk st =
        bindE (foldE (commit_one vt) vs (open_txn env (decided_hash_index st), st)) (finish_commit vt env blk1 blk)
    else update_commit vt env blk1 blk st = Inl (RuntimeError ''safety breached'')"
proof -
  let ?h = "heap st" and ?e = "b_exec st"
  obtain b vs where d: "descend ?h (block_height (?h ! ?e)) blk [] = Some (Inr (b, vs @ []))"
    and l: "linked_from ?h b vs blk" and b: "b < length ?h"
    and le: "block_height (?h ! b) \<le> block_height (?h ! ?e)" "vs \<noteq> [] \<Longrightarrow> block_height (?h ! b) = block_height (?h ! ?e)"
    by (rule descend_ends [OF wf blk, of "block_height (?h ! ?e)" "[]"]) blast
  have ext: "extends ?h blk b" using linked_from_extends [OF l b] .
  have iff: "b = ?e \<longleftrightarrow> extends ?h blk ?e"
  proof
    assume e: "extends ?h blk ?e"
    show "b = ?e"
    proof (cases "vs = []")
      case True
      then have "b = blk" using l by simp
      then show ?thesis using extends_height [OF e wf] le(1) extends_height_eq [OF e wf] by simp
    next
      case False
      then show ?thesis using extends_unique [OF wf ext e] le(2) by simp
    qed
  qed (use ext in simp)
  have "update_commit vt env blk1 blk st = (if b \<noteq> ?e then Inl (RuntimeError ''safety breached'')
      else bindE (foldE (commit_one vt) vs (open_txn env (decided_hash_index st), st)) (finish_commit vt env blk1 blk))"
    using d ex by (simp add: update_commit_def deref_def loop_result_def)
  then show ?thesis using iff l by auto
qed

theorem safety_breached_iff_witness:
  "update_commit demo_virtuals demo_env 2 1 (demo_state\<lparr>b_exec := 2\<rparr>) = Inl (RuntimeError ''safety breached'')"
proof -
  have "\<not> extends demo_chain 1 2"
    using extends_height [of demo_chain 1 2] demo_chain_wf by (auto simp: word_le_nat_alt)
  then show ?thesis
    using safety_breached_iff [of "demo_state\<lparr>b_exec := 2\<rparr>" 1 demo_virtuals demo_env 2] demo_chain_wf
    by (simp add: demo_state_def)
qed

section \<open>Votes\<close>

text \<open>
  What a replica signs while it handles a sequence of events, read off the messages it emits: for
  each event in which it signs anything, the hashes it signs, and the hash and the height of the
  block of the event. This includes what it signs before a handler ends with an exception.
\<close>

fun cast_votes ::
  "('tx, ('db, 'm) HotstuffAppBase_scheme) core_virtuals \<Rightarrow> ('bv, 'db, 'tx) env \<Rightarrow> Event list \<Rightarrow>
   ('db, 'm) HotstuffAppBase_scheme \<Rightarrow> (Hash set \<times> Hash \<times> uint64) list" where
  "cast_votes vt env [] st = []"
| "cast_votes vt env (e # es) st =
     (let b = heap st ! ev_block e; xs = event_votes vt env e st in
      if xs = {} then [] else [(xs, get_hash b, block_height b)]) @
     (case on_event vt env e st of Inl err \<Rightarrow> [] | Inr st' \<Rightarrow> cast_votes vt env es st')"

lemma core_le_heights:
  assumes "core_le st st'" "\<forall>b \<in> set (heap st). block_height b < m"
  shows "\<forall>b \<in> set (heap st'). block_height b < m"
proof
  note sl = core_le_heap [OF assms(1)]
  fix b assume "b \<in> set (heap st')"
  then obtain a where "a < length (heap st)" "b = heap st' ! a"
    using same_links_length [OF sl] by (auto simp: in_set_conv_nth)
  then show "block_height b < m" using same_links_nth(7) [OF sl] assms(2) by simp
qed

context app_contract
begin

text \<open>One event: what it signs, and how it moves \<open>vheight\<close>.\<close>

lemma event_vote:
  assumes inv: "core_inv st" and r: "rooted (heap st) (ev_block e)"
    and small: "\<forall>b \<in> set (heap st). block_height b < 2 ^ 32"
  shows "event_votes vt env e st \<noteq> {} \<Longrightarrow> event_votes vt env e st = {get_hash (heap st ! ev_block e)} \<and>
      ucast (vheight st) < block_height (heap st ! ev_block e)"
    and "on_event vt env e st = Inr st' \<Longrightarrow>
      ucast (vheight st') = (if event_votes vt env e st = {} then ucast (vheight st) else block_height (heap st ! ev_block e))"
proof -
  note D = core_invD [OF inv]
  let ?b = "ev_block e"
  let ?t = "block_height (heap st ! ?b)"
  have b: "?b < length (heap st)" by (rule rooted_addr [OF r])
  have op: "proposal_opinion ?b st = Inr (safe_to_vote st ?b)"
    using proposal_opinion_eq [OF D(2) b rooted_addr [OF D(5)]] .
  have above: "ucast (vheight st) < ?t" if "safe_to_vote st ?b" using that by (simp add: safe_to_vote_def)
  show "event_votes vt env e st = {get_hash (heap st ! ?b)} \<and> ucast (vheight st) < ?t" if "event_votes vt env e st \<noteq> {}"
    using event_votes_rule [of e st] op above that by (cases e) (auto split: if_splits)
  assume on: "on_event vt env e st = Inr st'"
  have ev: "event_votes vt env e st = signed_votes st st'" using on by (simp add: event_votes_def)
  have fits: "ucast (ucast ?t :: uint32) = ?t" using small b by (intro ucast_32_fits) auto
  show "ucast (vheight st') = (if event_votes vt env e st = {} then ucast (vheight st) else ?t)"
  proof (cases e)
    case (VoteEvent rid cert a)
    then show ?thesis using on_event_signed [OF on] ev on on_receive_vote_vheight [of env cert a rid st st'] by simp
  next
    case (ProposalEvent rid a)
    then show ?thesis
      using on_event_signed [OF on] ev on on_receive_proposal_vheight [OF inv, of env a rid st'] op fits by simp
  qed
qed

end

text \<open>
  C21 --- A replica votes at most once per height. While it handles any sequence of events on a heap
  whose heights fit into 32 bits, each event makes it sign at most the hash of the one block the
  event is about, and the heights of the blocks it signs increase strictly and are all above the
  height of its last vote before. What it signs is read off the messages \<open>do_vote\<close> emits.
\<close>

theorem votes_increase:
  assumes "core_inv st" "\<forall>e \<in> set es. rooted (heap st) (ev_block e)"
    and "\<forall>b \<in> set (heap st). block_height b < 2 ^ 32"
  shows "sorted_wrt (<) (map (\<lambda>(xs, x, t). t) (cast_votes (app_virtuals env vm await) env es st)) \<and>
    (\<forall>(xs, x, t) \<in> set (cast_votes (app_virtuals env vm await) env es st). xs = {x} \<and> ucast (vheight st) < t)"
  using assms
proof (induction es arbitrary: st)
  case Nil
  then show ?case by simp
next
  case (Cons e es)
  let ?vt = "app_virtuals env vm await"
  let ?xs = "event_votes ?vt env e st" and ?b = "heap st ! ev_block e"
  let ?later = "case on_event ?vt env e st of Inl err \<Rightarrow> [] | Inr st' \<Rightarrow> cast_votes ?vt env es st'"
  let ?v = "if ?xs = {} then ucast (vheight st) else block_height ?b"
  have re: "rooted (heap st) (ev_block e)" using Cons.prems(2) by simp
  note E = spec_app.event_vote [OF Cons.prems(1) re Cons.prems(3)]
  have later: "sorted_wrt (<) (map (\<lambda>(xs, x, t). t) ?later) \<and> (\<forall>(xs, x, t) \<in> set ?later. xs = {x} \<and> ?v < t)"
  proof (cases "on_event ?vt env e st")
    case (Inr st')
    have N: "core_inv st' \<and> core_le st st'"
      using Inr re spec_app.on_receive_vote_inv [OF Cons.prems(1)] spec_app.on_receive_proposal_inv [OF Cons.prems(1)]
      by (cases e) auto
    have roots: "\<forall>e \<in> set es. rooted (heap st') (ev_block e)"
      using Cons.prems(2) same_links_rooted [OF core_le_heap [OF conjunct2 [OF N]]] by auto
    have "?later = cast_votes ?vt env es st'" using Inr by simp
    then show ?thesis
      unfolding E(2) [OF Inr, symmetric]
      using Cons.IH [OF conjunct1 [OF N] roots core_le_heights [OF conjunct2 [OF N] Cons.prems(3)]] by simp
  qed simp
  have eq: "cast_votes ?vt env (e # es) st =
      (if ?xs = {} then [] else [(?xs, get_hash ?b, block_height ?b)]) @ ?later"
    by (simp add: Let_def)
  show ?case
  proof (cases "?xs = {}")
    case True
    then show ?thesis unfolding eq using later by simp
  next
    case False
    then show ?thesis unfolding eq using later E(1) [OF False] by fastforce
  qed
qed

theorem votes_increase_witness:
  "\<exists>v vs. cast_votes demo_virtuals demo_env [ProposalEvent 1 4, ProposalEvent 1 4] demo_state = v # vs \<and>
     sorted_wrt (<) (map (\<lambda>(xs, x, t). t) (v # vs)) \<and> core_inv demo_state"
proof -
  let ?es = "[ProposalEvent 1 4, ProposalEvent 1 4]"
  have "\<forall>b \<in> set (heap demo_state). block_height b < 2 ^ 32"
    by (simp add: demo_state_def demo_chain_def)
  moreover have "rooted (heap demo_state) 4" by (simp add: demo_state_def rooted_def)
  ultimately have s: "sorted_wrt (<) (map (\<lambda>(xs, x, t). t) (cast_votes demo_virtuals demo_env ?es demo_state))"
    using votes_increase [OF demo_state_inv, of ?es demo_env demo_vm Inr] by simp
  obtain st where "on_event demo_virtuals demo_env (ProposalEvent 1 4) demo_state = Inr st"
    using demo_commit by auto
  from this spec_app.on_event_signed [OF this]
  have "event_votes demo_virtuals demo_env (ProposalEvent 1 4) demo_state \<noteq> {}"
    by (simp add: event_votes_def demo_opinion)
  then show ?thesis using s demo_state_inv by (simp add: Let_def)
qed

text \<open>
  C22 --- The last voted height is a 32-bit field. After a replica has handled a proposal for which it
  signed a vote, the voting rule allows a vote for a block of the same height, be it the same block
  or another one, if and only if the height does not fit into 32 bits and the rest of the rule
  holds: the block extends the lock, or the block it certifies is above the lock. So from height
  \<open>2 ^ 32\<close> on a replica votes repeatedly at one height, and below it never does.
\<close>

theorem vheight_truncates:
  assumes inv: "core_inv st" and rcv: "on_receive_proposal (app_virtuals env vm await) env b rid st = Inr st'"
    and voted: "signed_votes st st' \<noteq> {}"
    and c: "c < length (heap st)" "block_height (heap st ! c) = block_height (heap st ! b)"
  shows "proposal_opinion c st' = Inr (2 ^ 32 \<le> block_height (heap st ! b) \<and>
    ((\<exists>j. justify_block_ptr (heap st' ! c) = Some j \<and>
        block_height (heap st' ! b_lock st') < block_height (heap st' ! j)) \<or>
     extends (heap st') c (b_lock st')))"
proof -
  have on: "on_event (app_virtuals env vm await) env (ProposalEvent rid b) st = Inr st'" using rcv by simp
  note I = spec_app.on_receive_proposal_inv [OF inv rcv]
  note sl = core_le_heap [OF I(2)] and D = core_invD [OF inv] and D' = core_invD [OF I(1)]
  have "proposal_opinion b st = Inr True"
    using spec_app.on_event_signed [OF on] voted by (auto split: if_splits)
  moreover have b: "b < length (heap st)"
    by (rule spec_app.on_receive_proposal_effect [OF rcv D(2) rooted_addr [OF D(5)]])
  ultimately have "safe_to_vote st b" using proposal_opinion_eq [OF D(2) _ rooted_addr [OF D(5)]] by simp
  then have v: "vheight st' = ucast (block_height (heap st ! b))"
    using spec_app.on_receive_proposal_vheight [OF inv rcv] by simp
  have c': "c < length (heap st')" "block_height (heap st' ! c) = block_height (heap st ! b)"
    using c same_links_length [OF sl] same_links_nth(7) [OF sl] by simp_all
  show ?thesis
    using proposal_opinion_eq [OF D'(2) c'(1) rooted_addr [OF D'(5)]] v c'(2) ucast_32_less [of "block_height (heap st ! b)"]
    by (auto simp: safe_to_vote_def)
qed

theorem vheight_truncates_witness:
  "\<exists>st'. on_receive_proposal demo_virtuals demo_env 4 1 demo_state = Inr st' \<and> vheight st' = 4 \<and>
     proposal_opinion 4 st' = Inr False"
proof -
  obtain st' where rcv: "on_receive_proposal demo_virtuals demo_env 4 1 demo_state = Inr st'" and v: "vheight st' = 4"
    using demo_commit by blast
  have on: "on_event demo_virtuals demo_env (ProposalEvent 1 4) demo_state = Inr st'" using rcv by simp
  have voted: "signed_votes demo_state st' \<noteq> {}" using spec_app.on_event_signed [OF on] by (simp add: demo_opinion)
  have at: "4 < length (heap demo_state)" "block_height (heap demo_state ! 4) = 4" by (simp_all add: demo_state_def)
  show ?thesis
    using vheight_truncates [OF demo_state_inv rcv voted at(1) refl] rcv v at(2) by simp
qed

end
