(* ===== verification/Evidence.thy ===== *)
theory Evidence
  imports ReplicaThreads
begin

text \<open>
  What a replica holds as evidence. Given which hashes are certified and which replica signed
  which hash, both as predicates, the invariant says that every certificate, vote and pointer a
  replica acts on is backed by them: the certificates of the linked blocks and of the blocks
  that wait, the votes in the queues and in the certificate under construction, the highest
  certified block, the lock, and the three-chain above the executed block. Every step keeps it
  when the messages that come in are backed.
\<close>

section \<open>The invariant\<close>

definition good_block :: "(Hash \<Rightarrow> bool) \<Rightarrow> HotstuffBlock \<Rightarrow> bool" where
  "good_block cert b \<longleftrightarrow> (\<exists>qc. parsed_qc b = Some qc \<and> cert (obj_hash qc))"

definition good_net ::
  "(Hash \<Rightarrow> bool) \<Rightarrow> (ReplicaID \<Rightarrow> Hash \<Rightarrow> bool) \<Rightarrow> block_heap \<Rightarrow> NetEvent \<Rightarrow> bool" where
  "good_net cert sig h e \<longleftrightarrow>
     (case e of VoteNetEvent pc voter \<Rightarrow> sig voter (cert_hash pc)
      | ProposalNetEvent a rid \<Rightarrow> good_block cert (h ! a)
      | BlockReceiveNetEvent a rid \<Rightarrow> good_block cert (h ! a))"

definition good_event :: "(ReplicaID \<Rightarrow> Hash \<Rightarrow> bool) \<Rightarrow> block_heap \<Rightarrow> Event \<Rightarrow> bool" where
  "good_event sig h e \<longleftrightarrow>
     (case e of VoteEvent voter pc a \<Rightarrow> sig voter (get_hash (h ! a)) | ProposalEvent rid a \<Rightarrow> True)"

definition good_votes :: "(ReplicaID \<Rightarrow> Hash \<Rightarrow> bool) \<Rightarrow> HotstuffBlock \<Rightarrow> bool" where
  "good_votes sig b \<longleftrightarrow>
     omap_wf (sigs (self_qc b)) \<and> (\<forall>voter \<in> signers (self_qc b). sig voter (get_hash b))"

definition executed_ok :: "(Hash \<Rightarrow> bool) \<Rightarrow> block_heap \<Rightarrow> block_addr \<Rightarrow> bool" where
  "executed_ok cert h e \<longleftrightarrow>
     parsed_qc (h ! e) = None \<or>
     (\<exists>b2 b1. b2 < length h \<and> three_chain h b2 b1 e \<and> cert (get_hash (h ! b2)))"

definition evidence ::
  "(Hash \<Rightarrow> bool) \<Rightarrow> (ReplicaID \<Rightarrow> Hash \<Rightarrow> bool) \<Rightarrow> ('db, 'm) HotstuffAppBase_scheme \<Rightarrow> bool" where
  "evidence cert sig st \<longleftrightarrow>
     (\<forall>a < length (heap st). parent_block_ptr (heap st ! a) \<noteq> None \<longrightarrow> good_block cert (heap st ! a)) \<and>
     (\<forall>a < length (heap st). parsed_qc (heap st ! a) = None \<longrightarrow> get_hash (heap st ! a) = zero_hash) \<and>
     (\<forall>a < length (heap st). good_votes sig (heap st ! a)) \<and>
     (\<forall>e \<in> held_net st. good_net cert sig (heap st) e) \<and>
     (\<forall>e \<in> held_events st. good_event sig (heap st) e) \<and>
     cert (get_hash (heap st ! fst (hqc st))) \<and> cert (get_hash (heap st ! b_lock st)) \<and>
     executed_ok cert (heap st) (b_exec st)"

lemma evidenceD:
  assumes "evidence cert sig st"
  shows "a < length (heap st) \<Longrightarrow> parent_block_ptr (heap st ! a) \<noteq> None \<Longrightarrow> good_block cert (heap st ! a)"
    and "a < length (heap st) \<Longrightarrow> parsed_qc (heap st ! a) = None \<Longrightarrow> get_hash (heap st ! a) = zero_hash"
    and "a < length (heap st) \<Longrightarrow> good_votes sig (heap st ! a)"
    and "e \<in> held_net st \<Longrightarrow> good_net cert sig (heap st) e"
    and "e' \<in> held_events st \<Longrightarrow> good_event sig (heap st) e'"
    and "cert (get_hash (heap st ! fst (hqc st)))" and "cert (get_hash (heap st ! b_lock st))"
    and "executed_ok cert (heap st) (b_exec st)"
  using assms unfolding evidence_def by blast+

text \<open>More signatures and more certified blocks.\<close>

lemma evidence_mono:
  assumes "evidence cert sig st" "\<And>x. cert x \<Longrightarrow> cert' x" "\<And>v x. sig v x \<Longrightarrow> sig' v x"
  shows "evidence cert' sig' st"
proof -
  have b: "good_block cert' c" if "good_block cert c" for c
    using that assms(2) by (auto simp: good_block_def)
  have n: "good_net cert' sig' h e" if "good_net cert sig h e" for h e
    using that assms(3) b by (cases e) (simp_all add: good_net_def)
  have v: "good_event sig' h e" if "good_event sig h e" for h e
    using that assms(3) by (cases e) (simp_all add: good_event_def)
  have w: "good_votes sig' c" if "good_votes sig c" for c
    using that assms(3) by (auto simp: good_votes_def)
  have x: "executed_ok cert' h e" if "executed_ok cert h e" for h e
    using that assms(2) unfolding executed_ok_def by blast
  show ?thesis using assms(1,2) b n v w x unfolding evidence_def by blast
qed

section \<open>Growth\<close>

lemma three_chain_le:
  assumes "heap_wf h" "heap_le h h'" "b2 < length h" "three_chain h b2 b1 b"
  shows "three_chain h' b2 b1 b"
proof -
  have b1: "b1 < length h" using assms heap_wfD(6) by (auto simp: three_chain_def)
  show ?thesis
    using assms(4) heap_leD(7,8) [OF assms(2,3)] heap_leD(7,8) [OF assms(2) b1] by (simp add: three_chain_def)
qed

lemma executed_ok_le:
  assumes "executed_ok cert h e" "heap_wf h" "heap_le h h'" "e < length h"
  shows "executed_ok cert h' e"
  using assms three_chain_le [OF assms(2,3)] heap_leD(1,4,5) [OF assms(3)]
  unfolding executed_ok_def by metis

lemma good_block_le: "heap_le h h' \<Longrightarrow> a < length h \<Longrightarrow> good_block cert (h ! a) \<Longrightarrow> good_block cert (h' ! a)"
  by (simp add: good_block_def heap_leD)

lemma good_net_le: "heap_le h h' \<Longrightarrow> net_ok h e \<Longrightarrow> good_net cert sig h e \<Longrightarrow> good_net cert sig h' e"
  using good_block_le by (cases e) (auto simp: good_net_def net_ok_def)

lemma good_event_le: "heap_le h h' \<Longrightarrow> event_ok h bs e \<Longrightarrow> good_event sig h e \<Longrightarrow> good_event sig h' e"
  using heap_leD(5) [of h h'] by (cases e) (auto simp: good_event_def event_ok_def in_store_def rooted_def)

text \<open>
  A step that keeps the core's own pointers: new objects carry a certificate and no votes, and
  what is newly linked or newly queued is backed.
\<close>

definition votes_kept :: "block_heap \<Rightarrow> block_heap \<Rightarrow> bool" where
  "votes_kept h h' \<longleftrightarrow>
     (\<forall>a < length h'. if a < length h then self_qc (h' ! a) = self_qc (h ! a)
        else sigs (self_qc (h' ! a)) = [] \<and> parsed_qc (h' ! a) \<noteq> None)"

lemma evidence_grow:
  assumes ev: "evidence cert sig st" and inv: "replica_inv st" and le: "heap_le (heap st) (heap st')"
    and same: "hqc st' = hqc st" "b_lock st' = b_lock st" "b_exec st' = b_exec st"
    and kept: "votes_kept (heap st) (heap st')"
    and link: "\<And>a. a < length (heap st') \<Longrightarrow> parent_block_ptr (heap st' ! a) \<noteq> None \<Longrightarrow>
      a < length (heap st) \<and> parent_block_ptr (heap st ! a) \<noteq> None \<or> good_block cert (heap st' ! a)"
    and net: "\<And>e. e \<in> held_net st' \<Longrightarrow> e \<in> held_net st \<or> good_net cert sig (heap st') e"
    and events: "\<And>e. e \<in> held_events st' \<Longrightarrow> e \<in> held_events st \<or> good_event sig (heap st') e"
  shows "evidence cert sig st'"
proof -
  note D = evidenceD [OF ev] and R = replica_invD [OF inv] and C = core_invD [OF replica_invD(1) [OF inv]]
  have old: "a < length (heap st) \<or> sigs (self_qc (heap st' ! a)) = [] \<and> parsed_qc (heap st' ! a) \<noteq> None"
    if "a < length (heap st')" for a using kept [unfolded votes_kept_def, rule_format, OF that] by (simp split: if_splits)
  have self: "self_qc (heap st' ! a) = self_qc (heap st ! a)" if "a < length (heap st)" for a
    using kept [unfolded votes_kept_def, rule_format, OF heap_leD(1) [OF le that]] that by simp
  have 1: "good_block cert (heap st' ! a)" if "a < length (heap st')" "parent_block_ptr (heap st' ! a) \<noteq> None" for a
    using link [OF that] good_block_le [OF le] D(1) by blast
  have 2: "get_hash (heap st' ! a) = zero_hash" if "a < length (heap st')" "parsed_qc (heap st' ! a) = None" for a
    using old [OF that(1)] that D(2) [of a] heap_leD(4,5) [OF le, of a] by auto
  have 3: "good_votes sig (heap st' ! a)" if "a < length (heap st')" for a
    using old [OF that] D(3) [of a] self [of a] heap_leD(5) [OF le, of a]
    by (cases "a < length (heap st)") (simp_all add: good_votes_def signers_def)
  have 4: "good_net cert sig (heap st') e" if "e \<in> held_net st'" for e
    using net [OF that] good_net_le [OF le R(6) D(4)] by blast
  have 5: "good_event sig (heap st') e" if "e \<in> held_events st'" for e
    using events [OF that] good_event_le [OF le R(7) D(5)] by blast
  have 6: "get_hash (heap st' ! fst (hqc st)) = get_hash (heap st ! fst (hqc st))"
    "get_hash (heap st' ! b_lock st) = get_hash (heap st ! b_lock st)"
    using heap_leD(5) [OF le rooted_addr [OF C(4)]] heap_leD(5) [OF le rooted_addr [OF C(5)]] .
  show ?thesis
    using 1 2 3 4 5 6 D(6,7) executed_ok_le [OF D(8) C(2) le rooted_addr [OF C(6)]] same
    unfolding evidence_def by simp
qed

section \<open>Messages that come in\<close>

text \<open>A message is backed if it is backed in the case that its signatures check.\<close>

definition wire_backed ::
  "('bv, 'db, 'tx) env \<Rightarrow> ReplicaConfig \<Rightarrow> (Hash \<Rightarrow> bool) \<Rightarrow> HotstuffBlockWire \<Rightarrow> bool" where
  "wire_backed env cfg cert w \<longleftrightarrow>
     (verify env cfg (parse_QuorumCertificate env (header_qc (header w))) = Inr True \<longrightarrow>
        cert (justify (header_qc (header w))))"

definition message_backed ::
  "('bv, 'db, 'tx) env \<Rightarrow> ReplicaConfig \<Rightarrow> (Hash \<Rightarrow> bool) \<Rightarrow> (ReplicaID \<Rightarrow> Hash \<Rightarrow> bool) \<Rightarrow>
   'l replica_label \<Rightarrow> bool" where
  "message_backed env cfg cert sig l \<longleftrightarrow>
     (case l of
        HandlerVote v \<Rightarrow>
          (\<forall>pk. get_publickey cfg (msg_voter v) = Inr pk \<longrightarrow>
             check_sig env (cert_sig (msg_vote v)) (cert_hash (msg_vote v)) pk \<longrightarrow>
             sig (msg_voter v) (cert_hash (msg_vote v)))
      | HandlerPropose p \<Rightarrow> wire_backed env cfg cert (msg_proposal p)
      | FetchEnd rid (Some ws) \<Rightarrow> (\<forall>w \<in> set ws. wire_backed env cfg cert w)
      | _ \<Rightarrow> True)"

lemma votes_kept_refl [simp, intro]: "votes_kept h h"
  by (simp add: votes_kept_def)

lemma same_state_kept: "same_state h h' \<Longrightarrow> votes_kept h h'"
  using same_state_nth(2) [of h h'] same_links_length [OF same_state_links, of h h'] by (simp add: votes_kept_def)

lemma same_state_linked:
  "same_state h h' \<Longrightarrow> a < length h' \<Longrightarrow> parent_block_ptr (h' ! a) \<noteq> None \<Longrightarrow>
     a < length h \<and> parent_block_ptr (h ! a) \<noteq> None"
  using same_links_length [of h h'] same_links_nth(5) [of h h' a] by (simp add: same_state_def)

lemma evidence_same_state:
  assumes "evidence cert sig st" "replica_inv st" "same_state (heap st) h'"
  shows "evidence cert sig (st\<lparr>heap := h'\<rparr>)"
  by (rule evidence_grow [OF assms(1,2)])
    (use same_links_le [OF same_state_links [OF assms(3)]] same_state_kept [OF assms(3)]
      same_state_linked [OF assms(3)] in auto)

lemma evidence_net_add:
  assumes "evidence cert sig st" "\<And>e. e \<in> set es \<Longrightarrow> good_net cert sig (heap st) e"
  shows "evidence cert sig (st\<lparr>network_event_queue := add_events es (network_event_queue st)\<rparr>)"
  using assms unfolding evidence_def by auto

lemma net_validate_evidence:
  assumes ev: "evidence cert sig st" and inv: "replica_inv st" and e: "net_ok (heap st) e"
    and backed: "net_valid env (config st) (heap st) e \<Longrightarrow> good_net cert sig (heap st) e"
    and v: "net_validate_and_add_event env e st = Inr st'"
  shows "evidence cert sig st'" and "config st' = config st"
proof -
  obtain ok h' where h': "same_state (heap st) h'" and ok: "ok \<Longrightarrow> net_valid env (config st) (heap st) e"
    and st': "st' = st\<lparr>heap := h', network_event_queue :=
       (if ok then add_event e (network_event_queue st) else network_event_queue st)\<rparr>"
    by (rule net_validate_and_add_event_ok [OF v]) blast
  note ev' = evidence_same_state [OF ev inv h']
  have "ok \<Longrightarrow> good_net cert sig h' e"
    using good_net_le [OF same_links_le [OF same_state_links [OF h']] e] backed ok by blast
  then show "evidence cert sig st'"
    using ev' evidence_net_add [OF ev', of "[e]"] st' by (cases ok) (simp_all add: add_event_add_events)
  show "config st' = config st" using st' by simp
qed

lemma evidence_alloc:
  assumes ev: "evidence cert sig st" and inv: "replica_inv st"
    and b: "parent_block_ptr b = None" "parsed_qc b \<noteq> None" "sigs (self_qc b) = []"
  shows "evidence cert sig (st\<lparr>heap := heap st @ [b]\<rparr>)"
proof (rule evidence_grow [OF ev inv])
  show "heap_le (heap st) (heap (st\<lparr>heap := heap st @ [b]\<rparr>))"
    using heap_le_alloc [of "heap st" b] by (simp add: alloc_block_def)
  show "votes_kept (heap st) (heap (st\<lparr>heap := heap st @ [b]\<rparr>))"
    using b by (auto simp: votes_kept_def nth_append less_Suc_eq)
qed (use b in \<open>auto simp: nth_append less_Suc_eq split: if_splits\<close>)

lemma handler_vote_evidence:
  assumes "evidence cert sig st" "replica_inv st" "message_backed env (config st) cert sig (HandlerVote v)"
    "handler_vote env v st = Inr st'"
  shows "evidence cert sig st'"
proof (cases "is_valid_replica (config st) (msg_voter v)")
  case False
  then show ?thesis using assms by (simp add: handler_vote_def)
next
  case True
  then have "net_validate_and_add_event env (new_VoteNetEvent v) st = Inr st'"
    using assms(4) by (simp add: handler_vote_def)
  from net_validate_evidence(1) [OF assms(1,2) _ _ this] show ?thesis
    using assms(3) by (auto simp: message_backed_def new_VoteNetEvent_def net_ok_def net_valid_def good_net_def)
qed

lemma handler_propose_evidence:
  assumes ev: "evidence cert sig st" and inv: "replica_inv st"
    and msg: "message_backed env (config st) cert sig (HandlerPropose p)" and h: "handler_propose env p st = Inr st'"
  shows "evidence cert sig st'"
proof (cases "is_valid_replica (config st) (msg_proposer p)")
  case False
  then show ?thesis using ev h by (simp add: handler_propose_def del: is_valid_replica_iff)
next
  case True
  then obtain b where b: "new_HotstuffBlock env (msg_proposal p) (msg_proposer p) = Inr b"
    and v: "net_validate_and_add_event env (ProposalNetEvent (length (heap st)) (msg_proposer p))
      (st\<lparr>heap := heap st @ [b]\<rparr>) = Inr st'"
    using h by (auto simp: handler_propose_def new_ProposalNetEvent_def receive_block_def alloc_block_def
        simp del: is_valid_replica_iff elim!: bindE_InrE)
  note B = new_HotstuffBlock_fields [OF b]
  have "evidence cert sig (st\<lparr>heap := heap st @ [b]\<rparr>)"
    using evidence_alloc [OF ev inv B(1)] B(5,6) by (simp add: new_QuorumCertificate_def)
  from net_validate_evidence(1) [OF this replica_inv_alloc(1) [OF inv B(1-4)] _ _ v] show ?thesis
    using msg B(5) by (auto simp: message_backed_def wire_backed_def net_ok_def net_valid_def good_net_def good_block_def)
qed

lemma insert_block_others:
  assumes "insert_block a h bs = Inr (missing, h', bs')" "c \<noteq> a"
  shows "h' ! c = h ! c"
  using assms by (auto simp: insert_block_def set_parent_def set_justify_def upd_block_def Let_def
      elim!: bindE_InrE split: option.splits)

section \<open>Fetched blocks\<close>

text \<open>A step that leaves the heap and the pointers of the core alone.\<close>

lemma evidence_frame:
  assumes "evidence cert sig st" "heap st' = heap st" "hqc st' = hqc st" "b_lock st' = b_lock st"
    "b_exec st' = b_exec st"
    "\<And>e. e \<in> held_net st' \<Longrightarrow> e \<in> held_net st \<or> good_net cert sig (heap st) e"
    "\<And>e. e \<in> held_events st' \<Longrightarrow> e \<in> held_events st \<or> good_event sig (heap st) e"
  shows "evidence cert sig st'"
proof -
  have "good_net cert sig (heap st) e" if "e \<in> held_net st'" for e
    using assms(6) [OF that] evidenceD(4) [OF assms(1)] by blast
  moreover have "good_event sig (heap st) e" if "e \<in> held_events st'" for e
    using assms(7) [OF that] evidenceD(5) [OF assms(1)] by blast
  ultimately show ?thesis using assms(1-5) unfolding evidence_def by simp
qed

lemma evidence_upd_worker: "evidence cert sig st \<Longrightarrow> evidence cert sig (upd_worker rid f st)"
  by (erule evidence_frame) (simp_all add: upd_worker_def held_net_def held_events_def dependents_def)

lemma fetch_deliver_evidence:
  assumes ev: "evidence cert sig st" and inv: "replica_inv st"
    and msg: "wire_backed env (config st) cert resp" and d: "fetch_deliver env rid resp st = Inr st'"
  shows "evidence cert sig st'" and "config st' = config st"
proof -
  obtain b b' ok where b: "new_HotstuffBlock env resp rid = Inr b" and vh: "validate_hash env b = Inr (ok, b')"
    and v: "net_validate_and_add_event env (BlockReceiveNetEvent (length (heap st)) rid)
      (st\<lparr>heap := heap st @ [b']\<rparr>) = Inr st'"
    using d by (auto simp: fetch_deliver_def receive_block_def alloc_block_def deref_def upd_block_def
        elim!: bindE_InrE split: if_splits)
  note B = new_HotstuffBlock_fields [OF b] and S = validate_hash_same [OF vh]
  have f: "parent_block_ptr b' = None" "justify_block_ptr b' = None" "block_height b' = 0" "\<not> decided b'"
    "parsed_qc b' = Some (parse_QuorumCertificate env (header_qc (header resp)))" "sigs (self_qc b') = []"
    using B S by (auto simp: links_def new_QuorumCertificate_def)
  have "evidence cert sig (st\<lparr>heap := heap st @ [b']\<rparr>)" using evidence_alloc [OF ev inv f(1)] f(5,6) by simp
  note N = net_validate_evidence [OF this replica_inv_alloc(1) [OF inv f(1-4)] _ _ v]
  show "evidence cert sig st'"
    using N(1) msg f(5) by (auto simp: wire_backed_def net_ok_def net_valid_def good_net_def good_block_def)
  show "config st' = config st"
    using v by (auto simp: net_validate_and_add_event_def Let_def elim!: bindE_InrE)
qed

lemma fetch_worker_end_evidence:
  assumes ev: "evidence cert sig st" and inv: "replica_inv st"
    and msg: "message_backed env (config st) cert sig (FetchEnd rid res)" and e: "fetch_worker_end env rid res st = Inr st'"
  shows "evidence cert sig st'"
  using e
proof (cases rule: fetch_worker_end_cases)
  case idle
  then show ?thesis using ev by simp
next
  case failed
  then show ?thesis using evidence_upd_worker [OF ev] by auto
next
  case (answered ws)
  let ?ok = "\<lambda>s. evidence cert sig s \<and> replica_inv s \<and> config s = config st"
  have run: "foldE (fetch_deliver env rid) xs s = Inr s' \<Longrightarrow> ?ok s \<Longrightarrow> set xs \<subseteq> set ws \<Longrightarrow> ?ok s'" for xs s s'
  proof (induction xs arbitrary: s)
    case (Cons w xs)
    then obtain s1 where s1: "fetch_deliver env rid w s = Inr s1" "foldE (fetch_deliver env rid) xs s1 = Inr s'"
      by (auto elim!: bindE_InrE)
    have "wire_backed env (config s) cert w" using msg Cons.prems(2,3) answered(1) by (simp add: message_backed_def)
    then have "?ok s1"
      using fetch_deliver_evidence [OF _ _ _ s1(1)] fetch_deliver_inv(1) [OF _ s1(1)] Cons.prems(2) by auto
    then show ?case using Cons.IH [OF s1(2)] Cons.prems(3) by simp
  qed simp
  let ?st = "upd_worker rid (\<lambda>w. w\<lparr>in_flight := []\<rparr>) st"
  have "config ?st = config st" by (simp add: upd_worker_def)
  then show ?thesis
    using run [of ws ?st st'] answered(2) evidence_upd_worker [OF ev] replica_inv_upd_worker(1) [OF inv]
    by simp
qed

section \<open>The network thread\<close>

lemma fetch_request_evidence:
  assumes ev: "evidence cert sig st" and inv: "replica_inv st"
    and es: "\<And>e. e \<in> set es \<Longrightarrow> good_net cert sig (heap st) e" and f: "fetch_request hash target es st = Inr st'"
  shows "evidence cert sig st'"
proof -
  obtain fm where fm: "add_fetch_request (config st) hash target es (block_fetch_manager st) = Inr fm"
    and st': "st' = st\<lparr>block_fetch_manager := fm\<rparr>"
    using f by (auto simp: fetch_request_def elim!: bindE_InrE)
  have "dependents fm \<subseteq> dependents (block_fetch_manager st) \<union> set es"
    using add_fetch_request_cases(2) [OF replica_invD(8) [OF inv] fm] .
  then show ?thesis
    using es by (intro evidence_frame [OF ev]) (auto simp: st' held_net_def)
qed

lemma request_dependencies_evidence:
  assumes ev: "evidence cert sig st" and inv: "replica_inv st"
    and es: "\<And>e. e \<in> set es \<Longrightarrow> good_net cert sig (heap st) e"
    and ok: "\<And>e. e \<in> set es \<Longrightarrow> net_ok (heap st) e"
    and f: "request_dependencies missing sender es st = Inr st'"
  shows "evidence cert sig st'"
proof -
  obtain es1 st1 where 1: "evidence cert sig st1" "replica_inv st1" "heap st1 = heap st" "set es1 \<subseteq> set es"
    and 2: "(case missing_justify missing of None \<Rightarrow> Inr st1
      | Some hash \<Rightarrow> fetch_request hash sender es1 st1) = Inr st'"
  proof (cases "missing_parent missing")
    case None
    then show thesis using that [of st es] ev inv f by (simp add: request_dependencies_def)
  next
    case (Some hash)
    then obtain st1 where st1: "fetch_request hash sender es st = Inr st1"
      and rest: "(case missing_justify missing of None \<Rightarrow> Inr st1
        | Some hash \<Rightarrow> fetch_request hash sender [] st1) = Inr st'"
      using f by (auto simp: request_dependencies_def elim!: bindE_InrE)
    show thesis
      using that [of st1 "[]"] fetch_request_evidence [OF ev inv es st1] fetch_request_inv [OF inv ok st1] rest by simp
  qed
  show ?thesis
  proof (cases "missing_justify missing")
    case None
    then show ?thesis using 1 2 by simp
  next
    case (Some hash)
    then have f2: "fetch_request hash sender es1 st1 = Inr st'" using 2 by simp
    have "good_net cert sig (heap st1) e" if "e \<in> set es1" for e using es 1 that by auto
    from fetch_request_evidence [OF 1(1,2) this f2] show ?thesis .
  qed
qed

lemma insert_block_evidence:
  assumes ev: "evidence cert sig st" and inv: "replica_inv st" and room: "height_room (heap st) (block_store st)"
    and good: "good_block cert (heap st ! a)"
    and ins: "insert_block a (heap st) (block_store st) = Inr (missing, h, store)"
  shows "evidence cert sig (st\<lparr>heap := h, block_store := store\<rparr>)"
proof (rule evidence_grow [OF ev inv])
  have qc: "parsed_qc (heap st ! a) \<noteq> None" using good by (auto simp: good_block_def)
  note V = insert_block_votes [OF ins] and I = insert_block_inv [OF inv room qc ins]
  let ?st = "st\<lparr>heap := h, block_store := store\<rparr>"
  show le: "heap_le (heap st) (heap ?st)" using I(2) by simp
  have len: "length h = length (heap st)" using map_eq_imp_length_eq [OF V(1)] .
  have "self_qc (h ! c) = self_qc (heap st ! c)" if "c < length h" for c
    using arg_cong [OF V(1), of "\<lambda>xs. xs ! c"] that len by simp
  then show "votes_kept (heap st) (heap ?st)" using len by (simp add: votes_kept_def)
  show "c < length (heap st) \<and> parent_block_ptr (heap st ! c) \<noteq> None \<or> good_block cert (heap ?st ! c)"
    if "c < length (heap ?st)" "parent_block_ptr (heap ?st ! c) \<noteq> None" for c
  proof (cases "c = a")
    case True
    then show ?thesis using good_block_le [OF I(2) V(4) good] by simp
  next
    case False
    then have "h ! c = heap st ! c" using insert_block_others [OF ins] by blast
    then show ?thesis using that len by simp
  qed
qed (simp_all add: held_net_def)

lemma net_insert_evidence:
  assumes ev: "evidence cert sig st" and inv: "replica_inv st" and room: "height_room (heap st) (block_store st)"
    and e: "net_ok (heap st) e" "good_net cert sig (heap st) e" and good: "good_block cert (heap st ! a)"
    and ins: "net_insert e a sender st = Inr (ok, st')"
  shows "evidence cert sig st'"
proof -
  obtain missing h store es fm where i: "insert_block a (heap st) (block_store st) = Inr (missing, h, store)"
    and d: "deliver_block (get_hash (h ! a)) (block_fetch_manager st) = (es, fm)"
    and rest: "(if \<not> MissingDependencies_bool missing
      then Inr (True, st\<lparr>heap := h, block_store := store, block_fetch_manager := fm,
        network_event_queue := add_events es (network_event_queue st)\<rparr>)
      else bindE (request_dependencies missing sender (es @ [e])
          (st\<lparr>heap := h, block_store := store, block_fetch_manager := fm\<rparr>)) (\<lambda>st. Inr (False, st))) = Inr (ok, st')"
    using ins by (auto simp: net_insert_def Let_def deref_def elim!: bindE_InrE split: prod.splits if_splits)
  let ?st = "st\<lparr>heap := h, block_store := store\<rparr>"
  have qc: "parsed_qc (heap st ! a) \<noteq> None" using good by (auto simp: good_block_def)
  note I = insert_block_inv [OF inv room qc i] and E = insert_block_evidence [OF ev inv room good i]
  have d': "deliver_block (get_hash (h ! a)) (block_fetch_manager ?st) = (es, fm)" using d by simp
  note R = replica_inv_deliver [OF I(1) d'] and F = deliver_block_ok(4,5) [OF replica_invD(8) [OF inv] d]
  have E': "evidence cert sig (?st\<lparr>block_fetch_manager := fm\<rparr>)"
    using F(1) by (intro evidence_frame [OF E]) (auto simp: held_net_def)
  have es: "good_net cert sig h x \<and> net_ok h x" if "x \<in> set (es @ [e])" for x
    using that F(2) evidenceD(4) [OF E, of x] R(2) [of x] good_net_le [OF I(2) e] net_ok_le [OF e(1) I(2)]
    by (auto simp: held_net_def)
  show ?thesis
  proof (cases "MissingDependencies_bool missing")
    case False
    then show ?thesis using rest evidence_net_add [OF E', of es] es by auto
  next
    case True
    then have "request_dependencies missing sender (es @ [e]) (?st\<lparr>block_fetch_manager := fm\<rparr>) = Inr st'"
      using rest by (auto elim!: bindE_InrE)
    from request_dependencies_evidence [OF E' R(1) _ _ this] show ?thesis using es by simp
  qed
qed

lemma add_event_evidence:
  assumes "evidence cert sig st" "good_event sig (heap st) e" "validate_and_add_event e st = Inr st'"
  shows "evidence cert sig st'"
proof -
  obtain ok where "st' = (if ok then st\<lparr>event_queue := add_event e (event_queue st)\<rparr> else st)"
    by (rule validate_and_add_event_ok [OF assms(3)])
  then show ?thesis using assms(1,2) by (cases ok) (auto simp: evidence_def)
qed

lemma net_on_event_evidence:
  assumes ev: "evidence cert sig st" and inv: "replica_inv st" and room: "height_room (heap st) (block_store st)"
    and e: "net_ok (heap st) e" "good_net cert sig (heap st) e" and on: "net_on_event e st = Inr st'"
  shows "evidence cert sig st'"
proof (cases e)
  case (VoteNetEvent pc voter)
  show ?thesis
  proof (cases "block_cache (block_store st) (cert_hash pc)")
    case None
    then have f: "fetch_request (cert_hash pc) voter [e] st = Inr st'"
      using on VoteNetEvent by (simp add: get_block_def)
    show ?thesis using fetch_request_evidence [OF ev inv _ f] e by simp
  next
    case (Some a)
    then have add: "validate_and_add_event (VoteEvent voter pc a) st = Inr st'"
      using on VoteNetEvent by (simp add: get_block_def VoteNetEvent_to_hotstuff_event_def)
    show ?thesis
      using add_event_evidence [OF ev _ add] e VoteNetEvent cached_in_store(2) [OF replica_invD(2) [OF inv] Some]
      by (simp add: good_event_def good_net_def)
  qed
next
  case (ProposalNetEvent a rid)
  have "bindE (net_insert e a rid st) (\<lambda>(ok, st1).
      if ok then validate_and_add_event (ProposalEvent rid a) st1 else Inr st1) = Inr st'"
    using on unfolding ProposalNetEvent net_on_event.simps ProposalNetEvent_to_hotstuff_event_def .
  then obtain r where r: "net_insert e a rid st = Inr r" "(case r of (ok, st1) \<Rightarrow>
      if ok then validate_and_add_event (ProposalEvent rid a) st1 else Inr st1) = Inr st'"
    by (rule bindE_InrE)
  obtain ok st1 where i: "net_insert e a rid st = Inr (ok, st1)"
    and rest: "(if ok then validate_and_add_event (ProposalEvent rid a) st1 else Inr st1) = Inr st'"
    using r by (cases r) simp
  have good: "good_block cert (heap st ! a)" using e(2) ProposalNetEvent by (simp add: good_net_def)
  have E1: "evidence cert sig st1" by (rule net_insert_evidence [OF ev inv room e good i])
  then show ?thesis
    using rest add_event_evidence [OF E1, of "ProposalEvent rid a"] by (cases ok) (auto simp: good_event_def)
next
  case (BlockReceiveNetEvent a rid)
  then obtain ok where i: "net_insert e a rid st = Inr (ok, st')" using on by (auto elim!: bindE_InrE)
  have good: "good_block cert (heap st ! a)" using e(2) BlockReceiveNetEvent by (simp add: good_net_def)
  show ?thesis by (rule net_insert_evidence [OF ev inv room e good i])
qed

lemma network_thread_evidence:
  assumes ev: "evidence cert sig st" and inv: "replica_inv st" and room: "height_room (heap st) (block_store st)"
    and n: "network_thread st = Inr st'"
  shows "evidence cert sig st'"
proof (cases "queue_next (queue_take (network_event_queue st))")
  case None
  then show ?thesis using n ev by (simp add: network_thread_def)
next
  case (Some eq)
  obtain e q where eq: "eq = (e, q)" by (cases eq)
  have pend: "pending_events (network_event_queue st) = e # pending_events q"
    using queue_pop [of "network_event_queue st" e q] Some eq by simp
  let ?st = "st\<lparr>network_event_queue := q\<rparr>"
  have sub: "held_net ?st \<subseteq> held_net st" and e: "e \<in> held_net st" by (auto simp: held_net_def pend)
  have inv': "replica_inv ?st"
    using inv sub unfolding replica_inv_def by (auto simp: core_inv_def core_wf_def)
  have ev': "evidence cert sig ?st" using sub by (intro evidence_frame [OF ev]) auto
  have "net_on_event e ?st = Inr st'" using n Some eq by (simp add: network_thread_def)
  from net_on_event_evidence [OF ev' inv' _ _ _ this] show ?thesis
    using room replica_invD(6) [OF inv e] evidenceD(4) [OF ev e] by simp
qed

section \<open>The collector and the proposer\<close>

lemma gc_thread_evidence:
  assumes ev: "evidence cert sig st" and inv: "replica_inv st" and g: "gc_thread st = Inr st'"
  shows "evidence cert sig st'"
proof (cases "gc_exists_work_to_do (gc_collector (block_store st))")
  case False
  then show ?thesis using g ev by (simp add: gc_thread_def)
next
  case True
  then obtain gc h where r: "gc_run_step (gc_collector (block_store st)) (heap st) = Inr (gc, h)"
    and st': "st' = st\<lparr>heap := h, block_store := (block_store st)\<lparr>gc_collector := gc\<rparr>\<rparr>"
    using g by (auto simp: gc_thread_def elim!: bindE_InrE)
  have "evidence cert sig (st\<lparr>heap := h\<rparr>)"
    by (rule evidence_same_state [OF ev inv gc_run_step_effect(1) [OF r replica_invD(5) [OF inv]]])
  then show ?thesis by (rule evidence_frame) (simp_all add: st' held_net_def)
qed

lemma propose_with_body_evidence:
  assumes ev: "evidence cert sig st" and inv: "replica_inv st" and room: "height_room (heap st) (block_store st)"
    and p: "propose_with_body env bs st = Inr (hash, st')"
  shows "evidence cert sig st'"
proof -
  let ?a = "length (heap st)"
  obtain b w missing h store where b: "new_HotstuffBlock env w (self_id st) = Inr b"
    and w: "header_qc (header w) = snd (hqc st)"
    and i: "insert_block ?a (heap st @ [b]) (block_store st) = Inr (missing, h, store)"
    and bc: "broadcast_proposal ?a (st\<lparr>heap := h, block_store := store, b_leaf := ?a\<rparr>) = Inr st'"
    using p by (auto simp: propose_with_body_def mint_block_def alloc_block_def deref_def Let_def
        elim!: bindE_InrE split: if_splits)
  note B = new_HotstuffBlock_fields [OF b]
  let ?st = "st\<lparr>heap := heap st @ [b]\<rparr>"
  have E: "evidence cert sig ?st"
    using evidence_alloc [OF ev inv B(1)] B(5,6) by (simp add: new_QuorumCertificate_def)
  have room': "height_room (heap ?st) (block_store ?st)"
    using room store_wfD(2) [OF replica_invD(2) [OF inv]] by (auto simp: height_room_def nth_append)
  have "good_block cert b"
    using B(5) w evidenceD(6) [OF ev] core_invD(10) [OF replica_invD(1) [OF inv]] by (simp add: good_block_def)
  then have "evidence cert sig (?st\<lparr>heap := h, block_store := store\<rparr>)"
    using insert_block_evidence [OF E replica_inv_alloc(1) [OF inv B(1-4)] room', of ?a missing h store] i by simp
  then have E': "evidence cert sig (st\<lparr>heap := h, block_store := store, b_leaf := ?a\<rparr>)"
    by (rule evidence_frame) (simp_all add: held_net_def held_events_def)
  obtain st1 cl where v: "validate_and_add_event (ProposalEvent (self_id st) ?a)
      (st\<lparr>heap := h, block_store := store, b_leaf := ?a\<rparr>) = Inr st1" and st': "st' = st1\<lparr>other_clients := cl\<rparr>"
    using bc by (auto simp: broadcast_proposal_def self_client_propose_def Let_def elim!: bindE_InrE)
  have "evidence cert sig st1" using add_event_evidence [OF E' _ v] by (simp add: good_event_def)
  then show ?thesis by (rule evidence_frame) (simp_all add: st' held_net_def held_events_def)
qed

end
