(* ===== verification/EvidenceCore.thy ===== *)
theory EvidenceCore
  imports Evidence Votes
begin

text \<open>
  The core keeps the evidence: what it locks, commits and certifies is backed by the certificates
  of the blocks it looks at and by the votes it has collected. Together with the steps of the
  other threads this gives the invariant for every step of a replica. The second half follows the
  votes of the replica itself, their heights and the lock.
\<close>

section \<open>The core\<close>

lemma good_justify:
  assumes "heap_wf h" "a < length h" "good_block cert (h ! a)" "justify_block_ptr (h ! a) = Some j"
  shows "cert (get_hash (h ! j))"
  using heap_wfD(7) [OF assms(1,2,4)] assms(3)
  by (auto simp: good_block_def get_justify_hash_def get_justify_qc_def)

lemma evidence_justify:
  assumes "evidence cert sig st" "heap_wf (heap st)" "a < length (heap st)" "justify_block_ptr (heap st ! a) = Some j"
  shows "cert (get_hash (heap st ! j))"
proof -
  have "parent_block_ptr (heap st ! a) \<noteq> None" using heap_wfD(1) [OF assms(2,3)] assms(4) by simp
  then show ?thesis using good_justify [OF assms(2,3) evidenceD(1) [OF assms(1,3)] assms(4)] by blast
qed

text \<open>A call into the core, with its new pointers.\<close>

lemma evidence_core:
  assumes ev: "evidence cert sig st" and inv: "replica_inv st" and sl: "same_links (heap st) (heap st')"
    and votes: "\<And>a. a < length (heap st) \<Longrightarrow> good_votes sig (heap st' ! a)"
    and net: "held_net st' = held_net st"
    and events: "\<And>e. e \<in> held_events st' \<Longrightarrow> e \<in> held_events st \<or> good_event sig (heap st') e"
    and hq: "fst (hqc st') < length (heap st)" "cert (get_hash (heap st ! fst (hqc st')))"
    and lk: "b_lock st' < length (heap st)" "cert (get_hash (heap st ! b_lock st'))"
    and ex: "b_exec st' < length (heap st)" "executed_ok cert (heap st) (b_exec st')"
  shows "evidence cert sig st'"
proof -
  note D = evidenceD [OF ev] and R = replica_invD [OF inv]
  have wf: "heap_wf (heap st)" by (rule store_wfD(1) [OF R(2)])
  note le = same_links_le [OF sl] and len = same_links_length [OF sl] and n = same_links_nth [OF sl]
  have 1: "good_block cert (heap st' ! a)" if "a < length (heap st)" "parent_block_ptr (heap st' ! a) \<noteq> None" for a
    using D(1) [OF that(1)] that(2) n(5) [OF that(1)] good_block_le [OF le that(1)] by simp
  have 2: "get_hash (heap st' ! a) = zero_hash" if "a < length (heap st)" "parsed_qc (heap st' ! a) = None" for a
    using D(2) [OF that(1)] that(2) n(2,3) [OF that(1)] by simp
  have 4: "good_net cert sig (heap st') e" if "e \<in> held_net st" for e
    using good_net_le [OF le R(6) [OF that] D(4) [OF that]] .
  have 5: "good_event sig (heap st') e" if "e \<in> held_events st'" for e
    using events [OF that] good_event_le [OF le R(7) D(5)] by blast
  show ?thesis
    using 1 2 votes 4 5 net hq(2) lk(2) n(3) [OF hq(1)] n(3) [OF lk(1)] executed_ok_le [OF ex(2) wf le ex(1)] len
    unfolding evidence_def by simp
qed

lemma base_rel_events:
  "base_rel b st st' \<Longrightarrow> e \<in> held_events st' \<Longrightarrow> e \<in> held_events st \<or> (\<exists>pc. e = VoteEvent (self_id st) pc b)"
  by (auto simp: base_rel_def held_events_def)

lemma base_rel_net: "base_rel b st st' \<Longrightarrow> held_net st' = held_net st"
  by (simp add: base_rel_def held_net_def)

lemma good_votes_update:
  assumes "good_votes sig (h ! a)" "a < length h"
  shows "good_votes sig (decide_all T (mark_written S h) ! a)"
  using assms by (auto simp: good_votes_def nth_upd_all get_hash_def)

text \<open>What \<open>update\<close> makes of the pointers.\<close>

lemma update_effect_evidence:
  assumes ev: "evidence cert sig st" and inv: "replica_inv st" and eff: "update_effect env nblk st1 st'"
    and eqs: "heap st1 = heap st" "hqc st1 = hqc st" "b_lock st1 = b_lock st" "b_exec st1 = b_exec st"
    and n: "nblk < length (heap st)"
  shows "cert (get_hash (heap st ! fst (hqc st')))" and "cert (get_hash (heap st ! b_lock st'))"
    and "executed_ok cert (heap st) (b_exec st')"
proof -
  let ?h = "heap st"
  note D = evidenceD [OF ev] and wf = store_wfD(1) [OF replica_invD(2) [OF inv]]
  note J = evidence_justify [OF ev wf]
  have jl: "j < length ?h" if "justify_block_ptr (?h ! nblk) = Some j" for j using heap_wfD(6) [OF wf n that] .
  have hq: "hqc st' = hqc st \<or> (\<exists>b2. justify_block_ptr (?h ! nblk) = Some b2 \<and> fst (hqc st') = b2)"
    using eff eqs by (auto simp: update_effect_def hqc_effect_def split: if_splits)
  then show "cert (get_hash (?h ! fst (hqc st')))" using D(6) J [OF n] by auto
  have lk: "b_lock st' = b_lock st \<or> (\<exists>b2. justify_block_ptr (?h ! nblk) = Some b2 \<and>
      justify_block_ptr (?h ! b2) = Some (b_lock st'))"
    using eff unfolding update_effect_def lock_effect_def eqs by blast
  then show "cert (get_hash (?h ! b_lock st'))" using D(7) J [OF jl] by auto
  have ex: "b_exec st' = b_exec st \<or> (\<exists>b2 b1. justify_block_ptr (?h ! nblk) = Some b2 \<and> three_chain ?h b2 b1 (b_exec st'))"
    using eff unfolding update_effect_def commit_effect_def eqs by blast
  then show "executed_ok cert ?h (b_exec st')" using D(8) J [OF n] jl unfolding executed_ok_def by metis
qed

text \<open>A block is certified once a quorum has signed it.\<close>

definition quorum_closed :: "ReplicaConfig \<Rightarrow> (Hash \<Rightarrow> bool) \<Rightarrow> (ReplicaID \<Rightarrow> Hash \<Rightarrow> bool) \<Rightarrow> bool" where
  "quorum_closed cfg cert sig \<longleftrightarrow>
     (\<forall>x Q. finite Q \<longrightarrow> nmajority cfg \<le> card Q \<longrightarrow> (\<forall>v \<in> Q. sig v x) \<longrightarrow> cert x)"

context app_contract
begin

text \<open>A proposal adds an event only if the rule allows a vote.\<close>

lemma on_receive_proposal_events:
  assumes inv: "core_inv st" and rcv: "on_receive_proposal vt env b rid st = Inr st'" and no: "\<not> safe_to_vote st b"
  shows "held_events st' = held_events st"
proof -
  note C = core_invD [OF inv]
  have b: "b < length (heap st)"
    by (rule on_receive_proposal_effect [OF rcv C(2) rooted_addr [OF C(5)]])
  have "proposal_opinion b st = Inr False"
    using proposal_opinion_eq [OF C(2) b rooted_addr [OF C(5)]] no by simp
  then have "update vt env b st = Inr st'" using rcv by (simp add: on_receive_proposal_def proposal_vote_def)
  from core_frame.update_rel [OF queue_frame this] show ?thesis by (simp add: queue_same_def held_events_def)
qed

lemma on_receive_proposal_evidence:
  assumes ev: "evidence cert sig st" and inv: "replica_inv st"
    and rcv: "on_receive_proposal vt env b rid st = Inr st'"
    and own: "safe_to_vote st b \<Longrightarrow> sig (self_id st) (get_hash (heap st ! b))"
  shows "evidence cert sig st'"
proof -
  note C = core_invD [OF replica_invD(1) [OF inv]]
  note I = on_receive_proposal_inv [OF replica_invD(1) [OF inv] rcv]
  obtain st1 where b: "b < length (heap st)" and sc: "same_core (if safe_to_vote st b
      then st\<lparr>vheight := ucast (block_height (heap st ! b))\<rparr> else st) st1"
    and u: "update_effect env b st1 st'"
    by (rule on_receive_proposal_effect [OF rcv C(2) rooted_addr [OF C(5)]])
  have eqs: "heap st1 = heap st" "b_exec st1 = b_exec st" "b_lock st1 = b_lock st" "hqc st1 = hqc st"
    "b_leaf st1 = b_leaf st"
    using sc by (auto simp: same_core_def split: if_splits)
  note U = update_effect_evidence [OF ev inv u eqs(1,4,3,2) b]
  obtain S vs where h': "heap st' = decide_all (set vs) (mark_written S (heap st))"
    using u eqs unfolding update_effect_def by auto
  have sl: "same_links (heap st) (heap st')" unfolding h' by simp
  note I' = core_invD [OF I(1)]
  have len: "length (heap st') = length (heap st)" using same_links_length [OF sl] .
  note rel = core_relation.on_receive_proposal_rel [OF base_relation rcv]
  have events: "e \<in> held_events st \<or> good_event sig (heap st') e" if "e \<in> held_events st'" for e
  proof (cases "safe_to_vote st b")
    case True
    then show ?thesis
      using base_rel_events [OF rel that] own same_links_nth(3) [OF sl b] by (auto simp: good_event_def)
  next
    case False
    then show ?thesis using that on_receive_proposal_events [OF replica_invD(1) [OF inv] rcv] by simp
  qed
  show ?thesis
  proof (rule evidence_core [OF ev inv sl _ base_rel_net [OF rel] events])
    show "good_votes sig (heap st' ! a)" if "a < length (heap st)" for a
      unfolding h' by (rule good_votes_update [OF evidenceD(3) [OF ev that] that])
  qed (use U rooted_addr [OF I'(4)] rooted_addr [OF I'(5)] rooted_addr [OF I'(6)] len in simp_all)
qed

lemma on_receive_vote_evidence:
  assumes ev: "evidence cert sig st" and inv: "replica_inv st" and b: "rooted (heap st) b"
    and vote: "sig rid (get_hash (heap st ! b))" and quo: "quorum_closed (config st) cert sig"
    and rcv: "on_receive_vote vt env pc b rid st = Inr st'"
  shows "evidence cert sig st'"
proof -
  note D = evidenceD [OF ev] and C = core_invD [OF replica_invD(1) [OF inv]]
  note I = on_receive_vote_inv [OF replica_invD(1) [OF inv] rcv b]
  obtain qc st1 where qc: "add_partial_certificate rid pc (self_qc (heap st ! b)) = Inr qc"
    and sc: "same_core (st1\<lparr>heap := upd_block b (\<lambda>x. x\<lparr>self_qc := qc\<rparr>) (heap st)\<rparr>) st'"
    and st1: "st1 = st \<or> has_quorum (config st) qc \<and>
       block_height (heap st ! fst (hqc st)) < block_height (heap st ! b) \<and>
       st1 = st\<lparr>hqc := (b, serialize env qc), b_leaf := b\<rparr>"
    by (rule on_receive_vote_effect [OF rcv]) blast
  have bl: "b < length (heap st)" by (rule rooted_addr [OF b])
  have h': "heap st' = upd_block b (\<lambda>x. x\<lparr>self_qc := qc\<rparr>) (heap st)" using sc by (simp add: same_core_def)
  have f: "b_lock st' = b_lock st" "b_exec st' = b_exec st" "hqc st' = hqc st1"
    using sc st1 by (auto simp: same_core_def)
  have sl: "same_links (heap st) (heap st')" using I(2) by (rule core_le_heap)
  have hash: "obj_hash qc = get_hash (heap st ! b)" and sigs: "\<exists>s. sigs qc = omap_emplace rid s (sigs (self_qc (heap st ! b)))"
    using qc by (auto simp: add_partial_certificate_def get_hash_def split: if_splits)
  have "signers qc = insert rid (signers (self_qc (heap st ! b)))"
    using sigs unfolding signers_def by (metis set_omap_emplace)
  then have wf: "omap_wf (sigs qc)" and who: "\<And>v. v \<in> signers qc \<Longrightarrow> sig v (get_hash (heap st ! b))"
    using sigs D(3) [OF bl] vote by (auto simp: good_votes_def)
  have votes: "good_votes sig (heap st' ! a)" if "a < length (heap st)" for a
    using D(3) [OF that] wf who hash that bl unfolding h'
    by (cases "a = b") (simp_all add: upd_block_def good_votes_def get_hash_def)
  have "card (signers qc) = length (sigs qc)"
    using distinct_card [OF omap_wf_distinct [OF wf]] by (simp add: signers_def)
  moreover have "finite (signers qc)" by (simp add: signers_def)
  ultimately have "cert (get_hash (heap st ! b))" if "has_quorum (config st) qc"
    using quo who that unfolding quorum_closed_def has_quorum_def by metis
  then have hq: "fst (hqc st') < length (heap st)" "cert (get_hash (heap st ! fst (hqc st')))"
    using st1 f(3) D(6) bl rooted_addr [OF C(4)] by auto
  note rel = core_frame.on_receive_vote_rel [OF core_relation.axioms(1) [OF base_relation] rcv]
  have events: "held_events st' = held_events st"
    using core_frame.on_receive_vote_rel [OF queue_frame rcv] by (simp add: queue_same_def held_events_def)
  show ?thesis
    by (rule evidence_core [OF ev inv sl votes base_rel_net [OF rel]])
      (use events hq f D(7,8) rooted_addr [OF C(5)] rooted_addr [OF C(6)] in auto)
qed

lemma core_thread_evidence:
  assumes ev: "evidence cert sig st" and inv: "replica_inv st" and quo: "quorum_closed (config st) cert sig"
    and own: "\<And>x l. core_vote st = Some (x, l) \<Longrightarrow> sig (self_id st) x"
    and c: "core_thread vt env st = Inr st'"
  shows "evidence cert sig st'"
proof (cases "queue_next (queue_take (event_queue st))")
  case None
  then show ?thesis using c ev by (simp add: core_thread_def)
next
  case (Some eq)
  obtain e q where eq: "eq = (e, q)" by (cases eq)
  have pend: "pending_events (event_queue st) = e # pending_events q"
    using queue_pop [of "event_queue st" e q] Some eq by simp
  let ?st = "st\<lparr>event_queue := q\<rparr>"
  have sub: "held_events ?st \<subseteq> held_events st" and e: "e \<in> held_events st" by (auto simp: held_events_def pend)
  have inv': "replica_inv ?st"
    using inv sub unfolding replica_inv_def by (auto simp: core_inv_def core_wf_def)
  have ev': "evidence cert sig ?st" using sub by (intro evidence_frame [OF ev]) auto
  have on: "on_event vt env e ?st = Inr st'" using c Some eq by (simp add: core_thread_def)
  have ok: "rooted (heap st) (ev_block e)"
    using replica_invD(7) [OF inv e] by (simp add: event_ok_def in_store_def)
  note C = core_invD [OF replica_invD(1) [OF inv]]
  show ?thesis
  proof (cases e)
    case (VoteEvent rid pc a)
    then show ?thesis
      using on_receive_vote_evidence [OF ev' inv', of a rid pc st'] ok quo on evidenceD(5) [OF ev e]
      by (simp add: good_event_def)
  next
    case (ProposalEvent rid a)
    then have "proposal_opinion a st = Inr (safe_to_vote st a)"
      using proposal_opinion_eq [OF C(2) _ rooted_addr [OF C(5)]] rooted_addr [OF ok] by simp
    then have "core_vote st = Some (get_hash (heap st ! a), get_hash (heap st ! b_lock st))" if "safe_to_vote st a"
      using that Some eq ProposalEvent by (simp add: core_vote_def)
    then show ?thesis
      using on_receive_proposal_evidence [OF ev' inv', of a rid st'] on own ProposalEvent
      by (auto simp: safe_to_vote_def)
  qed
qed

end

end
