(* ===== verification/EvidenceSteps.thy ===== *)
theory EvidenceSteps
  imports EvidenceCore
begin

text \<open>
  All steps of a replica: the evidence is kept, the identity of the replica never changes, and the
  blocks it has voted for stay below the height of its last vote and behind its lock.
\<close>

section \<open>What the other threads leave alone\<close>

definition same_pointers ::
  "('db, 'm) HotstuffAppBase_scheme \<Rightarrow> ('db, 'm) HotstuffAppBase_scheme \<Rightarrow> bool" where
  "same_pointers st st' \<longleftrightarrow>
     config st' = config st \<and> self_id st' = self_id st \<and> vheight st' = vheight st \<and> hqc st' = hqc st \<and>
     b_lock st' = b_lock st \<and> b_exec st' = b_exec st \<and>
     (\<forall>t. outgoing_votes st' t = outgoing_votes st t \<or> outgoing_votes st' t = [])"

lemma same_pointers_refl [simp, intro]: "same_pointers st st"
  by (simp add: same_pointers_def)

lemma same_pointers_trans: "same_pointers st st' \<Longrightarrow> same_pointers st' st'' \<Longrightarrow> same_pointers st st''"
  unfolding same_pointers_def by metis

lemma outgoing_votes_fields [simp]:
  "outgoing_votes (st\<lparr>heap := h\<rparr>) = outgoing_votes st"
  "outgoing_votes (st\<lparr>block_store := bs\<rparr>) = outgoing_votes st"
  "outgoing_votes (st\<lparr>block_fetch_manager := fm\<rparr>) = outgoing_votes st"
  "outgoing_votes (st\<lparr>event_queue := eq\<rparr>) = outgoing_votes st"
  "outgoing_votes (st\<lparr>network_event_queue := nq\<rparr>) = outgoing_votes st"
  "outgoing_votes (st\<lparr>latest_new_qc := lq\<rparr>) = outgoing_votes st"
  "outgoing_votes (st\<lparr>cancel_wait := cw\<rparr>) = outgoing_votes st"
  "outgoing_votes (st\<lparr>b_leaf := a\<rparr>) = outgoing_votes st"
  by (simp_all add: outgoing_votes_def fun_eq_iff)

text \<open>A broadcast adds proposals to the queues of the clients, and the clients only take from them.\<close>

lemma outgoing_votes_broadcast [simp]:
  "outgoing_votes (st\<lparr>other_clients := (\<lambda>r. map_option (client_propose p) (other_clients st r))\<rparr>) = outgoing_votes st"
  by (auto simp: outgoing_votes_def fun_eq_iff client_propose_def split: option.splits)

lemma client_thread_pointers:
  assumes "\<And>c. work (f c) = work c \<or> work (f c) = []"
  shows "same_pointers st (client_thread rid f st)"
proof -
  have "outgoing_votes (client_thread rid f st) t = outgoing_votes st t \<or> outgoing_votes (client_thread rid f st) t = []" for t
    using assms [of "the (other_clients st rid)"]
    by (auto simp: client_thread_def outgoing_votes_def split: option.splits)
  then show ?thesis by (simp add: same_pointers_def client_thread_def)
qed

lemma same_pointers_fields [simp]:
  "same_pointers st (st'\<lparr>heap := h\<rparr>) = same_pointers st st'"
  "same_pointers st (st'\<lparr>block_store := bs\<rparr>) = same_pointers st st'"
  "same_pointers st (st'\<lparr>block_fetch_manager := fm\<rparr>) = same_pointers st st'"
  "same_pointers st (st'\<lparr>event_queue := eq\<rparr>) = same_pointers st st'"
  "same_pointers st (st'\<lparr>network_event_queue := nq\<rparr>) = same_pointers st st'"
  "same_pointers st (st'\<lparr>latest_new_qc := lq\<rparr>) = same_pointers st st'"
  "same_pointers st (st'\<lparr>cancel_wait := cw\<rparr>) = same_pointers st st'"
  "same_pointers st (st'\<lparr>b_leaf := a\<rparr>) = same_pointers st st'"
  by (simp_all add: same_pointers_def)

lemma same_pointers_base: "same_base st st' \<Longrightarrow> same_pointers st st'"
  by (simp add: same_base_iff same_core_def same_pointers_def outgoing_votes_def)

lemma validate_and_add_event_pointers: "validate_and_add_event e st = Inr st' \<Longrightarrow> same_pointers st st'"
  by (erule validate_and_add_event_ok) simp

lemma net_validate_pointers: "net_validate_and_add_event env e st = Inr st' \<Longrightarrow> same_pointers st st'"
  by (erule net_validate_and_add_event_ok) simp

lemma fetch_request_pointers: "fetch_request hash target es st = Inr st' \<Longrightarrow> same_pointers st st'"
  by (auto simp: fetch_request_def elim!: bindE_InrE)

lemma request_dependencies_pointers:
  "request_dependencies m sender es st = Inr st' \<Longrightarrow> same_pointers st st'"
  by (auto simp: request_dependencies_def elim!: bindE_InrE split: option.splits
      dest!: fetch_request_pointers intro: same_pointers_trans)

lemma net_insert_pointers:
  assumes "net_insert e a sender st = Inr (ok, st')"
  shows "same_pointers st st'"
  using assms
  by (auto simp: net_insert_def Let_def dest!: request_dependencies_pointers elim!: bindE_InrE
      split: prod.splits if_splits) (simp_all add: same_pointers_def)

lemma net_on_event_pointers: "net_on_event e st = Inr st' \<Longrightarrow> same_pointers st st'"
  by (cases e) (auto elim!: bindE_InrE split: option.splits if_splits dest!: net_insert_pointers
      fetch_request_pointers validate_and_add_event_pointers intro: same_pointers_trans)

lemma network_thread_pointers: "network_thread st = Inr st' \<Longrightarrow> same_pointers st st'"
  by (auto simp: network_thread_def dest!: net_on_event_pointers split: option.splits)
    (simp add: same_pointers_def)

lemma fetch_worker_end_pointers:
  assumes "fetch_worker_end env rid res st = Inr st'"
  shows "same_pointers st st'"
proof -
  have up: "same_pointers st (upd_worker rid f st)" for f by (simp add: upd_worker_def)
  have one: "same_pointers s s'" if "fetch_deliver env rid w s = Inr s'" for w s s'
    using that by (auto simp: fetch_deliver_def dest!: net_validate_pointers elim!: bindE_InrE)
      (simp add: same_pointers_def)
  show ?thesis
    using assms
  proof (cases rule: fetch_worker_end_cases)
    case (answered ws)
    from answered(2) show ?thesis by (rule foldE_invariant) (use up one same_pointers_trans in blast)+
  qed (use up in auto)
qed

lemma handlers_pointers:
  "handler_vote env v st = Inr st' \<Longrightarrow> same_pointers st st'"
  "handler_propose env p st = Inr st' \<Longrightarrow> same_pointers st st'"
  "gc_thread st = Inr st' \<Longrightarrow> same_pointers st st'"
  by (auto simp: handler_vote_def handler_propose_def gc_thread_def elim!: bindE_InrE split: if_splits
      dest!: net_validate_pointers simp del: is_valid_replica_iff) (simp_all add: same_pointers_def)

lemma propose_with_body_pointers: "propose_with_body env bs st = Inr (hash, st') \<Longrightarrow> same_pointers st st'"
  by (auto simp: propose_with_body_def broadcast_proposal_def self_client_propose_def Let_def elim!: bindE_InrE
      split: if_splits dest!: validate_and_add_event_pointers) (simp_all add: same_pointers_def)

context app_contract
begin

lemma other_step_pointers:
  assumes "replica_step vt gnb loc env l st = Inr st'" "l \<noteq> CoreThread"
  shows "same_pointers st st'"
proof -
  have propose: "same_pointers st st'" if "gnb sched ne height st = Inr (bs, st1)"
    "propose_with_body env bs st1 = Inr (hash, st')" for sched ne height bs st1 hash
    using same_pointers_trans [OF same_pointers_base [OF next_vm_block_own [OF that(1)]] propose_with_body_pointers [OF that(2)]] .
  show ?thesis
  proof (cases l)
    case (FetchBegin rid)
    then show ?thesis using assms by (auto simp: fetch_worker_begin_def upd_worker_def)
  next
    case (WaitForQC hash)
    then show ?thesis
      using assms by (auto simp: wait_for_new_qc_def split: option.splits if_splits)
  next
    case (ClientTake rid)
    then show ?thesis using assms client_thread_pointers [of "client_take False" st rid] by (auto simp: client_take_def)
  next
    case (ClientSend rid ok)
    have "work (snd (client_do_work False ok c)) = work c" for c
      by (simp add: client_do_work_def split: list.split)
    then show ?thesis
      using assms ClientSend client_thread_pointers [of "\<lambda>c. snd (client_do_work False ok c)" st rid] by simp
  qed (use assms propose handlers_pointers network_thread_pointers fetch_worker_end_pointers
      same_pointers_base [OF local_own] in
      \<open>auto simp: do_propose_def do_empty_propose_def cancel_wait_for_new_qc_def elim!: bindE_InrE\<close>)
qed

lemma core_thread_ids:
  assumes inv: "replica_inv st" and c: "core_thread vt env st = Inr st'"
  shows "config st' = config st \<and> self_id st' = self_id st"
proof (cases "queue_next (queue_take (event_queue st))")
  case None
  then show ?thesis using c by (simp add: core_thread_def)
next
  case (Some eq)
  obtain e q where eq: "eq = (e, q)" by (cases eq)
  let ?st = "st\<lparr>event_queue := q\<rparr>"
  have on: "on_event vt env e ?st = Inr st'" using c Some eq by (simp add: core_thread_def)
  have "e \<in> held_events st" using queue_pop [of "event_queue st" e q] Some eq by (simp add: held_events_def)
  then have ok: "rooted (heap ?st) (ev_block e)"
    using replica_invD(7) [OF inv] by (fastforce simp: event_ok_def in_store_def)
  have core: "core_inv ?st" using replica_invD(1) [OF inv] by (simp add: core_inv_def core_wf_def)
  have "core_le ?st st'"
    using on on_receive_vote_inv(2) [OF core] on_receive_proposal_inv(2) [OF core] ok by (cases e) auto
  then show ?thesis by (simp add: core_le_def)
qed

end

section \<open>Every step keeps the evidence\<close>

text \<open>The vote the rule asks for in a step.\<close>

definition step_vote :: "'l replica_label \<Rightarrow> ('db, 'm) HotstuffAppBase_scheme \<Rightarrow> (Hash \<times> Hash) option" where
  "step_vote l st = (case l of CoreThread \<Rightarrow> core_vote st | _ \<Rightarrow> None)"

context app_contract
begin

text \<open>A step signs the vote the rule asks for and no other, also when it ends with an exception.\<close>

lemma other_step_votes:
  assumes "replica_step vt gnb loc env l st = Inr st'" "l \<noteq> CoreThread"
  shows "sent_votes st st' = {}"
proof -
  have "outgoing_votes st' t = outgoing_votes st t \<or> outgoing_votes st' t = []" for t
    using other_step_pointers [OF assms] by (simp add: same_pointers_def)
  then have "drop (length (outgoing_votes st t)) (outgoing_votes st' t) = []" for t by (metis drop_Nil drop_all order_refl)
  then show ?thesis by (simp add: sent_votes_def)
qed

lemma step_votes_eq:
  assumes "replica_step vt gnb loc env l st = Inr st'"
  shows "step_votes vt env l st (Inr st') = fst ` set_option (step_vote l st)"
proof (cases "l = CoreThread")
  case True
  then show ?thesis using core_thread_votes assms by (simp add: step_votes_def step_vote_def)
next
  case False
  then show ?thesis using other_step_votes [OF assms] by (cases l) (simp_all add: step_votes_def step_vote_def)
qed

lemma step_votes_rule:
  assumes "replica_step vt gnb loc env l st = Inl e"
  shows "step_votes vt env l st (Inl e) \<subseteq> fst ` set_option (step_vote l st)"
  using core_votes_rule by (cases l) (simp_all add: step_votes_def step_vote_def)

lemma propose_evidence:
  assumes ev: "evidence cert sig st" and inv: "replica_inv st"
    and p: "do_propose (gnb sched) env st = Inr (hash, st') \<or> do_empty_propose (gnb sched) env st = Inr (hash, st')"
    and fit: "heights_fit (heap st')"
  shows "evidence cert sig st'"
proof -
  obtain bs st1 where sb: "same_base st st1" and pb: "propose_with_body env bs st1 = Inr (hash, st')"
    and i: "replica_inv st1"
    by (rule do_propose_ok [OF inv p])
  have room: "height_room (heap st1) (block_store st1)"
    using height_room_before [OF replica_invD(2) [OF i] propose_with_body_le [OF i pb]] fit by (simp add: heights_fit_def)
  have "evidence cert sig st1"
    by (rule evidence_frame [OF ev]) (use sb in \<open>simp_all add: same_base_iff same_core_def held_net_def held_events_def\<close>)
  from propose_with_body_evidence [OF this i room pb] show ?thesis .
qed

lemma replica_step_evidence:
  assumes ev: "evidence cert sig st" and inv: "replica_inv st" and quo: "quorum_closed (config st) cert sig"
    and msg: "message_backed env (config st) cert sig l"
    and own: "\<And>x lk. step_vote l st = Some (x, lk) \<Longrightarrow> sig (self_id st) x"
    and step: "replica_step vt gnb loc env l st = Inr st'" and fit: "heights_fit (heap st')"
  shows "evidence cert sig st'"
proof -
  have easy: "evidence cert sig st'" if "heap st' = heap st" "hqc st' = hqc st" "b_lock st' = b_lock st"
    "b_exec st' = b_exec st" "held_net st' = held_net st" "held_events st' = held_events st"
    using that ev unfolding evidence_def by simp
  show ?thesis
  proof (cases l)
    case (FetchBegin rid)
    then show ?thesis using step evidence_upd_worker [OF ev] by (auto simp: fetch_worker_begin_def)
  next
    case NetworkThread
    then have n: "network_thread st = Inr st'" using step by simp
    have "height_room (heap st) (block_store st)"
      using height_room_before [OF replica_invD(2) [OF inv] network_thread_le [OF inv n]] fit
      by (simp add: heights_fit_def)
    then show ?thesis using network_thread_evidence [OF ev inv _ n] by blast
  next
    case CoreThread
    then show ?thesis
      using core_thread_evidence [OF ev inv quo] own step by (auto simp: step_vote_def)
  next
    case (WaitForQC hash)
    then show ?thesis
      using step by (intro easy) (auto simp: wait_for_new_qc_def held_net_def held_events_def
          split: option.splits if_splits)
  next
    case (Local l)
    then show ?thesis
      using step local_own by (intro easy) (auto simp: same_base_iff same_core_def held_net_def held_events_def)
  next
    case (Propose sched)
    then show ?thesis using step propose_evidence [OF ev inv _ fit] by (auto elim!: bindE_InrE)
  next
    case (ProposeEmpty sched)
    then show ?thesis using step propose_evidence [OF ev inv _ fit] by (auto elim!: bindE_InrE)
  next
    case CancelWait
    then show ?thesis
      using step by (intro easy) (auto simp: cancel_wait_for_new_qc_def held_net_def held_events_def)
  next
    case (ClientTake rid)
    then show ?thesis using step by (intro easy) (auto simp: client_thread_def held_net_def held_events_def)
  next
    case (ClientSend rid ok)
    then show ?thesis using step by (intro easy) (auto simp: client_thread_def held_net_def held_events_def)
  qed (use step msg handler_vote_evidence [OF ev inv] handler_propose_evidence [OF ev inv]
      fetch_worker_end_evidence [OF ev inv] gc_thread_evidence [OF ev inv] in auto)
qed

end

section \<open>The votes of the replica itself\<close>

text \<open>
  What the argument needs of the blocks: heights that fit the type of \<open>vheight\<close>, and that the
  certificate of a block is for one of its proper ancestors. The code checks neither.
\<close>

definition heights_small :: "block_heap \<Rightarrow> bool" where
  "heights_small h \<longleftrightarrow> (\<forall>b \<in> set h. block_height b < 2 ^ 32)"

definition justified :: "block_heap \<Rightarrow> bool" where
  "justified h \<longleftrightarrow>
     (\<forall>a < length h. \<forall>p j. parent_block_ptr (h ! a) = Some p \<longrightarrow> justify_block_ptr (h ! a) = Some j \<longrightarrow>
        extends h p j)"

lemma heights_small_fit: "heights_small h \<Longrightarrow> heights_fit h"
  by (auto simp: heights_small_def heights_fit_def)

text \<open>
  Every block in \<open>V\<close>, the set of hashes it has signed, is at most as high as the last vote, and
  the lock is at least as high as the block two certificates behind it.
\<close>

definition voted_ok :: "Hash set \<Rightarrow> ('db, 'm) HotstuffAppBase_scheme \<Rightarrow> bool" where
  "voted_ok V st \<longleftrightarrow>
     (\<forall>x \<in> V. \<exists>a < length (heap st). parent_block_ptr (heap st ! a) \<noteq> None \<and> get_hash (heap st ! a) = x \<and>
        block_height (heap st ! a) \<le> ucast (vheight st) \<and>
        (\<forall>j jj. justify_block_ptr (heap st ! a) = Some j \<longrightarrow> justify_block_ptr (heap st ! j) = Some jj \<longrightarrow>
           block_height (heap st ! jj) \<le> block_height (heap st ! b_lock st)))"

lemma voted_ok_step:
  assumes V: "voted_ok V st" and wf: "heap_wf (heap st)" and le: "heap_le (heap st) (heap st')"
    and vh: "(ucast (vheight st) :: uint64) \<le> ucast (vheight st')"
    and lk: "block_height (heap st ! b_lock st) \<le> block_height (heap st' ! b_lock st')"
  shows "voted_ok V st'"
  unfolding voted_ok_def
proof
  fix x assume "x \<in> V"
  then obtain a where a: "a < length (heap st)" "parent_block_ptr (heap st ! a) \<noteq> None" "get_hash (heap st ! a) = x"
    and h: "block_height (heap st ! a) \<le> ucast (vheight st)"
    and jj: "\<And>j jj. justify_block_ptr (heap st ! a) = Some j \<Longrightarrow> justify_block_ptr (heap st ! j) = Some jj \<Longrightarrow>
      block_height (heap st ! jj) \<le> block_height (heap st ! b_lock st)"
    using V unfolding voted_ok_def by blast
  note A = heap_leD [OF le a(1)]
  have "block_height (heap st' ! jj) \<le> block_height (heap st' ! b_lock st')"
    if "justify_block_ptr (heap st' ! a) = Some j" "justify_block_ptr (heap st' ! j) = Some jj" for j jj
  proof -
    have j: "justify_block_ptr (heap st ! a) = Some j" using that(1) A(8) a(2) by simp
    have rj: "rooted (heap st) j" using heap_wfD(9) [OF wf a(1) j] .
    have j2: "justify_block_ptr (heap st ! j) = Some jj"
      using heap_leD(11) [OF le rooted_addr [OF rj] rj] that(2) by simp
    have r2: "rooted (heap st) jj" using heap_wfD(9) [OF wf rooted_addr [OF rj] j2] .
    show ?thesis
      using order_trans [OF jj [OF j j2] lk] heap_leD(12) [OF le rooted_addr [OF r2] r2] by simp
  qed
  then show "\<exists>a < length (heap st'). parent_block_ptr (heap st' ! a) \<noteq> None \<and> get_hash (heap st' ! a) = x \<and>
      block_height (heap st' ! a) \<le> ucast (vheight st') \<and>
      (\<forall>j jj. justify_block_ptr (heap st' ! a) = Some j \<longrightarrow> justify_block_ptr (heap st' ! j) = Some jj \<longrightarrow>
         block_height (heap st' ! jj) \<le> block_height (heap st' ! b_lock st'))"
    using A(1,5) A(7) [OF a(2)] A(9) [OF a(2)] a h vh by (intro exI [of _ a]) (auto intro: order_trans)
qed

lemma extends_le_height: "heap_wf h \<Longrightarrow> extends h a b \<Longrightarrow> block_height (h ! b) \<le> block_height (h ! a)"
  by (rule extends_height)

text \<open>After an update the lock covers the proposal.\<close>

lemma update_lock_covers:
  assumes inv: "core_inv st" and eff: "update_effect env b st1 st'" and just: "justified (heap st)"
    and eqs: "heap st1 = heap st" "b_lock st1 = b_lock st"
    and b: "b < length (heap st)" and up: "block_height (heap st ! b_lock st) \<le> block_height (heap st ! b_lock st')"
    and j: "justify_block_ptr (heap st ! b) = Some j" "justify_block_ptr (heap st ! j) = Some jj"
  shows "block_height (heap st ! jj) \<le> block_height (heap st ! b_lock st')"
proof -
  let ?h = "heap st"
  note C = core_invD [OF inv]
  have jl: "j < length ?h" using heap_wfD(6) [OF C(2) b j(1)] .
  have below: "block_height (?h ! a) \<le> block_height (?h ! b_lock st')" if "decided (?h ! a)" "a < length ?h" for a
    using extends_le_height [OF C(2) C(8) [OF that(2,1)]] C(9) up by simp
  have ext: "block_height (?h ! jj) \<le> block_height (?h ! j)"
  proof -
    obtain p where p: "parent_block_ptr (?h ! j) = Some p" using heap_wfD(1) [OF C(2) jl] j(2) by auto
    have "extends ?h p jj" using just jl p j(2) unfolding justified_def by blast
    then show ?thesis using extends_le_height [OF C(2) extends_parent [OF jl p]] by blast
  qed
  consider "decided (?h ! j)" | "decided (?h ! jj)" | "\<not> decided (?h ! j)" "\<not> decided (?h ! jj)" by blast
  then show ?thesis
  proof cases
    case 1
    then show ?thesis using below [OF _ jl] ext by simp
  next
    case 2
    then show ?thesis using below heap_wfD(6) [OF C(2) jl j(2)] by blast
  next
    case 3
    have "lock_effect ?h (b_lock st) (Some j) (b_lock st')" using eff j(1) eqs by (simp add: update_effect_def)
    then show ?thesis using 3 j(2) unfolding lock_effect_def by blast
  qed
qed

text \<open>The vote the core is about to cast.\<close>

lemma core_vote_ok:
  assumes inv: "replica_inv st" and v: "core_vote st = Some (x, l)"
  obtains rid b q where "queue_next (queue_take (event_queue st)) = Some (ProposalEvent rid b, q)"
    "b < length (heap st)" "parent_block_ptr (heap st ! b) \<noteq> None" "get_hash (heap st ! b) = x"
    "get_hash (heap st ! b_lock st) = l" "safe_to_vote st b"
proof -
  note C = core_invD [OF replica_invD(1) [OF inv]]
  obtain rid b q where n: "queue_next (queue_take (event_queue st)) = Some (ProposalEvent rid b, q)"
    and op: "proposal_opinion b st = Inr True" and x: "get_hash (heap st ! b) = x" "get_hash (heap st ! b_lock st) = l"
    using v by (auto simp: core_vote_def split: option.splits Event.splits if_splits)
  have "ProposalEvent rid b \<in> held_events st" using queue_pop [OF n] by (simp add: held_events_def)
  then have b: "rooted (heap st) b" using replica_invD(7) [OF inv] by (fastforce simp: event_ok_def in_store_def)
  then have safe: "safe_to_vote st b"
    using proposal_opinion_eq [OF C(2) rooted_addr [OF b] rooted_addr [OF C(5)]] op by simp
  then have "block_height (heap st ! b) \<noteq> 0" by (auto simp: safe_to_vote_def)
  then have "parent_block_ptr (heap st ! b) \<noteq> None" using heap_wfD(2) [OF C(2) rooted_addr [OF b]] by blast
  then show thesis using that n x safe rooted_addr [OF b] by blast
qed

context app_contract
begin

lemma on_receive_proposal_voted:
  assumes V: "voted_ok V st" and inv: "core_inv st" and just: "justified (heap st)" and small: "heights_small (heap st)"
    and rcv: "on_receive_proposal vt env b rid st = Inr st'"
  shows "voted_ok (if safe_to_vote st b then insert (get_hash (heap st ! b)) V else V) st'"
proof -
  let ?h = "heap st"
  note C = core_invD [OF inv] and I = on_receive_proposal_inv [OF inv rcv]
  have sl: "same_links ?h (heap st')" using I(2) by (rule core_le_heap)
  note n = same_links_nth [OF sl] and C' = core_invD [OF I(1)]
  have len: "length (heap st') = length ?h" using same_links_length [OF sl] .
  have up: "block_height (?h ! b_lock st) \<le> block_height (?h ! b_lock st')" using I(2) by (simp add: core_le_def)
  have lk': "block_height (heap st' ! b_lock st') = block_height (?h ! b_lock st')"
    using n(7) rooted_addr [OF C'(5)] len by simp
  obtain st1 where b: "b < length ?h" and sc: "same_core (if safe_to_vote st b
      then st\<lparr>vheight := ucast (block_height (?h ! b))\<rparr> else st) st1" and u: "update_effect env b st1 st'"
    by (rule on_receive_proposal_effect [OF rcv C(2) rooted_addr [OF C(5)]])
  have eqs: "heap st1 = ?h" "b_lock st1 = b_lock st" using sc by (auto simp: same_core_def split: if_splits)
  have fits: "ucast (ucast (block_height (?h ! b)) :: uint32) = block_height (?h ! b)"
    using small b by (intro ucast_32_fits) (auto simp: heights_small_def)
  note vh = on_receive_proposal_vheight [OF inv rcv]
  have "(ucast (vheight st) :: uint64) \<le> ucast (vheight st')"
    using vh fits by (auto simp: safe_to_vote_def)
  then have old: "voted_ok V st'"
    using voted_ok_step [OF V C(2) same_links_le [OF sl]] up lk' by simp
  show ?thesis
  proof (cases "safe_to_vote st b")
    case False
    then show ?thesis using old by simp
  next
    case True
    then have "block_height (?h ! b) \<noteq> 0" by (auto simp: safe_to_vote_def)
    then have linked: "parent_block_ptr (?h ! b) \<noteq> None" using heap_wfD(2) [OF C(2) b] by blast
    have "block_height (heap st' ! jj) \<le> block_height (heap st' ! b_lock st')"
      if "justify_block_ptr (heap st' ! b) = Some j" "justify_block_ptr (heap st' ! j) = Some jj" for j jj
    proof -
      have j: "justify_block_ptr (?h ! b) = Some j" using that(1) n(6) [OF b] by simp
      have jl: "j < length ?h" using heap_wfD(6) [OF C(2) b j] .
      have jj: "justify_block_ptr (?h ! j) = Some jj" using that(2) n(6) [OF jl] by simp
      then show ?thesis
        using update_lock_covers [OF inv u just eqs b up j jj] lk' n(7) [OF heap_wfD(6) [OF C(2) jl jj]] by simp
    qed
    then show ?thesis
      using old True b len linked n(3) [OF b] n(5) [OF b] n(7) [OF b] vh fits
      unfolding voted_ok_def by auto
  qed
qed

lemma core_thread_voted:
  assumes V: "voted_ok V st" and inv: "replica_inv st" and just: "justified (heap st)" and small: "heights_small (heap st)"
    and c: "core_thread vt env st = Inr st'"
  shows "voted_ok (case core_vote st of None \<Rightarrow> V | Some (x, l) \<Rightarrow> insert x V) st'"
proof (cases "queue_next (queue_take (event_queue st))")
  case None
  then show ?thesis using c V by (simp add: core_thread_def core_vote_def)
next
  case (Some eq)
  obtain e q where eq: "eq = (e, q)" by (cases eq)
  note C = core_invD [OF replica_invD(1) [OF inv]]
  let ?st = "st\<lparr>event_queue := q\<rparr>"
  have on: "on_event vt env e ?st = Inr st'" using c Some eq by (simp add: core_thread_def)
  have e: "e \<in> held_events st" using queue_pop [of "event_queue st" e q] Some eq by (simp add: held_events_def)
  have ok: "rooted (heap st) (ev_block e)" using replica_invD(7) [OF inv e] by (simp add: event_ok_def in_store_def)
  have core: "core_inv ?st" using replica_invD(1) [OF inv] by (simp add: core_inv_def core_wf_def)
  have V': "voted_ok V ?st" using V by (simp add: voted_ok_def)
  show ?thesis
  proof (cases e)
    case (VoteEvent rid pc a)
    then have v: "on_receive_vote vt env pc a rid ?st = Inr st'" using on by simp
    have le: "core_le ?st st'" using on_receive_vote_inv(2) [OF core v] ok VoteEvent by simp
    have "voted_ok V st'"
      by (rule voted_ok_step [OF V' core_invD(2) [OF core] same_links_le [OF core_le_heap [OF le]]])
        (use on_receive_vote_vheight [OF v] le same_links_nth(7) [OF core_le_heap [OF le]]
          core_invD(5) [OF on_receive_vote_inv(1) [OF core v]] same_links_length [OF core_le_heap [OF le]] ok VoteEvent
          in \<open>auto simp: core_le_def rooted_def\<close>)
    then show ?thesis using Some eq VoteEvent by (simp add: core_vote_def)
  next
    case (ProposalEvent rid a)
    then have p: "on_receive_proposal vt env a rid ?st = Inr st'" using on by simp
    have op: "proposal_opinion a st = Inr (safe_to_vote st a)"
      using proposal_opinion_eq [OF C(2) _ rooted_addr [OF C(5)]] rooted_addr [OF ok] ProposalEvent by simp
    have "safe_to_vote ?st a = safe_to_vote st a" by (simp add: safe_to_vote_def)
    then show ?thesis
      using on_receive_proposal_voted [OF V' core _ _ p] just small op Some eq ProposalEvent
      by (cases "safe_to_vote st a") (simp_all add: core_vote_def)
  qed
qed

end

end
