(* ===== verification/Agreement.thy ===== *)
theory Agreement
  imports Config
begin

text \<open>
  The argument for agreement between replicas, over hashes: what the correct replicas know of the
  block tree, and the history of the votes they signed. A vote is recorded with the block the
  voter was locked on. If each vote of the history obeyed the voting rule, and each block extends
  the block its certificate is for, then any certified block that is at least as high as the
  bottom of a certified three-chain extends it.
\<close>

section \<open>Trees and histories\<close>

text \<open>A block as its hash, the hash of its parent, the hash its certificate is for, and its height.\<close>

type_synonym block_tree = "(Hash \<times> Hash \<times> Hash \<times> nat) set"

text \<open>A vote as the voter, the hash it signed and the hash of the block it was locked on.\<close>

type_synonym history = "(ReplicaID \<times> Hash \<times> Hash) list"

definition known_height :: "block_tree \<Rightarrow> Hash \<Rightarrow> nat \<Rightarrow> bool" where
  "known_height T x n \<longleftrightarrow> (x = zero_hash \<and> n = 0) \<or> (\<exists>p j. (x, p, j, n) \<in> T)"

inductive ancestor :: "block_tree \<Rightarrow> Hash \<Rightarrow> Hash \<Rightarrow> bool" for T where
  ancestor_refl: "ancestor T x x"
| ancestor_parent: "(x, p, j, n) \<in> T \<Longrightarrow> ancestor T p y \<Longrightarrow> ancestor T x y"

text \<open>
  No two blocks have the same hash, parents are one lower, and a block extends the block its
  certificate is for.
\<close>

definition tree_ok :: "block_tree \<Rightarrow> bool" where
  "tree_ok T \<longleftrightarrow>
     (\<forall>x p j n p' j' n'. (x, p, j, n) \<in> T \<longrightarrow> (x, p', j', n') \<in> T \<longrightarrow> p' = p \<and> j' = j) \<and>
     (\<forall>x p j n. (x, p, j, n) \<in> T \<longrightarrow>
        x \<noteq> zero_hash \<and> 0 < n \<and> known_height T p (n - 1) \<and> ancestor T p j)"

definition has_signed :: "history \<Rightarrow> ReplicaID \<Rightarrow> Hash \<Rightarrow> bool" where
  "has_signed H r x \<longleftrightarrow> (\<exists>l. (r, x, l) \<in> set H)"

definition certified :: "ReplicaConfig \<Rightarrow> ReplicaID set \<Rightarrow> history \<Rightarrow> Hash \<Rightarrow> bool" where
  "certified cfg honest H x \<longleftrightarrow>
     x = zero_hash \<or> (\<exists>Q. is_quorum cfg Q \<and> (\<forall>r \<in> Q \<inter> honest. has_signed H r x))"

text \<open>
  A vote after the history \<open>P\<close>: the lock and the block the proposal certifies were certified
  before, the proposal extends the lock or certifies a block above it, it is higher than every
  block the voter voted for before, and the lock is at least as high as the block two
  certificates behind each of those.
\<close>

definition vote_ok :: "ReplicaConfig \<Rightarrow> ReplicaID set \<Rightarrow> block_tree \<Rightarrow> history \<Rightarrow> ReplicaID \<Rightarrow> Hash \<Rightarrow> Hash \<Rightarrow> bool" where
  "vote_ok cfg honest T P r x l \<longleftrightarrow>
     (\<exists>p j n nj nl. (x, p, j, n) \<in> T \<and> known_height T j nj \<and> known_height T l nl \<and>
        certified cfg honest P j \<and> certified cfg honest P l \<and> (nl < nj \<or> ancestor T x l) \<and>
        (\<forall>x' l'. (r, x', l') \<in> set P \<longrightarrow>
           (\<exists>p' j' n'. (x', p', j', n') \<in> T \<and> n' < n \<and>
              (j' = zero_hash \<or> (\<exists>p2 j2 n2 k. (j', p2, j2, n2) \<in> T \<and> known_height T j2 k \<and> k \<le> nl)))))"

definition history_ok :: "ReplicaConfig \<Rightarrow> ReplicaID set \<Rightarrow> block_tree \<Rightarrow> history \<Rightarrow> bool" where
  "history_ok cfg honest T H \<longleftrightarrow>
     (\<forall>P r x l S. H = P @ (r, x, l) # S \<longrightarrow> r \<in> honest \<longrightarrow> vote_ok cfg honest T P r x l)"

section \<open>Growth\<close>

lemma known_height_mono: "known_height T x n \<Longrightarrow> T \<subseteq> T' \<Longrightarrow> known_height T' x n"
  by (auto simp: known_height_def)

lemma ancestor_mono: "ancestor T x y \<Longrightarrow> T \<subseteq> T' \<Longrightarrow> ancestor T' x y"
  by (induction rule: ancestor.induct) (auto intro: ancestor.intros)

lemma ancestor_trans: "ancestor T x y \<Longrightarrow> ancestor T y z \<Longrightarrow> ancestor T x z"
  by (induction rule: ancestor.induct) (auto intro: ancestor.intros)

lemma has_signed_mono: "has_signed P r x \<Longrightarrow> set P \<subseteq> set H \<Longrightarrow> has_signed H r x"
  by (auto simp: has_signed_def)

lemma certified_mono: "certified cfg honest P x \<Longrightarrow> set P \<subseteq> set H \<Longrightarrow> certified cfg honest H x"
  unfolding certified_def using has_signed_mono by blast

lemma vote_ok_mono:
  assumes "vote_ok cfg honest T P r x l" "T \<subseteq> T'"
  shows "vote_ok cfg honest T' P r x l"
proof -
  obtain p j n nj nl where v: "(x, p, j, n) \<in> T" "known_height T j nj" "known_height T l nl"
    "certified cfg honest P j" "certified cfg honest P l" "nl < nj \<or> ancestor T x l"
    and old: "\<And>x' l'. (r, x', l') \<in> set P \<Longrightarrow> (\<exists>p' j' n'. (x', p', j', n') \<in> T \<and> n' < n \<and>
      (j' = zero_hash \<or> (\<exists>p2 j2 n2 k. (j', p2, j2, n2) \<in> T \<and> known_height T j2 k \<and> k \<le> nl)))"
    using assms(1) unfolding vote_ok_def by blast
  have "\<exists>p' j' n'. (x', p', j', n') \<in> T' \<and> n' < n \<and>
      (j' = zero_hash \<or> (\<exists>p2 j2 n2 k. (j', p2, j2, n2) \<in> T' \<and> known_height T' j2 k \<and> k \<le> nl))"
    if "(r, x', l') \<in> set P" for x' l'
    using old [OF that] assms(2) known_height_mono [OF _ assms(2)] by blast
  then show ?thesis
    using v assms(2) known_height_mono [OF _ assms(2)] ancestor_mono [OF _ assms(2)]
    unfolding vote_ok_def by blast
qed

lemma history_ok_mono: "history_ok cfg honest T H \<Longrightarrow> T \<subseteq> T' \<Longrightarrow> history_ok cfg honest T' H"
  unfolding history_ok_def by (intro allI impI, rule vote_ok_mono) auto

lemma history_ok_Nil [simp]: "history_ok cfg honest T []"
  by (simp add: history_ok_def)

lemma history_ok_snoc:
  assumes "history_ok cfg honest T H" "vote_ok cfg honest T H r x l"
  shows "history_ok cfg honest T (H @ [(r, x, l)])"
  unfolding history_ok_def
proof (intro allI impI)
  fix P r' x' l' S
  assume "H @ [(r, x, l)] = P @ (r', x', l') # S" and r': "r' \<in> honest"
  then consider "S = []" "P = H" "(r', x', l') = (r, x, l)" | S' where "H = P @ (r', x', l') # S'"
    by (cases S rule: rev_cases) auto
  then show "vote_ok cfg honest T P r' x' l'"
    using assms r' by cases (auto simp: history_ok_def)
qed

section \<open>Heights\<close>

lemma tree_okD:
  assumes "tree_ok T" "(x, p, j, n) \<in> T"
  shows "(x, p', j', n') \<in> T \<Longrightarrow> p' = p \<and> j' = j" and "x \<noteq> zero_hash" and "0 < n"
    and "known_height T p (n - 1)" and "ancestor T p j"
  using assms unfolding tree_ok_def by blast+

lemma height_unique:
  assumes "tree_ok T"
  shows "known_height T x n \<Longrightarrow> known_height T x n' \<Longrightarrow> n' = n"
proof (induction n arbitrary: x n')
  case 0
  then have "x = zero_hash" using tree_okD(3) [OF assms] by (auto simp: known_height_def)
  then show ?case using "0.prems"(2) tree_okD(2) [OF assms] by (auto simp: known_height_def)
next
  case (Suc n)
  then obtain p j where t: "(x, p, j, Suc n) \<in> T" by (auto simp: known_height_def)
  then obtain p' j' where t': "(x, p', j', n') \<in> T"
    using Suc.prems(2) tree_okD(2) [OF assms t] by (auto simp: known_height_def)
  have "p' = p" using tree_okD(1) [OF assms t t'] by simp
  then have "n' - 1 = n"
    using Suc.IH [of p "n' - 1"] tree_okD(4) [OF assms t] tree_okD(4) [OF assms t'] by simp
  then show ?case using tree_okD(3) [OF assms t'] by simp
qed

lemma ancestor_height:
  "ancestor T x y \<Longrightarrow> tree_ok T \<Longrightarrow> known_height T x n \<Longrightarrow>
     \<exists>k. known_height T y k \<and> (k < n \<or> k = n \<and> x = y)"
proof (induction arbitrary: n rule: ancestor.induct)
  case (ancestor_refl x)
  then show ?case by blast
next
  case (ancestor_parent x p j m y)
  have "known_height T x m" using ancestor_parent.hyps(1) by (auto simp: known_height_def)
  then have "m = n" using height_unique ancestor_parent.prems by blast
  moreover obtain k where "known_height T y k" "k < m - 1 \<or> k = m - 1 \<and> p = y"
    using ancestor_parent.IH [OF ancestor_parent.prems(1)] tree_okD(4) [OF ancestor_parent.prems(1) ancestor_parent.hyps(1)]
    by blast
  moreover have "0 < m" using tree_okD(3) [OF ancestor_parent.prems(1) ancestor_parent.hyps(1)] .
  ultimately show ?case by (intro exI [of _ k]) auto
qed

lemma justify_lower:
  assumes "tree_ok T" "(x, p, j, n) \<in> T" "known_height T j k"
  shows "k < n" and "ancestor T x j"
proof -
  note D = tree_okD [OF assms(1,2)]
  obtain k' where "known_height T j k'" "k' < n - 1 \<or> k' = n - 1 \<and> p = j"
    using ancestor_height [OF D(5) assms(1) D(4)] by blast
  then show "k < n" using height_unique [OF assms(1) assms(3), of k'] D(3) by auto
  show "ancestor T x j" using ancestor_parent [OF assms(2) D(5)] .
qed

section \<open>Votes of one replica\<close>

lemma history_okD:
  assumes "history_ok cfg honest T H" "H = P @ (r, x, l) # S" "r \<in> honest"
  obtains p j n nj nl where "(x, p, j, n) \<in> T" "known_height T j nj" "known_height T l nl"
    "certified cfg honest P j" "certified cfg honest P l" "nl < nj \<or> ancestor T x l"
    "\<forall>x' l'. (r, x', l') \<in> set P \<longrightarrow> (\<exists>p' j' n'. (x', p', j', n') \<in> T \<and> n' < n \<and>
      (j' = zero_hash \<or> (\<exists>p2 j2 n2 k. (j', p2, j2, n2) \<in> T \<and> known_height T j2 k \<and> k \<le> nl)))"
proof -
  have "vote_ok cfg honest T P r x l" using assms unfolding history_ok_def by simp
  then show thesis
    unfolding vote_ok_def by (elim exE conjE, intro that) blast+
qed

lemma tree_height: "(x, p, j, n) \<in> T \<Longrightarrow> known_height T x n"
  by (auto simp: known_height_def)

lemma vote_before:
  assumes T: "tree_ok T" and H: "history_ok cfg honest T H" "H = P @ (r, y, l) # S" and r: "r \<in> honest"
    and x: "(r, x, lx) \<in> set H" and less: "known_height T x nx" "known_height T y ny" "nx < ny"
  shows "(r, x, lx) \<in> set P"
proof (rule ccontr)
  assume "(r, x, lx) \<notin> set P"
  moreover have "x \<noteq> y" using height_unique [OF T less(1), of ny] less by auto
  ultimately have "(r, x, lx) \<in> set S" using x H(2) by auto
  then obtain S1 S2 where "S = S1 @ (r, x, lx) # S2" by (meson split_list)
  then have "H = (P @ (r, y, l) # S1) @ (r, x, lx) # S2" using H(2) by simp
  then obtain p j n where "(x, p, j, n) \<in> T" and "\<exists>p' j' n'. (y, p', j', n') \<in> T \<and> n' < n"
    by (rule history_okD [OF H(1) _ r]) (metis in_set_conv_decomp)
  then obtain p' j' n' where "(y, p', j', n') \<in> T" "n' < n" by blast
  with \<open>(x, p, j, n) \<in> T\<close> have "known_height T x n" "known_height T y n'" "n' < n" using tree_height by blast+
  then show False
    using height_unique [OF T less(1), of n] height_unique [OF T less(2), of n'] less(3) by simp
qed

lemma vote_known:
  assumes "history_ok cfg honest T H" "has_signed H r x" "r \<in> honest"
  obtains p j n where "(x, p, j, n) \<in> T" "certified cfg honest H j"
proof -
  obtain P l S where H: "H = P @ (r, x, l) # S"
    using assms(2) unfolding has_signed_def by (meson split_list)
  obtain p j n where "(x, p, j, n) \<in> T" "certified cfg honest P j"
    by (rule history_okD [OF assms(1) H assms(3)])
  moreover have "set P \<subseteq> set H" using H by auto
  ultimately show thesis using that certified_mono by blast
qed

lemma one_vote_per_height:
  assumes T: "tree_ok T" and H: "history_ok cfg honest T H" and r: "r \<in> honest"
    and s: "has_signed H r x" "has_signed H r y" and n: "known_height T x n" "known_height T y n"
  shows "x = y"
proof (rule ccontr)
  have no: False if split: "H = P @ (r, u, l) # S" and old: "(r, v, l') \<in> set P"
      and hu: "known_height T u n" and hv: "known_height T v n"
    for P u l S v l'
  proof -
    obtain p j m where "(u, p, j, m) \<in> T" "\<exists>p' j' n'. (v, p', j', n') \<in> T \<and> n' < m"
      by (rule history_okD [OF H split r]) (use old in blast)
    then obtain p' j' n' where "(v, p', j', n') \<in> T" "n' < m" by blast
    with \<open>(u, p, j, m) \<in> T\<close> have "known_height T u m" "known_height T v n'" "n' < m" using tree_height by blast+
    then show False
      using height_unique [OF T hu, of m] height_unique [OF T hv, of n'] by simp
  qed
  assume "x \<noteq> y"
  obtain P l S where P: "H = P @ (r, x, l) # S" using s(1) unfolding has_signed_def by (meson split_list)
  obtain l' where "(r, y, l') \<in> set H" using s(2) by (auto simp: has_signed_def)
  then consider "(r, y, l') \<in> set P" | "(r, y, l') \<in> set S" using P \<open>x \<noteq> y\<close> by auto
  then show False
  proof cases
    case 1
    then show False using no [OF P _ n(1,2)] by blast
  next
    case 2
    then obtain S1 S2 where "S = S1 @ (r, y, l') # S2" by (meson split_list)
    then have "H = (P @ (r, x, l) # S1) @ (r, y, l') # S2" using P by simp
    from no [OF this _ n(2,1)] show False by auto
  qed
qed

section \<open>Certified blocks\<close>

text \<open>Any two quorums share a correct replica.\<close>

definition quorums_meet :: "ReplicaConfig \<Rightarrow> ReplicaID set \<Rightarrow> bool" where
  "quorums_meet cfg honest \<longleftrightarrow>
     (\<forall>Q Q'. is_quorum cfg Q \<longrightarrow> is_quorum cfg Q' \<longrightarrow> (\<exists>r \<in> Q \<inter> Q'. r \<in> honest))"

lemma quorums_meet_few_faulty:
  assumes "config_ready cfg" "3 * card (replica_ids cfg - honest) < nreplicas cfg"
  shows "quorums_meet cfg honest"
  unfolding quorums_meet_def
proof (intro allI impI)
  fix Q Q' assume q: "is_quorum cfg Q" "is_quorum cfg Q'"
  show "\<exists>r \<in> Q \<inter> Q'. r \<in> honest"
  proof (rule ccontr)
    assume "\<not> (\<exists>r \<in> Q \<inter> Q'. r \<in> honest)"
    then have "Q \<inter> Q' \<subseteq> replica_ids cfg - honest" using q by (auto simp: is_quorum_def)
    then have "card (Q \<inter> Q') \<le> card (replica_ids cfg - honest)" by (simp add: card_mono)
    then show False using quorum_overlap [OF assms(1) q] assms(2) by linarith
  qed
qed

lemma certified_common:
  assumes "quorums_meet cfg honest" "certified cfg honest H x" "certified cfg honest H' y"
    "x \<noteq> zero_hash" "y \<noteq> zero_hash"
  obtains r where "r \<in> honest" "has_signed H r x" "has_signed H' r y"
  using assms unfolding certified_def quorums_meet_def by blast

lemma certified_known:
  assumes "quorums_meet cfg honest" "history_ok cfg honest T H" "certified cfg honest H x" "x \<noteq> zero_hash"
  obtains p j n where "(x, p, j, n) \<in> T" "certified cfg honest H j"
proof -
  obtain r where "r \<in> honest" "has_signed H r x" by (rule certified_common [OF assms(1,3,3,4,4)])
  then show thesis using that vote_known [OF assms(2)] by blast
qed

lemma certified_same_height:
  assumes "quorums_meet cfg honest" "tree_ok T" "history_ok cfg honest T H"
    "certified cfg honest H x" "certified cfg honest H y" "known_height T x n" "known_height T y n"
  shows "x = y"
proof (cases "x = zero_hash \<or> y = zero_hash")
  case True
  have "z = zero_hash" if "known_height T z 0" for z
    using that tree_okD(3) [OF assms(2)] by (auto simp: known_height_def)
  moreover have "known_height T zero_hash 0" by (simp add: known_height_def)
  ultimately show ?thesis using True height_unique [OF assms(2)] assms(6,7) by metis
next
  case False
  then obtain r where "r \<in> honest" "has_signed H r x" "has_signed H r y"
    using certified_common [OF assms(1,4,5)] by blast
  then show ?thesis using one_vote_per_height [OF assms(2,3)] assms(6,7) by blast
qed

text \<open>The vote that completed the first quorum for a block.\<close>

lemma certified_first:
  assumes "certified cfg honest H x" "\<not> certified cfg honest [] x"
  obtains P v S where "H = P @ v # S" "\<not> certified cfg honest P x" "certified cfg honest (P @ [v]) x"
  using assms(1)
proof (induction H arbitrary: thesis rule: rev_induct)
  case Nil
  then show ?case using assms(2) by simp
next
  case (snoc v H)
  show ?case
  proof (cases "certified cfg honest H x")
    case True
    from snoc.IH [OF _ True] show ?thesis using snoc.prems(1) by (metis append.assoc append_Cons)
  next
    case False
    then show ?thesis using snoc.prems(1) [of H v "[]"] snoc.prems(2) by simp
  qed
qed

section \<open>The three-chain rule\<close>

text \<open>
  A correct replica voted for the top of the three-chain and later, as one of the first quorum,
  for a block above it. Its lock was at least as high as the bottom of the chain, so the block it
  voted for extends a block that was certified earlier and is at least as high as the bottom.
\<close>

lemma later_vote:
  assumes meet: "quorums_meet cfg honest" and T: "tree_ok T" and H: "history_ok cfg honest T H"
    and chain: "(b2, b1, b1, n2) \<in> T" "(b1, b, b, n1) \<in> T" and b: "known_height T b k"
    and top: "certified cfg honest H b2"
    and w: "certified cfg honest H w" "known_height T w n" "n2 < n"
  obtains u m where "ancestor T w u" "certified cfg honest H u" "known_height T u m" "m < n" "k \<le> m"
proof -
  have nz: "w \<noteq> zero_hash" "b2 \<noteq> zero_hash" "b1 \<noteq> zero_hash"
    using height_unique [OF T w(2), of 0] w(3) tree_okD(2) [OF T chain(1)] tree_okD(2) [OF T chain(2)]
    by (auto simp: known_height_def)
  have "\<not> certified cfg honest [] w"
    using certified_common [OF meet _ _ nz(1) nz(1), of "[]" "[]"] by (auto simp: has_signed_def)
  then obtain P v S where P: "H = P @ v # S" "\<not> certified cfg honest P w" "certified cfg honest (P @ [v]) w"
    using certified_first [OF w(1)] by blast
  obtain r where r: "r \<in> honest" "has_signed (P @ [v]) r w" "has_signed H r b2"
    by (rule certified_common [OF meet P(3) top nz(1,2)])
  obtain l P1 S1 where "P @ [v] = P1 @ (r, w, l) # S1" using r(2) unfolding has_signed_def by (meson split_list)
  then have H1: "H = P1 @ (r, w, l) # (S1 @ S)" and sub: "set P1 \<subseteq> set P"
    using P(1) by (auto simp: append_eq_append_conv2 append_eq_Cons_conv Cons_eq_append_conv)
  obtain l2 where "(r, b2, l2) \<in> set H" using r(3) by (auto simp: has_signed_def)
  then have before: "(r, b2, l2) \<in> set P1"
    using vote_before [OF T H H1 r(1) _ tree_height [OF chain(1)] w(2,3)] by blast
  obtain p j m nj nl where vote: "(w, p, j, m) \<in> T" "known_height T j nj" "known_height T l nl"
    "certified cfg honest P1 j" "certified cfg honest P1 l" "nl < nj \<or> ancestor T w l"
    and old: "\<forall>x' l'. (r, x', l') \<in> set P1 \<longrightarrow> (\<exists>p' j' n'. (x', p', j', n') \<in> T \<and> n' < m \<and>
      (j' = zero_hash \<or> (\<exists>p2 j2 n2 k. (j', p2, j2, n2) \<in> T \<and> known_height T j2 k \<and> k \<le> nl)))"
    by (rule history_okD [OF H H1 r(1)])
  from old [rule_format, OF before] obtain p2 j2 n2' k' where "(b1, p2, j2, n2') \<in> T" "known_height T j2 k'" "k' \<le> nl"
    using tree_okD(1) [OF T chain(1)] nz(3) by blast
  then have kl: "k \<le> nl" using tree_okD(1) [OF T chain(2)] height_unique [OF T b] by blast
  have mono: "set P1 \<subseteq> set H" using H1 by auto
  show thesis
  proof (cases "nl < nj")
    case True
    have "m = n" using height_unique [OF T w(2) tree_height [OF vote(1)]] .
    then show thesis
      using that [of j nj] justify_lower [OF T vote(1,2)] certified_mono [OF vote(4) mono] vote(2) True kl by simp
  next
    case False
    then have anc: "ancestor T w l" using vote(6) by blast
    have "w \<noteq> l" using P(2) vote(5) certified_mono [OF _ sub] by blast
    then have "nl < n" using ancestor_height [OF anc T w(2)] height_unique [OF T vote(3)] by blast
    then show thesis using that [OF anc certified_mono [OF vote(5) mono] vote(3)] kl by blast
  qed
qed

lemma three_chain_certified:
  assumes "quorums_meet cfg honest" "tree_ok T" "history_ok cfg honest T H"
    "(b2, b1, b1, n2) \<in> T" "(b1, b, b, n1) \<in> T" "certified cfg honest H b2"
  shows "certified cfg honest H b1" and "certified cfg honest H b"
proof -
  have nz: "b2 \<noteq> zero_hash" "b1 \<noteq> zero_hash"
    using tree_okD(2) [OF assms(2,4)] tree_okD(2) [OF assms(2,5)] by auto
  show b1: "certified cfg honest H b1"
    using certified_known [OF assms(1,3,6) nz(1)] tree_okD(1) [OF assms(2,4)] by metis
  show "certified cfg honest H b"
    using certified_known [OF assms(1,3) b1 nz(2)] tree_okD(1) [OF assms(2,5)] by metis
qed

lemma three_chain_safe:
  assumes meet: "quorums_meet cfg honest" and T: "tree_ok T" and H: "history_ok cfg honest T H"
    and chain: "(b2, b1, b1, n2) \<in> T" "(b1, b, b, n1) \<in> T" and b: "known_height T b k"
    and top: "certified cfg honest H b2"
    and w: "certified cfg honest H w" "known_height T w n" "k \<le> n"
  shows "ancestor T w b"
  using w
proof (induction n arbitrary: w rule: less_induct)
  case (less n)
  note c = three_chain_certified [OF meet T H chain top]
  have n: "n1 = Suc k" "n2 = Suc n1"
    using height_unique [OF T b tree_okD(4) [OF T chain(2)]] tree_okD(3) [OF T chain(2)]
      height_unique [OF T tree_height [OF chain(2)] tree_okD(4) [OF T chain(1)]] tree_okD(3) [OF T chain(1)]
    by auto
  have up: "ancestor T b1 b" "ancestor T b2 b"
    using chain by (blast intro: ancestor.intros)+
  consider "n = k" | "n = n1" | "n = n2" | "n2 < n" using less.prems(3) n by linarith
  then show ?case
  proof cases
    case 1
    then show ?thesis
      using certified_same_height [OF meet T H less.prems(1) c(2) less.prems(2)] b by (simp add: ancestor_refl)
  next
    case 2
    then show ?thesis
      using certified_same_height [OF meet T H less.prems(1) c(1) less.prems(2)] tree_height [OF chain(2)] up by simp
  next
    case 3
    then show ?thesis
      using certified_same_height [OF meet T H less.prems(1) top less.prems(2)] tree_height [OF chain(1)] up by simp
  next
    case 4
    obtain u m where "ancestor T w u" "certified cfg honest H u" "known_height T u m" "m < n" "k \<le> m"
      by (rule later_vote [OF meet T H chain b top less.prems(1,2) 4])
    then show ?thesis using less.IH ancestor_trans by blast
  qed
qed

section \<open>Committed blocks\<close>

text \<open>A committed block is the bottom of a three-chain with a certified top, or the genesis block.\<close>

definition committed :: "ReplicaConfig \<Rightarrow> ReplicaID set \<Rightarrow> block_tree \<Rightarrow> history \<Rightarrow> Hash \<Rightarrow> bool" where
  "committed cfg honest T H b \<longleftrightarrow>
     b = zero_hash \<or>
     (\<exists>b2 b1 n2 n1. (b2, b1, b1, n2) \<in> T \<and> (b1, b, b, n1) \<in> T \<and> certified cfg honest H b2)"

lemma ancestor_genesis: "tree_ok T \<Longrightarrow> known_height T x n \<Longrightarrow> ancestor T x zero_hash"
proof (induction n arbitrary: x)
  case 0
  then have "x = zero_hash" using tree_okD(3) by (fastforce simp: known_height_def)
  then show ?case by (simp add: ancestor_refl)
next
  case (Suc n)
  then obtain p j where t: "(x, p, j, Suc n) \<in> T" by (auto simp: known_height_def)
  then have "known_height T p n" using tree_okD(4) [OF Suc.prems(1) t] by simp
  then show ?case using ancestor_parent [OF t] Suc.IH [OF Suc.prems(1)] by blast
qed

lemma ancestors_comparable:
  "ancestor T x y \<Longrightarrow> tree_ok T \<Longrightarrow> ancestor T x z \<Longrightarrow> ancestor T y z \<or> ancestor T z y"
proof (induction rule: ancestor.induct)
  case (ancestor_refl x)
  then show ?case by blast
next
  case (ancestor_parent x p j n y)
  from ancestor_parent.prems(2) show ?case
  proof cases
    case ancestor_refl
    then show ?thesis using ancestor.ancestor_parent [OF ancestor_parent.hyps(1,2)] by blast
  next
    case (ancestor_parent p' j' n')
    then have "p' = p" using tree_okD(1) [OF \<open>tree_ok T\<close> \<open>(x, p, j, n) \<in> T\<close>] by blast
    then show ?thesis using ancestor_parent.IH [OF \<open>tree_ok T\<close>] ancestor_parent(2) by blast
  qed
qed

lemma committed_comparable:
  assumes meet: "quorums_meet cfg honest" and T: "tree_ok T" and H: "history_ok cfg honest T H"
    and b: "committed cfg honest T H b" "known_height T b k" and c: "committed cfg honest T H c" "known_height T c m"
  shows "ancestor T b c \<or> ancestor T c b"
proof -
  have cert: "certified cfg honest H x" if "committed cfg honest T H x" for x
  proof (cases "x = zero_hash")
    case False
    then show ?thesis using that three_chain_certified(2) [OF meet T H] unfolding committed_def by blast
  qed (simp add: certified_def)
  have up: "ancestor T y x" if x: "committed cfg honest T H x" "known_height T x n" and y: "committed cfg honest T H y"
    "known_height T y n'" and "n \<le> n'" for x y n n'
  proof (cases "x = zero_hash")
    case True
    then show ?thesis using ancestor_genesis [OF T y(2)] by simp
  next
    case False
    then obtain b2 b1 n2 n1 where "(b2, b1, b1, n2) \<in> T" "(b1, x, x, n1) \<in> T" "certified cfg honest H b2"
      using x(1) unfolding committed_def by blast
    from three_chain_safe [OF meet T H this(1,2) x(2) this(3) cert [OF y(1)] y(2) \<open>n \<le> n'\<close>] show ?thesis .
  qed
  show ?thesis using up [OF b c] up [OF c b] by linarith
qed

end
