(* ===== verification/System.thy ===== *)
theory System
  imports EvidenceSteps Agreement
begin

text \<open>
  Several replicas. The correct ones run the code; the others send what they like, except that
  they cannot forge the signature of a correct replica. The state is the state of each correct
  replica, the set of those that have not been stopped by an exception, and the history of the
  votes they signed. The history is not part of any replica: it records what the network can show.
\<close>

section \<open>The system\<close>

record 's system =
  nodes :: "ReplicaID \<Rightarrow> 's"
  running :: "ReplicaID set"
  votes :: history

text \<open>A signature of a correct replica that checks was made by it.\<close>

definition authentic ::
  "('bv, 'db, 'tx) env \<Rightarrow> ReplicaConfig \<Rightarrow> ReplicaID set \<Rightarrow> history \<Rightarrow> ReplicaID \<Rightarrow> Hash \<Rightarrow> Signature \<Rightarrow> bool" where
  "authentic env cfg honest H r x s \<longleftrightarrow>
     (r \<in> honest \<longrightarrow> (\<forall>pk. get_publickey cfg r = Inr pk \<longrightarrow> check_sig env s x pk \<longrightarrow> has_signed H r x))"

definition wire_authentic ::
  "('bv, 'db, 'tx) env \<Rightarrow> ReplicaConfig \<Rightarrow> ReplicaID set \<Rightarrow> history \<Rightarrow> HotstuffBlockWire \<Rightarrow> bool" where
  "wire_authentic env cfg honest H w \<longleftrightarrow>
     (\<forall>(r, s) \<in> set (sigs (parse_QuorumCertificate env (header_qc (header w)))).
        authentic env cfg honest H r (justify (header_qc (header w))) s)"

definition message_authentic ::
  "('bv, 'db, 'tx) env \<Rightarrow> ReplicaConfig \<Rightarrow> ReplicaID set \<Rightarrow> history \<Rightarrow> 'l replica_label \<Rightarrow> bool" where
  "message_authentic env cfg honest H l \<longleftrightarrow>
     (case l of
        HandlerVote v \<Rightarrow>
          authentic env cfg honest H (msg_voter v) (cert_hash (msg_vote v)) (cert_sig (msg_vote v))
      | HandlerPropose p \<Rightarrow> wire_authentic env cfg honest H (msg_proposal p)
      | FetchEnd rid (Some ws) \<Rightarrow> (\<forall>w \<in> set ws. wire_authentic env cfg honest H w)
      | _ \<Rightarrow> True)"

text \<open>
  The record of the hashes a replica signs in a step, with the lock it had. The hashes are those of
  \<open>step_votes\<close>: the votes the step adds to the queues of the replica.
\<close>

definition record_votes :: "ReplicaID \<Rightarrow> ('db, 'm) HotstuffAppBase_scheme \<Rightarrow> Hash list \<Rightarrow> history" where
  "record_votes r st xs = map (\<lambda>x. (r, x, get_hash (heap st ! b_lock st))) xs"

text \<open>
  A step of a correct replica, or the exception that ends it: the handler of a proposal may have
  signed its vote before it fails. A stopped replica does not come back. The parameter \<open>limits\<close>
  restricts the runs to those in which the blocks of every correct replica satisfy it after every
  step; the code has no such check, so a theorem states the limits it needs.
\<close>

inductive system_reach ::
  "('tx, ('db, 'm) HotstuffAppBase_scheme) core_virtuals \<Rightarrow>
   (nat \<Rightarrow> bool \<Rightarrow> uint64 \<Rightarrow> ('db, 'm) HotstuffAppBase_scheme \<Rightarrow>
      (bytes \<times> ('db, 'm) HotstuffAppBase_scheme) result) \<Rightarrow>
   ('l \<Rightarrow> ('db, 'm) HotstuffAppBase_scheme \<Rightarrow> ('db, 'm) HotstuffAppBase_scheme result) \<Rightarrow>
   ('bv, 'db, 'tx) env \<Rightarrow> (block_heap \<Rightarrow> bool) \<Rightarrow> ReplicaConfig \<Rightarrow> ReplicaID set \<Rightarrow>
   (ReplicaID \<Rightarrow> ('db, 'm) HotstuffAppBase_scheme) \<Rightarrow> ('db, 'm) HotstuffAppBase_scheme system \<Rightarrow> bool"
  for vt gnb loc env limits cfg honest init where
  system_start: "system_reach vt gnb loc env limits cfg honest init \<lparr>nodes = init, running = honest, votes = []\<rparr>"
| system_step: "system_reach vt gnb loc env limits cfg honest init s \<Longrightarrow> r \<in> running s \<Longrightarrow>
    message_authentic env cfg honest (votes s) l \<Longrightarrow>
    replica_step vt gnb loc env l (nodes s r) = Inr st' \<Longrightarrow> limits (heap st') \<Longrightarrow>
    set xs = step_votes vt env l (nodes s r) (Inr st') \<Longrightarrow> distinct xs \<Longrightarrow>
    system_reach vt gnb loc env limits cfg honest init
      (s\<lparr>nodes := (nodes s)(r := st'), votes := votes s @ record_votes r (nodes s r) xs\<rparr>)"
| system_crash: "system_reach vt gnb loc env limits cfg honest init s \<Longrightarrow> r \<in> running s \<Longrightarrow>
    message_authentic env cfg honest (votes s) l \<Longrightarrow>
    replica_step vt gnb loc env l (nodes s r) = Inl e \<Longrightarrow>
    set xs = step_votes vt env l (nodes s r) (Inl e) \<Longrightarrow> distinct xs \<Longrightarrow>
    system_reach vt gnb loc env limits cfg honest init
      (s\<lparr>running := running s - {r}, votes := votes s @ record_votes r (nodes s r) xs\<rparr>)"

text \<open>What agreement needs of the blocks: heights that fit \<open>vheight\<close>, and blocks that extend the block they certify.\<close>

definition safe_limits :: "block_heap \<Rightarrow> bool" where
  "safe_limits h \<longleftrightarrow> heights_small h \<and> justified h"

text \<open>The vote the rule asks for, as an entry of the history.\<close>

definition rule_votes :: "ReplicaID \<Rightarrow> 'l replica_label \<Rightarrow> ('db, 'm) HotstuffAppBase_scheme \<Rightarrow> history" where
  "rule_votes r l st = (case step_vote l st of None \<Rightarrow> [] | Some (x, lk) \<Rightarrow> [(r, x, lk)])"

lemma step_vote_lock: "step_vote l st = Some (x, lk) \<Longrightarrow> lk = get_hash (heap st ! b_lock st)"
  by (cases "l = CoreThread"; cases l) (auto simp: step_vote_def core_vote_def split: option.splits Event.splits if_splits)

lemma record_votes_rule:
  assumes "set xs \<subseteq> fst ` set_option (step_vote l st)" "distinct xs"
  shows "record_votes r st xs = [] \<or> record_votes r st xs = rule_votes r l st"
proof (cases "step_vote l st")
  case (Some v)
  obtain x lk where v: "v = (x, lk)" by (cases v)
  have "set xs \<subseteq> {x}" using assms(1) Some v by simp
  then have "xs = [] \<or> xs = [x]"
    using assms(2) by (cases xs) (auto simp: subset_singleton_iff)
  then show ?thesis using step_vote_lock [of l st x lk] Some v by (auto simp: record_votes_def rule_votes_def)
qed (use assms in \<open>simp add: record_votes_def\<close>)

lemma record_votes_eq:
  assumes "set xs = fst ` set_option (step_vote l st)" "distinct xs"
  shows "record_votes r st xs = rule_votes r l st"
proof (cases "step_vote l st")
  case (Some v)
  then have "xs \<noteq> []" using assms(1) by (cases xs) simp_all
  then have "record_votes r st xs \<noteq> []" by (simp add: record_votes_def)
  moreover have "set xs \<subseteq> fst ` set_option (step_vote l st)" using assms(1) by simp
  ultimately show ?thesis using record_votes_rule [OF _ assms(2), of l st r] by simp
qed (use assms(1) in \<open>simp add: record_votes_def rule_votes_def\<close>)

context app_contract
begin

text \<open>The votes of a step are what the rule asks for.\<close>

lemma system_step_rule:
  assumes "system_reach vt gnb loc env limits cfg honest init s" "r \<in> running s"
    "message_authentic env cfg honest (votes s) l" "replica_step vt gnb loc env l (nodes s r) = Inr st'"
    "limits (heap st')"
  shows "system_reach vt gnb loc env limits cfg honest init
    (s\<lparr>nodes := (nodes s)(r := st'), votes := votes s @ rule_votes r l (nodes s r)\<rparr>)"
proof -
  obtain xs where xs: "set xs = fst ` set_option (step_vote l (nodes s r))" "distinct xs"
    using finite_distinct_list [of "fst ` set_option (step_vote l (nodes s r))"] by auto
  have "set xs = step_votes vt env l (nodes s r) (Inr st')" unfolding xs(1) step_votes_eq [OF assms(4)] ..
  from system_step [OF assms this xs(2)] show ?thesis unfolding record_votes_eq [OF xs] .
qed

end

text \<open>Running a script: a list of replicas and what they do next.\<close>

fun system_run ::
  "('tx, ('db, 'm) HotstuffAppBase_scheme) core_virtuals \<Rightarrow>
   (nat \<Rightarrow> bool \<Rightarrow> uint64 \<Rightarrow> ('db, 'm) HotstuffAppBase_scheme \<Rightarrow>
      (bytes \<times> ('db, 'm) HotstuffAppBase_scheme) result) \<Rightarrow>
   ('l \<Rightarrow> ('db, 'm) HotstuffAppBase_scheme \<Rightarrow> ('db, 'm) HotstuffAppBase_scheme result) \<Rightarrow>
   ('bv, 'db, 'tx) env \<Rightarrow> (block_heap \<Rightarrow> bool) \<Rightarrow> ReplicaConfig \<Rightarrow> ReplicaID set \<Rightarrow>
   (ReplicaID \<times> 'l replica_label) list \<Rightarrow> ('db, 'm) HotstuffAppBase_scheme system \<Rightarrow>
   ('db, 'm) HotstuffAppBase_scheme system option" where
  "system_run vt gnb loc env limits cfg honest [] s = Some s"
| "system_run vt gnb loc env limits cfg honest (rl # ls) s =
     (case replica_step vt gnb loc env (snd rl) (nodes s (fst rl)) of
        Inl e \<Rightarrow> None
      | Inr st' \<Rightarrow>
          if fst rl \<in> running s \<and> message_authentic env cfg honest (votes s) (snd rl) \<and> limits (heap st')
          then system_run vt gnb loc env limits cfg honest ls (s\<lparr>nodes := (nodes s)(fst rl := st'),
            votes := votes s @ rule_votes (fst rl) (snd rl) (nodes s (fst rl))\<rparr>)
          else None)"

context app_contract
begin

lemma system_run_reach:
  "system_run vt gnb loc env limits cfg honest ls s = Some s' \<Longrightarrow> system_reach vt gnb loc env limits cfg honest init s \<Longrightarrow>
     system_reach vt gnb loc env limits cfg honest init s'"
proof (induction ls arbitrary: s)
  case (Cons rl ls)
  obtain r l where rl: "rl = (r, l)" by (cases rl)
  obtain st' where step: "replica_step vt gnb loc env l (nodes s r) = Inr st'" and r: "r \<in> running s"
    and auth: "message_authentic env cfg honest (votes s) l" and lim: "limits (heap st')"
    and rest: "system_run vt gnb loc env limits cfg honest ls
      (s\<lparr>nodes := (nodes s)(r := st'), votes := votes s @ rule_votes r l (nodes s r)\<rparr>) = Some s'"
    using Cons.prems(1) rl by (auto split: sum.splits if_splits)
  from Cons.IH [OF rest system_step_rule [OF Cons.prems(2) r auth step lim]] show ?case .
qed simp

end

section \<open>What a heap knows of the tree\<close>

definition known :: "block_heap \<Rightarrow> block_tree" where
  "known h = {(get_hash (h ! a), get_parent_hash (h ! a), obj_hash qc, unat (block_height (h ! a))) | a qc.
     a < length h \<and> parent_block_ptr (h ! a) \<noteq> None \<and> parsed_qc (h ! a) = Some qc}"

lemma knownI:
  "a < length h \<Longrightarrow> parent_block_ptr (h ! a) \<noteq> None \<Longrightarrow> parsed_qc (h ! a) = Some qc \<Longrightarrow>
     (get_hash (h ! a), get_parent_hash (h ! a), obj_hash qc, unat (block_height (h ! a))) \<in> known h"
  by (auto simp: known_def)

lemma known_le:
  assumes "heap_le h h'"
  shows "known h \<subseteq> known h'"
proof
  fix t assume "t \<in> known h"
  then obtain a qc where a: "a < length h" "parent_block_ptr (h ! a) \<noteq> None" "parsed_qc (h ! a) = Some qc"
    and t: "t = (get_hash (h ! a), get_parent_hash (h ! a), obj_hash qc, unat (block_height (h ! a)))"
    by (auto simp: known_def)
  show "t \<in> known h'"
    using knownI [of a h' qc] heap_leD [OF assms a(1)] get_parent_hash_le [OF assms a(1)] a t by simp
qed

text \<open>The heaps of the correct replicas, where only the genesis block has no certificate.\<close>

definition genesis_only :: "block_heap \<Rightarrow> bool" where
  "genesis_only h \<longleftrightarrow>
     (\<forall>a < length h. (parsed_qc (h ! a) = None \<longrightarrow> get_hash (h ! a) = zero_hash) \<and>
        (parent_block_ptr (h ! a) \<noteq> None \<longrightarrow> parsed_qc (h ! a) \<noteq> None))"

lemma evidence_genesis_only: "evidence cert sig st \<Longrightarrow> genesis_only (heap st)"
  using evidenceD(1,2) [of cert sig st] unfolding genesis_only_def good_block_def by force

lemma rooted_known_height:
  assumes "heap_wf h" "genesis_only h" "rooted h a"
  shows "known_height (known h) (get_hash (h ! a)) (unat (block_height (h ! a)))"
proof (cases "parent_block_ptr (h ! a) = None")
  case True
  then show ?thesis
    using assms heap_wfD(2) [OF assms(1) rooted_addr [OF assms(3)]]
    by (simp add: known_height_def genesis_only_def rooted_def)
next
  case False
  then obtain qc where "parsed_qc (h ! a) = Some qc"
    using assms(2) rooted_addr [OF assms(3)] by (auto simp: genesis_only_def)
  then show ?thesis
    using knownI [OF rooted_addr [OF assms(3)] False] unfolding known_height_def by blast
qed

lemma extends_ancestor:
  "extends h a b \<Longrightarrow> heap_wf h \<Longrightarrow> genesis_only h \<Longrightarrow> ancestor (known h) (get_hash (h ! a)) (get_hash (h ! b))"
proof (induction rule: extends.induct)
  case (extends_refl a)
  then show ?case by (simp add: ancestor_refl)
next
  case (extends_parent a p b)
  then obtain qc where "parsed_qc (h ! a) = Some qc" by (auto simp: genesis_only_def)
  then have "(get_hash (h ! a), get_hash (h ! p), obj_hash qc, unat (block_height (h ! a))) \<in> known h"
    using knownI [OF extends_parent.hyps(1)] extends_parent.hyps(2) heap_wfD(4) [OF extends_parent.prems(1) extends_parent.hyps(1,2)]
    by simp
  then show ?case using extends_parent.IH [OF extends_parent.prems] by (rule ancestor_parent)
qed

text \<open>The certificate of a linked block is for the block its pointer leads to.\<close>

lemma linked_known:
  assumes "heap_wf h" "genesis_only h" "a < length h" "justify_block_ptr (h ! a) = Some j"
  shows "(get_hash (h ! a), get_parent_hash (h ! a), get_hash (h ! j), unat (block_height (h ! a))) \<in> known h"
proof -
  have p: "parent_block_ptr (h ! a) \<noteq> None" using heap_wfD(1) [OF assms(1,3)] assms(4) by simp
  obtain qc where qc: "parsed_qc (h ! a) = Some qc" using assms(2,3) p by (auto simp: genesis_only_def)
  then have "obj_hash qc = get_hash (h ! j)"
    using heap_wfD(7) [OF assms(1,3,4)] by (simp add: get_justify_hash_def get_justify_qc_def)
  then show ?thesis using knownI [OF assms(3) p qc] by simp
qed

section \<open>Votes obey the rule\<close>

definition sig_of :: "ReplicaConfig \<Rightarrow> ReplicaID set \<Rightarrow> history \<Rightarrow> ReplicaID \<Rightarrow> Hash \<Rightarrow> bool" where
  "sig_of cfg honest H v x \<longleftrightarrow> v \<in> replica_ids cfg \<and> (v \<in> honest \<longrightarrow> has_signed H v x)"

text \<open>An earlier vote: its height and the block two certificates behind it.\<close>

lemma earlier_vote:
  assumes wf: "heap_wf h" and gen: "genesis_only h" and a: "a < length h" "parent_block_ptr (h ! a) \<noteq> None"
    and jj: "\<And>j jj. justify_block_ptr (h ! a) = Some j \<Longrightarrow> justify_block_ptr (h ! j) = Some jj \<Longrightarrow>
      block_height (h ! jj) \<le> L"
  shows "\<exists>p j. (get_hash (h ! a), p, j, unat (block_height (h ! a))) \<in> known h \<and>
    (j = zero_hash \<or> (\<exists>p2 j2 n2 k. (j, p2, j2, n2) \<in> known h \<and> known_height (known h) j2 k \<and> k \<le> unat L))"
proof -
  obtain j where j: "justify_block_ptr (h ! a) = Some j" using heap_wfD(1) [OF wf a(1)] a(2) by auto
  have rj: "rooted h j" using heap_wfD(9) [OF wf a(1) j] .
  have "get_hash (h ! j) = zero_hash \<or> (\<exists>p2 j2 n2 k. (get_hash (h ! j), p2, j2, n2) \<in> known h \<and>
    known_height (known h) j2 k \<and> k \<le> unat L)"
  proof (cases "justify_block_ptr (h ! j)")
    case None
    then have "parent_block_ptr (h ! j) = None" using heap_wfD(1) [OF wf rooted_addr [OF rj]] by simp
    then show ?thesis using rj gen by (auto simp: rooted_def genesis_only_def)
  next
    case (Some jj')
    have "known_height (known h) (get_hash (h ! jj')) (unat (block_height (h ! jj')))"
      by (rule rooted_known_height [OF wf gen heap_wfD(9) [OF wf rooted_addr [OF rj] Some]])
    moreover have "unat (block_height (h ! jj')) \<le> unat L" using jj [OF j Some] by (simp add: word_le_nat_alt)
    ultimately show ?thesis using linked_known [OF wf gen rooted_addr [OF rj] Some] by blast
  qed
  then show ?thesis using linked_known [OF wf gen a(1) j] by blast
qed

lemma core_vote_history:
  assumes inv: "replica_inv st" and ev: "evidence (certified cfg honest H) sig st"
    and V: "voted_ok {x. has_signed H r x} st" and v: "core_vote st = Some (x, l)"
  shows "vote_ok cfg honest (known (heap st)) H r x l"
proof -
  let ?h = "heap st" and ?T = "known (heap st)"
  note C = core_invD [OF replica_invD(1) [OF inv]]
  have gen: "genesis_only ?h" by (rule evidence_genesis_only [OF ev])
  obtain b where b: "b < length ?h" "parent_block_ptr (?h ! b) \<noteq> None" and x: "get_hash (?h ! b) = x"
    and l: "get_hash (?h ! b_lock st) = l" and safe: "safe_to_vote st b"
    by (rule core_vote_ok [OF inv v])
  obtain j where j: "justify_block_ptr (?h ! b) = Some j" using heap_wfD(1) [OF C(2) b(1)] b(2) by auto
  have rj: "rooted ?h j" using heap_wfD(9) [OF C(2) b(1) j] .
  let ?n = "unat (block_height (?h ! b))" and ?nl = "unat (block_height (?h ! b_lock st))"
    and ?nj = "unat (block_height (?h ! j))"
  have t: "(x, get_parent_hash (?h ! b), get_hash (?h ! j), ?n) \<in> ?T"
    using linked_known [OF C(2) gen b(1) j] x by simp
  have kj: "known_height ?T (get_hash (?h ! j)) ?nj" by (rule rooted_known_height [OF C(2) gen rj])
  have kl: "known_height ?T l ?nl" using rooted_known_height [OF C(2) gen C(5)] l by simp
  have cj: "certified cfg honest H (get_hash (?h ! j))" by (rule evidence_justify [OF ev C(2) b(1) j])
  have cl: "certified cfg honest H l" using evidenceD(7) [OF ev] l by simp
  have rule: "?nl < ?nj \<or> ancestor ?T x l"
    using safe j extends_ancestor [OF _ C(2) gen] x l unfolding safe_to_vote_def word_less_nat_alt by auto
  have old: "\<exists>p' j' n'. (x', p', j', n') \<in> ?T \<and> n' < ?n \<and>
      (j' = zero_hash \<or> (\<exists>p2 j2 n2 k. (j', p2, j2, n2) \<in> ?T \<and> known_height ?T j2 k \<and> k \<le> ?nl))"
    if "(r, x', l') \<in> set H" for x' l'
  proof -
    have "x' \<in> {x. has_signed H r x}" using that by (auto simp: has_signed_def)
    then obtain a where a: "a < length ?h" "parent_block_ptr (?h ! a) \<noteq> None" "get_hash (?h ! a) = x'"
      and ht: "block_height (?h ! a) \<le> ucast (vheight st)"
      and jj: "\<And>j jj. justify_block_ptr (?h ! a) = Some j \<Longrightarrow> justify_block_ptr (?h ! j) = Some jj \<Longrightarrow>
        block_height (?h ! jj) \<le> block_height (?h ! b_lock st)"
      using V unfolding voted_ok_def by blast
    have "block_height (?h ! a) < block_height (?h ! b)"
      using ht safe unfolding safe_to_vote_def by (meson order_le_less_trans)
    then have "unat (block_height (?h ! a)) < ?n" by (simp add: word_less_nat_alt)
    moreover have "\<exists>p' j'. (x', p', j', unat (block_height (?h ! a))) \<in> ?T \<and> (j' = zero_hash \<or>
        (\<exists>p2 j2 n2 k. (j', p2, j2, n2) \<in> ?T \<and> known_height ?T j2 k \<and> k \<le> ?nl))"
      using earlier_vote [OF C(2) gen a(1,2) jj] a(3) by simp
    ultimately show ?thesis by blast
  qed
  show ?thesis unfolding vote_ok_def using t kj kl cj cl rule old by blast
qed

section \<open>Messages\<close>

lemma quorum_closed_history: "quorum_closed cfg (certified cfg honest H) (sig_of cfg honest H)"
  unfolding quorum_closed_def certified_def is_quorum_def sig_of_def by blast

lemma wire_authentic_backed:
  assumes "wire_authentic env cfg honest H w" "set H \<subseteq> set H'"
  shows "wire_backed env cfg (certified cfg honest H') w"
  unfolding wire_backed_def
proof
  let ?qc = "parse_QuorumCertificate env (header_qc (header w))"
  assume v: "verify env cfg ?qc = Inr True"
  have "certified cfg honest H (obj_hash ?qc)"
  proof (cases "obj_hash ?qc = zero_hash")
    case False
    have "is_quorum cfg (valid_signers env cfg ?qc)" by (rule verify_quorum [OF v parse_wf False])
    moreover have "has_signed H r (obj_hash ?qc)" if "r \<in> valid_signers env cfg ?qc" "r \<in> honest" for r
      using that assms(1) by (fastforce simp: valid_signers_def wire_authentic_def authentic_def)
    ultimately show ?thesis unfolding certified_def by blast
  qed (simp add: certified_def)
  then show "certified cfg honest H' (justify (header_qc (header w)))"
    using certified_mono [OF _ assms(2)] by simp
qed

lemma message_authentic_backed:
  assumes "message_authentic env cfg honest H l" "set H \<subseteq> set H'"
  shows "message_backed env cfg (certified cfg honest H') (sig_of cfg honest H') l"
proof (cases l)
  case (HandlerVote v)
  have "v' \<in> replica_ids cfg" if "get_publickey cfg v' = Inr pk" for v' pk
    using get_publickey_returns_iff [of cfg v'] that by simp
  then show ?thesis
    using assms has_signed_mono [OF _ assms(2)] HandlerVote
    by (auto simp: message_authentic_def message_backed_def authentic_def sig_of_def)
next
  case (FetchEnd rid res)
  then show ?thesis
    using assms(1)
    by (cases res) (auto simp: message_authentic_def message_backed_def intro: wire_authentic_backed [OF _ assms(2)])
qed (use assms wire_authentic_backed [OF _ assms(2)] in \<open>auto simp: message_authentic_def message_backed_def\<close>)

end
