(* ===== verification/Safety.thy ===== *)
theory Safety
  imports System Demo_Chain
begin

text \<open>
  Agreement. In every state of the system the evidence of each correct replica is backed by the
  history of the votes, and the history obeys the voting rule; by the argument of \<open>Agreement\<close> the
  blocks that correct replicas commit are all on one chain.
\<close>

section \<open>The invariant of the system\<close>

definition node_ok ::
  "ReplicaConfig \<Rightarrow> ReplicaID set \<Rightarrow> history \<Rightarrow> ReplicaID \<Rightarrow> ('db, 'm) HotstuffAppBase_scheme \<Rightarrow> bool" where
  "node_ok cfg honest H r st \<longleftrightarrow>
     replica_inv st \<and> evidence (certified cfg honest H) (sig_of cfg honest H) st \<and>
     config st = cfg \<and> self_id st = r \<and> heights_small (heap st) \<and> justified (heap st)"

definition known_tree :: "ReplicaID set \<Rightarrow> ('db, 'm) HotstuffAppBase_scheme system \<Rightarrow> block_tree" where
  "known_tree honest s = (\<Union>r \<in> honest. known (heap (nodes s r)))"

definition system_inv ::
  "ReplicaConfig \<Rightarrow> ReplicaID set \<Rightarrow> ('db, 'm) HotstuffAppBase_scheme system \<Rightarrow> bool" where
  "system_inv cfg honest s \<longleftrightarrow>
     running s \<subseteq> honest \<and> (\<forall>r \<in> honest. node_ok cfg honest (votes s) r (nodes s r)) \<and>
     (\<forall>r \<in> running s. voted_ok {x. has_signed (votes s) r x} (nodes s r)) \<and>
     history_ok cfg honest (known_tree honest s) (votes s)"

lemma node_okD:
  assumes "node_ok cfg honest H r st"
  shows "replica_inv st" and "evidence (certified cfg honest H) (sig_of cfg honest H) st"
    and "config st = cfg" and "self_id st = r" and "heights_small (heap st)" and "justified (heap st)"
  using assms unfolding node_ok_def by blast+

lemma node_ok_mono:
  assumes "node_ok cfg honest H r st"
  shows "node_ok cfg honest (H @ vs) r st"
proof -
  have "evidence (certified cfg honest (H @ vs)) (sig_of cfg honest (H @ vs)) st"
    by (rule evidence_mono [OF node_okD(2) [OF assms]])
      (auto simp: sig_of_def intro: certified_mono has_signed_mono)
  then show ?thesis using assms by (simp add: node_ok_def)
qed

lemma has_signed_rule_votes:
  "has_signed (H @ rule_votes r l st) r' x \<longleftrightarrow>
     has_signed H r' x \<or> (r' = r \<and> (\<exists>lk. step_vote l st = Some (x, lk)))"
  by (cases "step_vote l st") (auto simp: has_signed_def rule_votes_def)

lemma rule_votes_history:
  assumes H: "history_ok cfg honest T H" and ok: "node_ok cfg honest H r st"
    and V: "voted_ok {x. has_signed H r x} st" and T: "known (heap st) \<subseteq> T"
  shows "history_ok cfg honest T (H @ rule_votes r l st)"
proof (cases "step_vote l st")
  case None
  then show ?thesis using H by (simp add: rule_votes_def)
next
  case (Some v)
  then obtain x lk where v: "core_vote st = Some (x, lk)" "step_vote l st = Some (x, lk)"
    by (cases v) (auto simp: step_vote_def split: replica_label.splits)
  have "vote_ok cfg honest T H r x lk"
    using vote_ok_mono [OF core_vote_history [OF node_okD(1,2) [OF ok] V v(1)] T] .
  then show ?thesis using history_ok_snoc [OF H] v(2) by (simp add: rule_votes_def)
qed

context app_contract
begin

lemma node_step:
  assumes ok: "node_ok cfg honest H r st" and V: "voted_ok {x. has_signed H r x} st" and ids: "r \<in> replica_ids cfg"
    and msg: "message_authentic env cfg honest H l" and step: "replica_step vt gnb loc env l st = Inr st'"
    and small: "heights_small (heap st')" and just: "justified (heap st')"
  shows "node_ok cfg honest (H @ rule_votes r l st) r st'"
    and "voted_ok {x. has_signed (H @ rule_votes r l st) r x} st'" and "heap_le (heap st) (heap st')"
proof -
  let ?H = "H @ rule_votes r l st"
  note D = node_okD [OF ok] and fit = heights_small_fit [OF small]
  note I = replica_step_inv [OF D(1) step fit]
  have sub: "set H \<subseteq> set ?H" by simp
  have "evidence (certified cfg honest ?H) (sig_of cfg honest ?H) st'"
    by (rule replica_step_evidence [OF node_okD(2) [OF node_ok_mono [OF ok]] D(1) _ _ _ step fit])
      (use D(3,4) quorum_closed_history message_authentic_backed [OF msg sub] ids in
        \<open>auto simp: sig_of_def has_signed_rule_votes\<close>)
  moreover have ids': "config st' = config st \<and> self_id st' = self_id st"
    using other_step_pointers [OF step] core_thread_ids [OF D(1)] step
    by (cases "l = CoreThread") (auto simp: same_pointers_def)
  ultimately show "node_ok cfg honest ?H r st'" using I(1) D(3,4) small just by (simp add: node_ok_def)
  show "heap_le (heap st) (heap st')" by (rule I(2))
  have wf: "heap_wf (heap st)" and lk: "rooted (heap st) (b_lock st)"
    using core_invD(2,5) [OF replica_invD(1) [OF D(1)]] .
  show "voted_ok {x. has_signed ?H r x} st'"
  proof (cases "l = CoreThread")
    case True
    have "{x. has_signed ?H r x} = (case core_vote st of None \<Rightarrow> {x. has_signed H r x} | Some (x, l) \<Rightarrow> insert x {x. has_signed H r x})"
      using True by (auto simp: has_signed_rule_votes step_vote_def split: option.splits)
    then show ?thesis using core_thread_voted [OF V D(1,6,5)] step True by simp
  next
    case False
    then have "step_vote l st = None" by (cases l) (auto simp: step_vote_def)
    then have same: "{x. has_signed ?H r x} = {x. has_signed H r x}" by (simp add: has_signed_rule_votes)
    show ?thesis unfolding same
      by (rule voted_ok_step [OF V wf I(2)])
        (use other_step_pointers [OF step False] heap_leD(12) [OF I(2) rooted_addr [OF lk] lk] in
          \<open>simp_all add: same_pointers_def\<close>)
  qed
qed

lemma system_reach_inv:
  assumes "system_reach vt gnb loc env safe_limits cfg honest init s" "honest \<subseteq> replica_ids cfg"
    and start: "\<And>r. r \<in> honest \<Longrightarrow> node_ok cfg honest [] r (init r)"
  shows "system_inv cfg honest s"
  using assms(1)
proof (induction rule: system_reach.induct)
  case system_start
  show ?case using start by (auto simp: system_inv_def has_signed_def voted_ok_def)
next
  case (system_step s r l st' xs)
  let ?H = "votes s @ rule_votes r l (nodes s r)"
  let ?s = "s\<lparr>nodes := (nodes s)(r := st'), votes := ?H\<rparr>"
  note I = system_step.IH [unfolded system_inv_def]
  have r: "r \<in> honest" using I system_step.hyps(2) by blast
  have ok: "node_ok cfg honest (votes s) r (nodes s r)" and V: "voted_ok {x. has_signed (votes s) r x} (nodes s r)"
    using I r system_step.hyps(2) by auto
  have lim: "heights_small (heap st')" "justified (heap st')" using system_step.hyps(5) by (simp_all add: safe_limits_def)
  note N = node_step [OF ok V _ system_step.hyps(3,4) lim]
  have rec: "record_votes r (nodes s r) xs = rule_votes r l (nodes s r)"
    using record_votes_eq [of xs l "nodes s r"] system_step.hyps(6,7) step_votes_eq [OF system_step.hyps(4)] by simp
  have rid: "r \<in> replica_ids cfg" using r assms(2) by blast
  have grow: "known_tree honest s \<subseteq> known_tree honest ?s"
    using known_le [OF N(3) [OF rid]] by (fastforce simp: known_tree_def)
  have "known (heap (nodes s r)) \<subseteq> known_tree honest s" using r by (auto simp: known_tree_def)
  then have sub: "known (heap (nodes s r)) \<subseteq> known_tree honest ?s" using grow by (rule subset_trans)
  have "history_ok cfg honest (known_tree honest s) (votes s)" using I by simp
  from history_ok_mono [OF this grow] have "history_ok cfg honest (known_tree honest ?s) ?H"
    by (rule rule_votes_history [OF _ ok V sub])
  moreover have "node_ok cfg honest ?H r' (nodes ?s r')" if "r' \<in> honest" for r'
    using N(1) [OF rid] node_ok_mono [of cfg honest "votes s" r' "nodes s r'"] I that by (cases "r' = r") simp_all
  moreover have "voted_ok {x. has_signed ?H r' x} (nodes ?s r')" if "r' \<in> running s" for r'
    using N(2) [OF rid] I that by (cases "r' = r") (auto simp: has_signed_rule_votes)
  ultimately show ?case using I by (simp add: system_inv_def rec)
next
  case (system_crash s r l e xs)
  let ?vs = "record_votes r (nodes s r) xs"
  let ?H = "votes s @ ?vs"
  let ?s = "s\<lparr>running := running s - {r}, votes := ?H\<rparr>"
  note I = system_crash.IH [unfolded system_inv_def]
  have r: "r \<in> honest" using I system_crash.hyps(2) by blast
  have ok: "node_ok cfg honest (votes s) r (nodes s r)" and V: "voted_ok {x. has_signed (votes s) r x} (nodes s r)"
    using I r system_crash.hyps(2) by auto
  have T: "known_tree honest ?s = known_tree honest s" by (simp add: known_tree_def)
  have sub: "known (heap (nodes s r)) \<subseteq> known_tree honest s" using r by (auto simp: known_tree_def)
  have "history_ok cfg honest (known_tree honest s) (votes s)" using I by simp
  moreover have "?vs = [] \<or> ?vs = rule_votes r l (nodes s r)"
    by (rule record_votes_rule) (use system_crash.hyps(5,6) step_votes_rule [OF system_crash.hyps(4)] in simp_all)
  ultimately have "history_ok cfg honest (known_tree honest ?s) ?H"
    unfolding T using rule_votes_history [OF _ ok V sub] by fastforce
  moreover have "node_ok cfg honest ?H r' (nodes ?s r')" if "r' \<in> honest" for r'
    using node_ok_mono [of cfg honest "votes s" r' "nodes s r'"] I that by simp
  moreover have "voted_ok {x. has_signed ?H r' x} (nodes ?s r')" if "r' \<in> running s - {r}" for r'
  proof -
    have "has_signed ?H r' x = has_signed (votes s) r' x" for x
      using that by (auto simp: has_signed_def record_votes_def)
    then show ?thesis using I that by simp
  qed
  ultimately show ?case using I by (auto simp: system_inv_def)
qed

end

section \<open>From the invariant to agreement\<close>

text \<open>Blocks with the same hash have the same parent and certify the same block.\<close>

definition no_collisions :: "block_tree \<Rightarrow> bool" where
  "no_collisions T \<longleftrightarrow>
     (\<forall>x p j n p' j' n'. (x, p, j, n) \<in> T \<longrightarrow> (x, p', j', n') \<in> T \<longrightarrow> p' = p \<and> j' = j) \<and>
     (\<forall>x p j n. (x, p, j, n) \<in> T \<longrightarrow> x \<noteq> zero_hash)"

text \<open>One of two blocks, in the heaps of two replicas, is on the chain of the other.\<close>

definition same_chain :: "block_heap \<Rightarrow> block_addr \<Rightarrow> block_heap \<Rightarrow> block_addr \<Rightarrow> bool" where
  "same_chain h a h' a' \<longleftrightarrow>
     (\<exists>c. extends h a c \<and> get_hash (h ! c) = get_hash (h' ! a')) \<or>
     (\<exists>c. extends h' a' c \<and> get_hash (h' ! c) = get_hash (h ! a))"

lemma system_tree_ok:
  assumes inv: "system_inv cfg honest s" and nc: "no_collisions (known_tree honest s)"
  shows "tree_ok (known_tree honest s)"
proof -
  let ?T = "known_tree honest s"
  have "0 < n \<and> known_height ?T p (n - 1) \<and> ancestor ?T p j" if t: "(x, p, j, n) \<in> ?T" for x p j n
  proof -
    obtain r where r: "r \<in> honest" "(x, p, j, n) \<in> known (heap (nodes s r))" using t by (auto simp: known_tree_def)
    let ?h = "heap (nodes s r)"
    have ok: "node_ok cfg honest (votes s) r (nodes s r)" using inv r(1) by (simp add: system_inv_def)
    have wf: "heap_wf ?h" by (rule core_invD(2) [OF replica_invD(1) [OF node_okD(1) [OF ok]]])
    have gen: "genesis_only ?h" by (rule evidence_genesis_only [OF node_okD(2) [OF ok]])
    have sub: "known ?h \<subseteq> ?T" using r(1) by (auto simp: known_tree_def)
    obtain a qc q where a: "a < length ?h" "parent_block_ptr (?h ! a) = Some q" and qc: "parsed_qc (?h ! a) = Some qc"
      and eq: "x = get_hash (?h ! a)" "p = get_parent_hash (?h ! a)" "j = obj_hash qc" "n = unat (block_height (?h ! a))"
      using r(2) by (auto simp: known_def)
    obtain jb where jb: "justify_block_ptr (?h ! a) = Some jb" using heap_wfD(1) [OF wf a(1)] a(2) by auto
    have n: "n = Suc (unat (block_height (?h ! q)))" using heap_wfD(5) [OF wf a] eq by simp
    have p: "get_hash (?h ! q) = p" using heap_wfD(4) [OF wf a] eq by simp
    have j: "get_hash (?h ! jb) = j"
      using heap_wfD(7) [OF wf a(1) jb] qc eq by (simp add: get_justify_hash_def get_justify_qc_def)
    have "extends ?h q jb" using node_okD(6) [OF ok] a jb unfolding justified_def by blast
    from ancestor_mono [OF extends_ancestor [OF this wf gen] sub] have "ancestor ?T p j" using p j by simp
    moreover have "known_height ?T p (n - 1)"
      using known_height_mono [OF rooted_known_height [OF wf gen heap_wfD(8) [OF wf a]] sub] p n by simp
    ultimately show ?thesis using n by simp
  qed
  then show ?thesis using nc unfolding tree_ok_def no_collisions_def by blast
qed

lemma extends_rooted: "extends h a b \<Longrightarrow> heap_wf h \<Longrightarrow> rooted h a \<Longrightarrow> rooted h b"
proof (induction rule: extends.induct)
  case (extends_parent a p b)
  then show ?case using heap_wfD(8) by blast
qed

text \<open>The executed block of a correct replica is committed, and what it has decided is below.\<close>

lemma node_commits:
  assumes inv: "system_inv cfg honest s" and r: "r \<in> honest" and a: "a < length (heap (nodes s r))"
    and d: "decided (heap (nodes s r) ! a)"
  obtains e k where "committed cfg honest (known_tree honest s) (votes s) e" "known_height (known_tree honest s) e k"
    "ancestor (known_tree honest s) e (get_hash (heap (nodes s r) ! a))" "rooted (heap (nodes s r)) a"
proof -
  let ?st = "nodes s r" and ?T = "known_tree honest s"
  let ?h = "heap ?st" and ?e = "b_exec (nodes s r)"
  have ok: "node_ok cfg honest (votes s) r ?st" using inv r by (simp add: system_inv_def)
  note C = core_invD [OF replica_invD(1) [OF node_okD(1) [OF ok]]]
  note D = evidenceD [OF node_okD(2) [OF ok]]
  have gen: "genesis_only ?h" by (rule evidence_genesis_only [OF node_okD(2) [OF ok]])
  have sub: "known ?h \<subseteq> ?T" using r by (auto simp: known_tree_def)
  have ext: "extends ?h ?e a" by (rule C(8) [OF a d])
  have com: "committed cfg honest ?T (votes s) (get_hash (?h ! ?e))"
  proof (cases "parsed_qc (?h ! ?e) = None")
    case True
    then show ?thesis using D(2) [OF rooted_addr [OF C(6)]] by (simp add: committed_def)
  next
    case False
    then obtain b2 b1 where b2: "b2 < length ?h" and tc: "three_chain ?h b2 b1 ?e"
      and cert: "certified cfg honest (votes s) (get_hash (?h ! b2))"
      using D(8) unfolding executed_ok_def by auto
    have j: "justify_block_ptr (?h ! b2) = Some b1" "parent_block_ptr (?h ! b2) = Some b1"
      "justify_block_ptr (?h ! b1) = Some ?e" "parent_block_ptr (?h ! b1) = Some ?e"
      using tc by (simp_all add: three_chain_def)
    have b1: "b1 < length ?h" using heap_wfD(6) [OF C(2) b2 j(1)] .
    have "(get_hash (?h ! b2), get_hash (?h ! b1), get_hash (?h ! b1), unat (block_height (?h ! b2))) \<in> ?T"
      "(get_hash (?h ! b1), get_hash (?h ! ?e), get_hash (?h ! ?e), unat (block_height (?h ! b1))) \<in> ?T"
      using linked_known [OF C(2) gen b2 j(1)] heap_wfD(4) [OF C(2) b2 j(2)]
        linked_known [OF C(2) gen b1 j(3)] heap_wfD(4) [OF C(2) b1 j(4)] sub by auto
    then show ?thesis using cert unfolding committed_def by blast
  qed
  have "rooted ?h a" using extends_rooted [OF ext C(2,6)] .
  then show thesis
    using that [OF com known_height_mono [OF rooted_known_height [OF C(2) gen C(6)] sub]]
      ancestor_mono [OF extends_ancestor [OF ext C(2) gen] sub] by blast
qed

text \<open>An ancestor by hash is the hash of an ancestor in the heap.\<close>

lemma ancestor_extends:
  "ancestor T x y \<Longrightarrow> tree_ok T \<Longrightarrow> known h \<subseteq> T \<Longrightarrow> heap_wf h \<Longrightarrow> genesis_only h \<Longrightarrow> rooted h a \<Longrightarrow>
     get_hash (h ! a) = x \<Longrightarrow> \<exists>c. extends h a c \<and> get_hash (h ! c) = y"
proof (induction arbitrary: a rule: ancestor.induct)
  case (ancestor_refl x)
  then show ?case using extends_refl [OF rooted_addr] by blast
next
  case (ancestor_parent x p j n y)
  note pr = ancestor_parent.prems
  have a: "a < length h" by (rule rooted_addr [OF pr(5)])
  have "x \<noteq> zero_hash" using tree_okD(2) [OF pr(1) ancestor_parent.hyps(1)] .
  then obtain q where q: "parent_block_ptr (h ! a) = Some q"
    using pr(4-6) a by (cases "parent_block_ptr (h ! a)") (auto simp: rooted_def genesis_only_def)
  then obtain qc where qc: "parsed_qc (h ! a) = Some qc" using pr(4) a by (auto simp: genesis_only_def)
  have "(x, get_parent_hash (h ! a), obj_hash qc, unat (block_height (h ! a))) \<in> T"
    using knownI [OF a _ qc] q pr(2,6) by auto
  then have "get_hash (h ! q) = p"
    using tree_okD(1) [OF pr(1) ancestor_parent.hyps(1)] heap_wfD(4) [OF pr(3) a q] by simp
  then obtain c where "extends h q c" "get_hash (h ! c) = y"
    using ancestor_parent.IH [OF pr(1-4) heap_wfD(8) [OF pr(3) a q]] by blast
  then show ?case using extends_parent [OF a q] by blast
qed

lemma system_agreement:
  assumes meet: "quorums_meet cfg honest" and inv: "system_inv cfg honest s"
    and nc: "no_collisions (known_tree honest s)" and r: "r \<in> honest" "r' \<in> honest"
    and a: "a < length (heap (nodes s r))" "decided (heap (nodes s r) ! a)"
    and a': "a' < length (heap (nodes s r'))" "decided (heap (nodes s r') ! a')"
  shows "same_chain (heap (nodes s r)) a (heap (nodes s r')) a'"
proof -
  let ?T = "known_tree honest s" and ?x = "get_hash (heap (nodes s r) ! a)" and ?y = "get_hash (heap (nodes s r') ! a')"
  have T: "tree_ok ?T" by (rule system_tree_ok [OF inv nc])
  have H: "history_ok cfg honest ?T (votes s)" using inv by (simp add: system_inv_def)
  obtain e k where e: "committed cfg honest ?T (votes s) e" "known_height ?T e k" "ancestor ?T e ?x"
    and ra: "rooted (heap (nodes s r)) a"
    by (rule node_commits [OF inv r(1) a])
  obtain e' k' where e': "committed cfg honest ?T (votes s) e'" "known_height ?T e' k'" "ancestor ?T e' ?y"
    and ra': "rooted (heap (nodes s r')) a'"
    by (rule node_commits [OF inv r(2) a'])
  have "ancestor ?T e e' \<or> ancestor ?T e' e" by (rule committed_comparable [OF meet T H e(1,2) e'(1,2)])
  then have xy: "ancestor ?T ?x ?y \<or> ancestor ?T ?y ?x"
    using ancestors_comparable [OF _ T] ancestor_trans e(3) e'(3) by blast
  have wf: "heap_wf (heap (nodes s q)) \<and> genesis_only (heap (nodes s q)) \<and> known (heap (nodes s q)) \<subseteq> ?T"
    if "q \<in> honest" for q
    using inv that core_invD(2) [OF replica_invD(1)] evidence_genesis_only
    unfolding system_inv_def node_ok_def known_tree_def by blast
  show ?thesis
    using xy ancestor_extends [OF _ T] wf [OF r(1)] wf [OF r(2)] ra ra' unfolding same_chain_def by metis
qed

section \<open>The initial state\<close>

lemma initial_node_ok:
  assumes inv: "replica_inv st" and heap: "heap st = [new_HotstuffBlock_genesis]"
    and queues: "event_queue st = new_GenericEventQueue" "network_event_queue st = new_GenericEventQueue"
      "block_fetch_manager st = init_configs cfg new_BlockFetchManager"
    and ids: "config st = cfg" "self_id st = r"
  shows "node_ok cfg honest H r st"
proof -
  note C = core_invD [OF replica_invD(1) [OF inv]]
  have gen: "get_hash new_HotstuffBlock_genesis = zero_hash" "parsed_qc new_HotstuffBlock_genesis = None"
    "parent_block_ptr new_HotstuffBlock_genesis = None" "justify_block_ptr new_HotstuffBlock_genesis = None"
    "block_height new_HotstuffBlock_genesis = 0" "sigs (self_qc new_HotstuffBlock_genesis) = []"
    by (simp_all add: new_HotstuffBlock_genesis_def get_hash_def new_QuorumCertificate_def)
  have at0: "fst (hqc st) = 0" "b_lock st = 0" "b_exec st = 0"
    using rooted_addr [OF C(4)] rooted_addr [OF C(5)] rooted_addr [OF C(6)] heap by simp_all
  have "request_ctxs (fold fm_add_replica infos fm) = request_ctxs fm" for infos fm
    by (induction infos arbitrary: fm) (simp_all add: fm_add_replica_def)
  then have "dependents (init_configs cfg new_BlockFetchManager) = {}"
    by (simp add: dependents_def init_configs_def new_BlockFetchManager_def)
  then have "evidence (certified cfg honest H) (sig_of cfg honest H) st"
    using heap queues at0 gen
    by (simp add: evidence_def held_net_def held_events_def gq.pending_empty good_votes_def signers_def
        certified_def executed_ok_def)
  then show ?thesis
    using inv ids heap gen by (auto simp: node_ok_def heights_small_def justified_def)
qed

lemma new_HotstuffApp_node_ok:
  assumes "new_HotstuffApp env cfg r sk vs cfgs db d = Inr st"
  shows "node_ok cfg honest H r (app_init_clean env vm st)"
  by (rule initial_node_ok [OF new_HotstuffApp_inv [OF assms]])
    (use assms in \<open>auto simp: new_HotstuffApp_def new_HotstuffAppBase_def new_HotstuffCore_def genesis_block_def
      alloc_block_def deref_def app_init_clean_def HotstuffAppBase.defs HotstuffCore.defs HotstuffApp.defs
      elim!: bindE_InrE\<close>)

lemma new_NonspeculativeHotstuffApp_node_ok:
  assumes "new_NonspeculativeHotstuffApp env cfg r sk vs db d = Inr st"
  shows "node_ok cfg honest H r (ns_app_init_clean env vm st)"
  by (rule initial_node_ok [OF new_NonspeculativeHotstuffApp_inv [OF assms]])
    (use assms in \<open>auto simp: new_NonspeculativeHotstuffApp_def new_HotstuffAppBase_def new_HotstuffCore_def
      genesis_block_def alloc_block_def deref_def ns_app_init_clean_def HotstuffAppBase.defs HotstuffCore.defs
      NonspeculativeHotstuffApp.defs elim!: bindE_InrE\<close>)

end
