(* ===== verification/Demo_System.thy ===== *)
theory Demo_System
  imports Safety
begin

text \<open>
  A concrete run of two replicas, both correct, for the examples that accompany the theorems on
  the whole system. Replica 0 proposes empty blocks; each round is a proposal, the vote of
  replica 0, the delivery to replica 1 and its vote, and the delivery of that vote. After the fourth
  proposal both replicas have committed the first block. A second run does the same for the application
  without speculation.
\<close>

section \<open>The replicas\<close>

type_synonym demo_app = "(demo_db, CountingVMBlock, CountingVM) HotstuffApp"

definition pair_config :: ReplicaConfig where
  "pair_config = \<lparr>replica_map = [(0, demo_info 0), (1, demo_info 1)], nreplicas = 2, nmajority = 2\<rparr>"

abbreviation demo_vm_state :: CountingVM where
  "demo_vm_state \<equiv> \<lparr>vm_state = 0, last_committed_state = 0\<rparr>"

definition pair_app :: "ReplicaID \<Rightarrow> demo_app" where
  "pair_app r = \<lparr>heap = [new_HotstuffBlock_genesis], files = Map.empty, genesis = 0,
     hqc = (0, \<lparr>justify = zero_hash, bmp = 0, wire_sigs = []\<rparr>), b_lock = 0, b_exec = 0, vheight = 0,
     self_id = r, config = pair_config, b_leaf = 0, decided_hash_index = demo_new_db,
     block_store = \<lparr>block_cache = [zero_hash \<mapsto> 0], gc_collector = new_BlockGarbageCollector\<rparr>,
     block_fetch_manager = init_configs pair_config new_BlockFetchManager, event_queue = new_GenericEventQueue,
     network_event_queue = new_GenericEventQueue, other_clients = [1 - r \<mapsto> new_HotstuffProtocolClient],
     secret_key = [ucast r], latest_new_qc = None, cancel_wait = False,
     vm_bridge = new_HotstuffVMBridge demo_vm_state default_HotstuffConfigs\<rparr>"

abbreviation pair_init :: "ReplicaID \<Rightarrow> demo_app" where
  "pair_init r \<equiv> app_init_clean demo_env demo_vm (pair_app r)"

abbreviation pair_reach :: "(block_heap \<Rightarrow> bool) \<Rightarrow> demo_app system \<Rightarrow> bool" where
  "pair_reach limits \<equiv> system_reach demo_virtuals (app_get_next_vm_block demo_vm) (app_local_step demo_vm) demo_env
     limits pair_config {0, 1} pair_init"

abbreviation pair_run ::
  "(block_heap \<Rightarrow> bool) \<Rightarrow> (ReplicaID \<times> app_local replica_label) list \<Rightarrow> demo_app system \<Rightarrow> demo_app system option" where
  "pair_run limits \<equiv> system_run demo_virtuals (app_get_next_vm_block demo_vm) (app_local_step demo_vm) demo_env
     limits pair_config {0, 1}"

lemma pair_config_built:
  "add_replicas [demo_info 0, demo_info 1] new_ReplicaConfig =
     Inr \<lparr>replica_map = [(0, demo_info 0), (1, demo_info 1)], nreplicas = 2, nmajority = 0\<rparr>"
  "pair_config = finish_init \<lparr>replica_map = [(0, demo_info 0), (1, demo_info 1)], nreplicas = 2, nmajority = 0\<rparr>"
  "replica_ids pair_config = {0, 1}" "nreplicas pair_config = 2"
  by (simp_all add: new_ReplicaConfig_def add_replica_def demo_info_def Let_def finish_init_def pair_config_def
      MAX_REPLICAS_def replica_ids_def)

lemma pair_app_new:
  assumes "r \<in> {0, 1}"
  shows "new_HotstuffApp demo_env pair_config r [ucast r] demo_vm_state default_HotstuffConfigs demo_new_db
    Map.empty = Inr (pair_app r)"
  using assms
  by (auto simp: new_HotstuffApp_def new_HotstuffAppBase_def new_HotstuffCore_def genesis_block_def
      alloc_block_def deref_def new_BlockStore_def HotstuffAppBase.defs HotstuffCore.defs HotstuffApp.defs
      pair_app_def pair_config_def get_info_def new_other_clients_def list_info_def demo_info_def
      new_HotstuffBlock_genesis_def emplace_def get_hash_def new_QuorumCertificate_def serialize_def demo_env_simps)

text \<open>The same replicas with the application without speculation.\<close>

definition pair_ns_app :: "ReplicaID \<Rightarrow> (demo_db, CountingVM) NonspeculativeHotstuffApp" where
  "pair_ns_app r = \<lparr>heap = [new_HotstuffBlock_genesis], files = Map.empty, genesis = 0,
     hqc = (0, \<lparr>justify = zero_hash, bmp = 0, wire_sigs = []\<rparr>), b_lock = 0, b_exec = 0, vheight = 0,
     self_id = r, config = pair_config, b_leaf = 0, decided_hash_index = demo_new_db,
     block_store = \<lparr>block_cache = [zero_hash \<mapsto> 0], gc_collector = new_BlockGarbageCollector\<rparr>,
     block_fetch_manager = init_configs pair_config new_BlockFetchManager, event_queue = new_GenericEventQueue,
     network_event_queue = new_GenericEventQueue, other_clients = [1 - r \<mapsto> new_HotstuffProtocolClient],
     secret_key = [ucast r], latest_new_qc = None, cancel_wait = False,
     ns_vm_bridge = new_NonspeculativeVMBridge demo_vm_state\<rparr>"

lemma pair_ns_app_new:
  assumes "r \<in> {0, 1}"
  shows "new_NonspeculativeHotstuffApp demo_env pair_config r [ucast r] demo_vm_state demo_new_db Map.empty =
    Inr (pair_ns_app r)"
  using assms
  by (auto simp: new_NonspeculativeHotstuffApp_def new_HotstuffAppBase_def new_HotstuffCore_def genesis_block_def
      alloc_block_def deref_def new_BlockStore_def HotstuffAppBase.defs HotstuffCore.defs NonspeculativeHotstuffApp.defs
      pair_ns_app_def pair_config_def get_info_def new_other_clients_def list_info_def demo_info_def
      new_HotstuffBlock_genesis_def emplace_def get_hash_def new_QuorumCertificate_def serialize_def demo_env_simps)

type_synonym demo_ns_app = "(demo_db, CountingVM) NonspeculativeHotstuffApp"

abbreviation ns_pair_init :: "ReplicaID \<Rightarrow> demo_ns_app" where
  "ns_pair_init r \<equiv> ns_app_init_clean demo_env demo_vm (pair_ns_app r)"

abbreviation ns_pair_reach :: "(block_heap \<Rightarrow> bool) \<Rightarrow> demo_ns_app system \<Rightarrow> bool" where
  "ns_pair_reach limits \<equiv> system_reach (ns_virtuals demo_env demo_vm) (\<lambda>_. ns_get_next_vm_block) ns_local_step demo_env
     limits pair_config {0, 1} ns_pair_init"

abbreviation ns_pair_run ::
  "(block_heap \<Rightarrow> bool) \<Rightarrow> (ReplicaID \<times> ns_local replica_label) list \<Rightarrow> demo_ns_app system \<Rightarrow> demo_ns_app system option" where
  "ns_pair_run limits \<equiv> system_run (ns_virtuals demo_env demo_vm) (\<lambda>_. ns_get_next_vm_block) ns_local_step demo_env
     limits pair_config {0, 1}"

section \<open>Blocks that certify their parents\<close>

definition chained :: "block_heap \<Rightarrow> bool" where
  "chained h \<longleftrightarrow> (\<forall>b \<in> set h. parent_block_ptr b = justify_block_ptr b)"

definition chained_limits :: "block_heap \<Rightarrow> bool" where
  "chained_limits h \<longleftrightarrow> heights_small h \<and> chained h"

lemma chained_justified: "heap_wf h \<Longrightarrow> chained h \<Longrightarrow> justified h"
  using heap_wfD(3) extends_refl by (fastforce simp: justified_def chained_def)

context app_contract
begin

lemma chained_reach:
  assumes "system_reach vt gnb loc env chained_limits cfg honest init s" "honest \<subseteq> replica_ids cfg"
    and start: "\<And>r. r \<in> honest \<Longrightarrow> node_ok cfg honest [] r (init r)"
  shows "system_reach vt gnb loc env safe_limits cfg honest init s"
  using assms(1)
proof (induction rule: system_reach.induct)
  case (system_step s r l st' xs)
  have inv: "system_inv cfg honest s" by (rule system_reach_inv [OF system_step.IH assms(2) start])
  then have "replica_inv (nodes s r)" using system_step.hyps(2) by (auto simp: system_inv_def node_ok_def)
  from replica_step_inv(1) [OF this system_step.hyps(4) heights_small_fit]
  have "heap_wf (heap st')" using system_step.hyps(5) core_invD(2) replica_invD(1) by (auto simp: chained_limits_def)
  then have "safe_limits (heap st')"
    using system_step.hyps(5) chained_justified by (simp add: safe_limits_def chained_limits_def)
  from system_reach.system_step [OF system_step.IH system_step.hyps(2-4) this system_step.hyps(6,7)] show ?case .
next
  case (system_crash s r l e xs)
  from system_reach.system_crash [OF system_crash.IH system_crash.hyps(2-6)] show ?case .
qed (rule system_start)

end

lemma pair_start_ok:
  "r \<in> {0, 1} \<Longrightarrow> node_ok pair_config {0, 1} [] r (pair_init r)"
  "r \<in> {0, 1} \<Longrightarrow> node_ok pair_config {0, 1} [] r (ns_pair_init r)"
  by (rule new_HotstuffApp_node_ok [OF pair_app_new], assumption)
    (rule new_NonspeculativeHotstuffApp_node_ok [OF pair_ns_app_new])

section \<open>The run\<close>

definition block_hash :: "byte \<Rightarrow> Hash" where
  "block_hash x = pad32 [x, 0]"

definition prev_hash :: "byte \<Rightarrow> Hash" where
  "prev_hash x = (if x = 1 then zero_hash else block_hash (x - 1))"

text \<open>The proposal of height \<open>x\<close> with the given body as replica 1 receives it, and the vote of replica 1.\<close>

definition demo_proposal :: "byte \<Rightarrow> bytes \<Rightarrow> ProposeMessage" where
  "demo_proposal x bs = \<lparr>msg_proposal =
     \<lparr>header = \<lparr>parent_hash = prev_hash x, header_qc = (if x = 1
          then \<lparr>justify = zero_hash, bmp = 0, wire_sigs = []\<rparr>
          else \<lparr>justify = prev_hash x, bmp = 3, wire_sigs = [0 # prev_hash x, 1 # prev_hash x]\<rparr>),
        body_hash = pad32 bs\<rparr>, body = bs\<rparr>, msg_proposer = 0\<rparr>"

definition demo_vote :: "byte \<Rightarrow> VoteMessage" where
  "demo_vote x = \<lparr>msg_vote = \<lparr>cert_hash = block_hash x, cert_sig = 1 # block_hash x\<rparr>, msg_voter = 1\<rparr>"

definition demo_round :: "byte \<Rightarrow> (ReplicaID \<times> app_local replica_label) list" where
  "demo_round x = [(0, ProposeEmpty 0), (0, CoreThread), (0, CoreThread),
     (1, HandlerPropose (demo_proposal x [])), (1, NetworkThread), (1, CoreThread),
     (0, HandlerVote (demo_vote x)), (0, NetworkThread), (0, CoreThread)]"

definition demo_script :: "(ReplicaID \<times> app_local replica_label) list" where
  "demo_script = demo_round 1 @ demo_round 2 @ demo_round 3 @
     [(0, ProposeEmpty 0), (0, CoreThread), (1, HandlerPropose (demo_proposal 4 [])), (1, NetworkThread), (1, CoreThread)]"

text \<open>
  Without speculation a replica that decides an empty block stops, and the code proposes empty blocks
  first. So here the proposals, with the command of a client in them, come from the network, where
  anyone can send one.
\<close>

abbreviation demo_command :: bytes where
  "demo_command \<equiv> [0, 0, 0, 0, 0, 0, 0, 1]"

definition ns_receives :: "ReplicaID \<Rightarrow> byte \<Rightarrow> (ReplicaID \<times> ns_local replica_label) list" where
  "ns_receives r x = [(r, HandlerPropose ((demo_proposal x demo_command)\<lparr>msg_proposer := 1 - r\<rparr>)),
     (r, NetworkThread), (r, CoreThread)]"

definition ns_demo_script :: "(ReplicaID \<times> ns_local replica_label) list" where
  "ns_demo_script = ns_receives 0 1 @ ns_receives 1 1 @ ns_receives 0 2 @ ns_receives 1 2 @
     ns_receives 0 3 @ ns_receives 1 3 @ ns_receives 0 4 @ ns_receives 1 4"

text \<open>Every linked block has one of the hashes of the run, and certifies the block before it.\<close>

definition demo_blocks :: "block_heap \<Rightarrow> bool" where
  "demo_blocks h \<longleftrightarrow> (\<forall>b \<in> set h. parent_block_ptr b \<noteq> None \<longrightarrow>
     (let x = head_or 0 (get_hash b) in
      x \<noteq> 0 \<and> get_hash b = block_hash x \<and> get_parent_hash b = prev_hash x \<and>
      map_option obj_hash (parsed_qc b) = Some (prev_hash x)))"

lemma head_pad [simp]: "head_or 0 (pad32 []) = 0" "head_or 0 (pad32 (x # xs)) = x" "head_or 0 zero_hash = 0"
  by (simp_all add: head_or_def pad32_def zero_hash_def numeral_eq_Suc)

lemma block_hash_simps:
  "pad32 [x, 0] = block_hash x" "head_or 0 (block_hash x) = x" "block_hash x = block_hash y \<longleftrightarrow> x = y"
  "x \<noteq> 0 \<Longrightarrow> block_hash x \<noteq> zero_hash" "x \<noteq> 0 \<Longrightarrow> zero_hash \<noteq> block_hash x"
proof -
  have head: "head_or 0 (block_hash x) = x" for x by (simp add: block_hash_def)
  show "pad32 [x, 0] = block_hash x" "head_or 0 (block_hash x) = x" by (simp_all add: block_hash_def)
  show "block_hash x = block_hash y \<longleftrightarrow> x = y" using head by metis
  show "block_hash x \<noteq> zero_hash" "zero_hash \<noteq> block_hash x" if "x \<noteq> 0"
    using pad32_nonzero [OF that, of "[0]"] by (auto simp: block_hash_def)
qed

lemma bit_vector_simps:
  "Bit_Operations.set_bit 0 (0 :: uint32) = 1" "Bit_Operations.set_bit (Suc 0) (1 :: uint32) = 3"
  "Bit_Operations.unset_bit 0 (3 :: uint32) = 2" "Bit_Operations.unset_bit (Suc 0) (2 :: uint32) = 0"
  by code_simp+

lemma bit_vector_size_simps:
  "length (filter (bit (3 :: uint32)) [0..<32]) = 2" "length (filter (bit (0 :: uint32)) [0..<32]) = 0"
  "lowest_bit 32 3 = 0" "lowest_bit 32 2 = Suc 0"
  by (simp_all add: upt_conv_Cons numeral_eq_Suc)

lemma demo_parse: "try_parse demo_vm [] = None"
  by (simp add: counting_vm_def counting_try_parse_def demo_env_def)

lemma deliver_init: "deliver_block hash (init_configs cfg new_BlockFetchManager) = ([], init_configs cfg new_BlockFetchManager)"
proof -
  have "outstanding_reqs (fold fm_add_replica infos fm) = outstanding_reqs fm" for infos fm
    by (induction infos arbitrary: fm) (simp_all add: fm_add_replica_def)
  then show ?thesis by (simp add: deliver_block_def init_configs_def new_BlockFetchManager_def)
qed

lemma pair_ids_valid: "\<not> (32 :: ReplicaID) \<le> 1"
  by (simp add: word_le_nat_alt)

lemmas propose_run_defs =
  do_empty_propose_def app_get_next_vm_block_def make_empty_proposal_def propose_with_body_def mint_block_def
  alloc_block_def hash_body_def hash_xdr_def hash_header_def new_HotstuffBlock_def broadcast_proposal_def
  self_client_propose_def validate_and_add_event_def insert_block_def set_parent_def set_justify_def
  MissingDependencies_bool_def emplace_def gc_add_block_def get_justify_hash_def get_parent_hash_def get_hash_def
  parse_QuorumCertificate_def add_event_def new_QuorumCertificate_def new_HotstuffBlock_genesis_def
  new_BlockGarbageCollector_def new_GenericEventQueue_def client_propose_def new_HotstuffProtocolClient_def
  to_wire_def has_body_def get_wire_body_def

lemmas vote_run_defs =
  core_thread_def queue_take_def queue_next_def queue_exists_work_to_do_def on_receive_proposal_def proposal_vote_def
  proposal_opinion_def self_client_vote_def on_receive_vote_def add_partial_certificate_def has_quorum_def
  base_on_new_qc_def serialize_def get_info_def pair_config_def replica_ids_def MAX_REPLICAS_def pair_ids_valid client_vote_def save_block_def
  save_xdr_to_file_def get_block_id_def demo_parse get_lowest_speculative_hotstuff_height_def

lemmas network_run_defs =
  handler_propose_def is_valid_replica_def new_ProposalNetEvent_def receive_block_def net_validate_and_add_event_def
  validate_hotstuff_at_def validate_hotstuff_def validate_hash_def verify_def get_publickey_def demo_info_def
  check_sig_def network_thread_def net_insert_def deliver_init add_events_def ProposalNetEvent_to_hotstuff_event_def
  VoteNetEvent_to_hotstuff_event_def handler_vote_def new_VoteNetEvent_def get_block_def PartialCertificate_validate_def

lemmas system_run_defs =
  message_authentic_def wire_authentic_def authentic_def rule_votes_def step_vote_def core_vote_def
  heights_small_def has_signed_def chained_limits_def chained_def demo_blocks_def

definition demo_decided :: "('db, 'm) HotstuffAppBase_scheme system \<Rightarrow> bool" where
  "demo_decided s \<longleftrightarrow> running s = {0, 1} \<and>
     length (heap (nodes s 0)) = 5 \<and> length (heap (nodes s 1)) = 5 \<and>
     decided (heap (nodes s 0) ! 1) \<and> decided (heap (nodes s 1) ! 1) \<and>
     demo_blocks (heap (nodes s 0)) \<and> demo_blocks (heap (nodes s 1))"

lemmas demo_run_defs =
  demo_script_def demo_round_def demo_proposal_def demo_vote_def prev_hash_def demo_decided_def
  system_run_defs propose_run_defs demo_env_simps vote_run_defs network_run_defs core_run_defs app_run_defs
  block_hash_simps bit_vector_simps bit_vector_size_simps

lemma demo_pair_run:
  "\<exists>s. pair_run chained_limits demo_script \<lparr>nodes = pair_init, running = {0, 1}, votes = []\<rparr> = Some s \<and> demo_decided s"
  by (simp add: pair_app_def app_init_clean_def demo_run_defs cong: bindE_first)

lemmas ns_run_defs =
  ns_virtuals_def ns_app_apply_block_def ns_apply_block_def ns_app_notify_vm_of_commitment_def
  ns_notify_vm_of_commitment_def ns_init_clean_def new_NonspeculativeVMBridge_def ns_demo_script_def ns_receives_def

lemma demo_command_parse: "\<exists>b. try_parse demo_vm demo_command = Some b"
  by (simp add: counting_vm_def counting_try_parse_def demo_env_def)

lemma ns_demo_pair_run:
  "\<exists>s. ns_pair_run chained_limits ns_demo_script \<lparr>nodes = ns_pair_init, running = {0, 1}, votes = []\<rparr> = Some s \<and>
     demo_decided s"
proof -
  obtain b where b: "try_parse demo_vm demo_command = Some b" using demo_command_parse by blast
  show ?thesis
    by (simp add: pair_ns_app_def ns_app_init_clean_def ns_run_defs b demo_run_defs cong: bindE_first)
qed

lemma demo_blocks_known:
  assumes "demo_blocks h" "(x, p, j, n) \<in> known h"
  shows "\<exists>y. y \<noteq> 0 \<and> x = block_hash y \<and> p = prev_hash y \<and> j = prev_hash y"
proof -
  obtain a qc where a: "a < length h" "parent_block_ptr (h ! a) \<noteq> None" "parsed_qc (h ! a) = Some qc"
    and eq: "x = get_hash (h ! a)" "p = get_parent_hash (h ! a)" "j = obj_hash qc"
    using assms(2) by (auto simp: known_def)
  have "h ! a \<in> set h" using a(1) by simp
  then show ?thesis using assms(1) a(2,3) eq unfolding demo_blocks_def Let_def by force
qed

lemma demo_no_collisions:
  assumes "demo_blocks (heap (nodes s 0))" "demo_blocks (heap (nodes s 1))"
  shows "no_collisions (known_tree {0, 1} s)"
proof -
  have T: "\<exists>y. y \<noteq> 0 \<and> x = block_hash y \<and> p = prev_hash y \<and> j = prev_hash y"
    if "(x, p, j, n) \<in> known_tree {0, 1} s" for x p j n
  proof -
    have "(x, p, j, n) \<in> known (heap (nodes s 0)) \<or> (x, p, j, n) \<in> known (heap (nodes s 1))"
      using that by (simp add: known_tree_def)
    then show ?thesis by (elim disjE) (erule demo_blocks_known [OF assms(1)], erule demo_blocks_known [OF assms(2)])
  qed
  show ?thesis unfolding no_collisions_def
  proof (intro conjI allI impI)
    fix x p j n p' j' n' assume "(x, p, j, n) \<in> known_tree {0, 1} s" "(x, p', j', n') \<in> known_tree {0, 1} s"
    from T [OF this(1)] T [OF this(2)] show "p' = p" "j' = j" by (auto simp: block_hash_simps)
  next
    fix x p j n assume "(x, p, j, n) \<in> known_tree {0, 1} s"
    from T [OF this] show "x \<noteq> zero_hash" by (auto simp: block_hash_simps)
  qed
qed

lemma demo_pair:
  obtains s where "pair_reach safe_limits s" "no_collisions (known_tree {0, 1} s)"
    "length (heap (nodes s 0)) = 5" "length (heap (nodes s 1)) = 5"
    "decided (heap (nodes s 0) ! 1)" "decided (heap (nodes s 1) ! 1)"
proof -
  obtain s where run: "pair_run chained_limits demo_script \<lparr>nodes = pair_init, running = {0, 1}, votes = []\<rparr> = Some s"
    and s: "demo_decided s"
    using demo_pair_run by blast
  have "pair_reach chained_limits s" by (rule spec_app.system_run_reach [OF run system_start])
  then have "pair_reach safe_limits s"
    by (rule spec_app.chained_reach) (use pair_config_built(3) pair_start_ok(1) in simp_all)
  then show thesis using that s demo_no_collisions [of s] unfolding demo_decided_def by blast
qed

lemma ns_demo_pair:
  obtains s where "ns_pair_reach safe_limits s" "no_collisions (known_tree {0, 1} s)"
    "length (heap (nodes s 0)) = 5" "length (heap (nodes s 1)) = 5"
    "decided (heap (nodes s 0) ! 1)" "decided (heap (nodes s 1) ! 1)"
proof -
  obtain s where run: "ns_pair_run chained_limits ns_demo_script \<lparr>nodes = ns_pair_init, running = {0, 1}, votes = []\<rparr> = Some s"
    and s: "demo_decided s"
    using ns_demo_pair_run by blast
  have "ns_pair_reach chained_limits s" by (rule nonspec_app.system_run_reach [OF run system_start])
  then have "ns_pair_reach safe_limits s"
    by (rule nonspec_app.chained_reach) (use pair_config_built(3) pair_start_ok(2) in simp_all)
  then show thesis using that s demo_no_collisions [of s] unfolding demo_decided_def by blast
qed

end
