(* ===== verification/Fork.thy ===== *)
theory Fork
  imports Demo_System
begin

text \<open>
  Why agreement needs blocks to extend the block they certify. Nothing in the code checks this, and
  proposals carry no signature. In the run of this theory both replicas are correct, no signature is forged, and
  someone on the network sends proposals to both: a chain \<open>A1, A2, A3, A4\<close> and a chain \<open>B1, ..., B7\<close> beside it, where
  \<open>B4\<close> carries the certificate for \<open>A2\<close>. Both replicas vote on both chains, and then one of them commits \<open>A1\<close> and
  the other one \<open>B1\<close> to \<open>B4\<close>.
\<close>

section \<open>The blocks\<close>

text \<open>The first number is the height; the second one tells the chains apart.\<close>

definition fork_hash :: "byte \<Rightarrow> byte \<Rightarrow> Hash" where
  "fork_hash x y = pad32 [x, y]"

lemma fork_hash_simps:
  "pad32 [x, y] = fork_hash x y" "head_or 0 (fork_hash x y) = x"
  "fork_hash x y = fork_hash x' y' \<longleftrightarrow> x = x' \<and> y = y'"
  "x \<noteq> 0 \<Longrightarrow> fork_hash x y \<noteq> zero_hash" "x \<noteq> 0 \<Longrightarrow> zero_hash \<noteq> fork_hash x y"
proof -
  show "pad32 [x, y] = fork_hash x y" "head_or 0 (fork_hash x y) = x" by (simp_all add: fork_hash_def)
  show "fork_hash x y = fork_hash x' y' \<longleftrightarrow> x = x' \<and> y = y'" by (simp add: fork_hash_def pad32_def numeral_eq_Suc)
  show "fork_hash x y \<noteq> zero_hash" "zero_hash \<noteq> fork_hash x y" if "x \<noteq> 0"
    using pad32_nonzero [OF that, of "[y]"] by (auto simp: fork_hash_def)
qed

definition empty_qc :: QuorumCertificateWire where
  "empty_qc = \<lparr>justify = zero_hash, bmp = 0, wire_sigs = []\<rparr>"

text \<open>A certificate with the signatures of both replicas.\<close>

definition pair_qc :: "Hash \<Rightarrow> QuorumCertificateWire" where
  "pair_qc h = \<lparr>justify = h, bmp = 3, wire_sigs = [0 # h, 1 # h]\<rparr>"

definition fork_wire :: "byte \<Rightarrow> Hash \<Rightarrow> QuorumCertificateWire \<Rightarrow> HotstuffBlockWire" where
  "fork_wire y p qc = \<lparr>header = \<lparr>parent_hash = p, header_qc = qc, body_hash = pad32 [y]\<rparr>, body = [y]\<rparr>"

definition block_A :: "byte \<Rightarrow> HotstuffBlockWire" where
  "block_A x = (if x = 1 then fork_wire 0 zero_hash empty_qc
     else fork_wire 0 (fork_hash (x - 1) 0) (pair_qc (fork_hash (x - 1) 0)))"

definition block_B :: "byte \<Rightarrow> HotstuffBlockWire" where
  "block_B x = fork_wire 1 (if x = 1 then zero_hash else fork_hash (x - 1) 1)
     (if x < 4 then empty_qc else if x = 4 then pair_qc (fork_hash 2 0) else pair_qc (fork_hash (x - 1) 1))"

section \<open>The run\<close>

text \<open>A proposal arrives at replica \<open>r\<close> and is handled; its vote goes to the other replica.\<close>

definition receives :: "ReplicaID \<Rightarrow> HotstuffBlockWire \<Rightarrow> (ReplicaID \<times> app_local replica_label) list" where
  "receives r w = [(r, HandlerPropose \<lparr>msg_proposal = w, msg_proposer = 1 - r\<rparr>), (r, NetworkThread), (r, CoreThread)]"

definition both_receive :: "HotstuffBlockWire \<Rightarrow> (ReplicaID \<times> app_local replica_label) list" where
  "both_receive w = receives 0 w @ receives 1 w"

definition fork_script :: "(ReplicaID \<times> app_local replica_label) list" where
  "fork_script = both_receive (block_A 1) @ both_receive (block_A 2) @ both_receive (block_A 3) @
     both_receive (block_B 1) @ both_receive (block_B 2) @ both_receive (block_B 3) @ both_receive (block_B 4) @ both_receive (block_B 5) @ both_receive (block_B 6) @
     receives 1 (block_B 7) @ receives 0 (block_A 4)"

lemmas fork_run_defs =
  fork_script_def both_receive_def receives_def block_A_def block_B_def fork_wire_def empty_qc_def pair_qc_def

text \<open>Every linked block is one of these, with its parent and the block it certifies.\<close>

definition fork_table :: "(Hash \<times> Hash \<times> Hash) list" where
  "fork_table = [(fork_hash 1 0, zero_hash, zero_hash), (fork_hash 2 0, fork_hash 1 0, fork_hash 1 0),
     (fork_hash 3 0, fork_hash 2 0, fork_hash 2 0), (fork_hash 4 0, fork_hash 3 0, fork_hash 3 0),
     (fork_hash 1 1, zero_hash, zero_hash), (fork_hash 2 1, fork_hash 1 1, zero_hash),
     (fork_hash 3 1, fork_hash 2 1, zero_hash), (fork_hash 4 1, fork_hash 3 1, fork_hash 2 0),
     (fork_hash 5 1, fork_hash 4 1, fork_hash 4 1), (fork_hash 6 1, fork_hash 5 1, fork_hash 5 1),
     (fork_hash 7 1, fork_hash 6 1, fork_hash 6 1)]"

definition fork_blocks :: "block_heap \<Rightarrow> bool" where
  "fork_blocks h \<longleftrightarrow> (\<forall>b \<in> set h. parent_block_ptr b \<noteq> None \<longrightarrow>
     (get_hash b, get_parent_hash b, map_option obj_hash (parsed_qc b)) \<in>
       set (map (\<lambda>(x, p, j). (x, p, Some j)) fork_table))"

lemma fork_run:
  "\<exists>s. pair_run heights_small fork_script \<lparr>nodes = pair_init, running = {0, 1}, votes = []\<rparr> = Some s \<and>
     running s = {0, 1} \<and> length (heap (nodes s 0)) = 11 \<and> length (heap (nodes s 1)) = 11 \<and>
     decided (heap (nodes s 0) ! 1) \<and> get_hash (heap (nodes s 0) ! 1) = fork_hash 1 0 \<and>
     parent_block_ptr (heap (nodes s 0) ! 1) = Some 0 \<and>
     decided (heap (nodes s 1) ! 4) \<and> get_hash (heap (nodes s 1) ! 4) = fork_hash 1 1 \<and>
     parent_block_ptr (heap (nodes s 1) ! 4) = Some 0 \<and>
     heap (nodes s 0) ! 0 = new_HotstuffBlock_genesis \<and> heap (nodes s 1) ! 0 = new_HotstuffBlock_genesis \<and>
     fork_blocks (heap (nodes s 0)) \<and> fork_blocks (heap (nodes s 1))"
  by (simp add: pair_app_def app_init_clean_def fork_run_defs fork_blocks_def fork_table_def
      message_authentic_def wire_authentic_def authentic_def rule_votes_def step_vote_def core_vote_def
      heights_small_def has_signed_def propose_run_defs demo_env_simps vote_run_defs network_run_defs core_run_defs app_run_defs
      fork_hash_simps bit_vector_simps bit_vector_size_simps cong: bindE_first)

section \<open>The fork\<close>

lemma fork_known:
  assumes "fork_blocks h" "(x, p, j, n) \<in> known h"
  shows "(x, p, j) \<in> set fork_table"
proof -
  obtain a qc where a: "a < length h" "parent_block_ptr (h ! a) \<noteq> None" "parsed_qc (h ! a) = Some qc"
    and eq: "x = get_hash (h ! a)" "p = get_parent_hash (h ! a)" "j = obj_hash qc"
    using assms(2) by (auto simp: known_def)
  have "h ! a \<in> set h" using a(1) by simp
  then have "(x, p, Some j) \<in> set (map (\<lambda>(x, p, j). (x, p, Some j)) fork_table)"
    using assms(1) a(2,3) eq unfolding fork_blocks_def by force
  then show ?thesis by auto
qed

lemma fork_table_unique:
  "(x, p, j) \<in> set fork_table \<Longrightarrow> (x, p', j') \<in> set fork_table \<Longrightarrow> p' = p \<and> j' = j"
  "(x, p, j) \<in> set fork_table \<Longrightarrow> x \<noteq> zero_hash"
proof -
  have d: "distinct (map fst fork_table)" by (simp add: fork_table_def fork_hash_simps)
  show "p' = p \<and> j' = j" if "(x, p, j) \<in> set fork_table" "(x, p', j') \<in> set fork_table"
    using eq_key_imp_eq_value [OF d that] by simp
  show "x \<noteq> zero_hash" if "(x, p, j) \<in> set fork_table"
    using that by (auto simp: fork_table_def fork_hash_simps)
qed

lemma fork_no_collisions:
  assumes "fork_blocks (heap (nodes s 0))" "fork_blocks (heap (nodes s 1))"
  shows "no_collisions (known_tree {0, 1} s)"
proof -
  have T: "(x, p, j) \<in> set fork_table" if "(x, p, j, n) \<in> known_tree {0, 1} s" for x p j n
  proof -
    have "(x, p, j, n) \<in> known (heap (nodes s 0)) \<or> (x, p, j, n) \<in> known (heap (nodes s 1))"
      using that by (simp add: known_tree_def)
    then show ?thesis by (elim disjE) (erule fork_known [OF assms(1)], erule fork_known [OF assms(2)])
  qed
  show ?thesis unfolding no_collisions_def
  proof (intro conjI allI impI)
    fix x p j n p' j' n' assume "(x, p, j, n) \<in> known_tree {0, 1} s" "(x, p', j', n') \<in> known_tree {0, 1} s"
    from fork_table_unique(1) [OF T [OF this(1)] T [OF this(2)]] show "p' = p" "j' = j" by simp_all
  next
    fix x p j n assume "(x, p, j, n) \<in> known_tree {0, 1} s"
    from fork_table_unique(2) [OF T [OF this]] show "x \<noteq> zero_hash" .
  qed
qed

lemma extends_child_of_genesis:
  assumes "extends h a c" "parent_block_ptr (h ! a) = Some 0" "h ! 0 = new_HotstuffBlock_genesis"
  shows "c = a \<or> c = 0"
proof (rule extendsE [OF assms(1)])
  fix p assume "parent_block_ptr (h ! a) = Some p" "extends h p c"
  then have "extends h 0 c" using assms(2) by simp
  then show ?thesis by (rule extendsE) (use assms(3) in simp_all)
qed simp

text \<open>
  C3 --- Agreement needs blocks to extend the block they certify. With the condition left out of the
  limits, which then only keep the heights below \<open>2 ^ 32\<close>, the system of two correct replicas that starts
  clean reaches a state where no replica has stopped and no two blocks have the same hash, but the
  two replicas have decided blocks that are not on one chain. So the agreement theorems do not hold without the
  condition, and the code, which does not check it, does not guarantee agreement.
\<close>

theorem agreement_needs_extension:
  "\<exists>s a a'. system_reach (app_virtuals demo_env demo_vm Inr) (app_get_next_vm_block demo_vm) (app_local_step demo_vm)
       demo_env heights_small pair_config (replica_ids pair_config)
       (\<lambda>r. app_init_clean demo_env demo_vm (pair_app r)) s \<and>
     running s = replica_ids pair_config \<and> no_collisions (known_tree (replica_ids pair_config) s) \<and>
     a < length (heap (nodes s 0)) \<and> decided (heap (nodes s 0) ! a) \<and>
     a' < length (heap (nodes s 1)) \<and> decided (heap (nodes s 1) ! a') \<and>
     \<not> same_chain (heap (nodes s 0)) a (heap (nodes s 1)) a'"
proof -
  obtain s where run: "pair_run heights_small fork_script \<lparr>nodes = pair_init, running = {0, 1}, votes = []\<rparr> = Some s"
    and s: "running s = {0, 1}" "length (heap (nodes s 0)) = 11" "length (heap (nodes s 1)) = 11"
    "decided (heap (nodes s 0) ! 1)" "decided (heap (nodes s 1) ! 4)"
    "fork_blocks (heap (nodes s 0))" "fork_blocks (heap (nodes s 1))"
    and b: "get_hash (heap (nodes s 0) ! 1) = fork_hash 1 0" "parent_block_ptr (heap (nodes s 0) ! 1) = Some 0"
      "heap (nodes s 0) ! 0 = new_HotstuffBlock_genesis"
      "get_hash (heap (nodes s 1) ! 4) = fork_hash 1 1" "parent_block_ptr (heap (nodes s 1) ! 4) = Some 0"
      "heap (nodes s 1) ! 0 = new_HotstuffBlock_genesis"
    using fork_run by (elim exE conjE) (rule that)
  have "get_hash (heap (nodes s 0) ! c) \<noteq> fork_hash 1 1" if "extends (heap (nodes s 0)) 1 c" for c
    using extends_child_of_genesis [OF that b(2,3)] b(1,3) by (auto simp: fork_hash_simps)
  moreover have "get_hash (heap (nodes s 1) ! c) \<noteq> fork_hash 1 0" if "extends (heap (nodes s 1)) 4 c" for c
    using extends_child_of_genesis [OF that b(5,6)] b(4,6) by (auto simp: fork_hash_simps)
  ultimately have fork: "\<not> same_chain (heap (nodes s 0)) 1 (heap (nodes s 1)) 4"
    using b(1,4) unfolding same_chain_def by metis
  have "pair_reach heights_small s" by (rule spec_app.system_run_reach [OF run system_start])
  then show ?thesis
    unfolding pair_config_built(3) using s fork fork_no_collisions [OF s(6,7)]
    by (intro exI [of _ s] exI [of _ 1] exI [of _ 4]) simp
qed

end
