(* ===== verification/RpcClient.thy ===== *)
theory RpcClient
  imports Config
begin

text \<open>
  The connection under every outbound call (\<^verbatim>\<open>src/hotstuff/nonblocking_rpc_client.h\<close>): it is opened on
  demand, opening is repeated until it succeeds or the worker is told to stop, and a call
  that throws closes it. Sockets and the generated client stubs belong to xdrpp: the outcome of each
  \<open>tcp_connect\<close> is an input, and so are the constructor of the stub and the remote call.
\<close>

section \<open>State\<close>

record ('sock, 'client) NonblockingRpcClient =
  socket :: "'sock option"
  client :: "'client option"
  rpc_done_flag :: bool

definition new_NonblockingRpcClient :: "('sock, 'client) NonblockingRpcClient" where
  "new_NonblockingRpcClient = \<lparr>socket = None, client = None, rpc_done_flag = False\<rparr>"

definition connection_is_open :: "('sock, 'client) NonblockingRpcClient \<Rightarrow> bool" where
  "connection_is_open c \<longleftrightarrow> client c \<noteq> None"

definition clear_connection ::
  "('sock, 'client) NonblockingRpcClient \<Rightarrow> ('sock, 'client) NonblockingRpcClient" where
  "clear_connection c = c\<lparr>client := None, socket := None\<rparr>"

section \<open>Opening the connection\<close>

definition open_connection ::
  "('sock \<Rightarrow> 'client result) \<Rightarrow> 'sock result \<Rightarrow> ('sock, 'client) NonblockingRpcClient \<Rightarrow>
   ('sock, 'client) NonblockingRpcClient result" where
  "open_connection make_client tcp_connect c =
     bindE tcp_connect (\<lambda>s.
     bindE (make_client s) (\<lambda>cl.
     Inr (c\<lparr>socket := Some s, client := Some cl\<rparr>)))"

text \<open>
  Any exception is caught and clears the connection. The hook \<open>on_connection_open\<close> is called in both
  cases; no class overrides it.
\<close>

definition try_open_connection ::
  "('sock \<Rightarrow> 'client result) \<Rightarrow> 'sock result \<Rightarrow> ('sock, 'client) NonblockingRpcClient \<Rightarrow>
   ('sock, 'client) NonblockingRpcClient" where
  "try_open_connection make_client tcp_connect c =
     (case open_connection make_client tcp_connect c of
        Inr c' \<Rightarrow> c'
      | Inl _ \<Rightarrow> clear_connection c)"

text \<open>
  An attempt is the outcome of \<open>tcp_connect\<close> and whether another thread has set \<open>done_flag\<close> by
  the end of the iteration. The loop consumes attempts and returns the remaining ones; \<open>None\<close> is a
  loop that is still running after all of them.
\<close>

type_synonym 'sock attempt = "'sock result \<times> bool"

fun open_loop ::
  "('sock \<Rightarrow> 'client result) \<Rightarrow> 'sock attempt list \<Rightarrow> ('sock, 'client) NonblockingRpcClient \<Rightarrow>
   (('sock, 'client) NonblockingRpcClient \<times> 'sock attempt list) option" where
  "open_loop make_client [] c = None"
| "open_loop make_client ((tcp_connect, stop) # attempts) c =
     (let c = try_open_connection make_client tcp_connect c;
          c = c\<lparr>rpc_done_flag := rpc_done_flag c \<or> stop\<rparr> in
      if connection_is_open c \<or> rpc_done_flag c then Some (c, attempts)
      else open_loop make_client attempts c)"

definition wait_for_try_open_connection ::
  "('sock \<Rightarrow> 'client result) \<Rightarrow> 'sock attempt list \<Rightarrow> ('sock, 'client) NonblockingRpcClient \<Rightarrow>
   (('sock, 'client) NonblockingRpcClient \<times> 'sock attempt list) option" where
  "wait_for_try_open_connection make_client attempts c =
     (if connection_is_open c \<or> rpc_done_flag c then Some (c, attempts)
      else open_loop make_client attempts c)"

section \<open>Calls\<close>

text \<open>\<open>catch (...)\<close> catches what is thrown; undefined behaviour is not an exception.\<close>

fun is_exception :: "error \<Rightarrow> bool" where
  "is_exception (RuntimeError _) = True"
| "is_exception (InvalidArgument _) = True"
| "is_exception OutOfRange = True"
| "is_exception XdrError = True"
| "is_exception _ = False"

text \<open>The call \<open>client -> f(...)\<close> in the lambdas: the pointer is dereferenced unchecked.\<close>

definition rpc_call :: "('client \<Rightarrow> 'r result) \<Rightarrow> 'client option \<Rightarrow> 'r result" where
  "rpc_call f cl = bindE (of_option NullDeref cl) f"

definition try_action ::
  "('sock \<Rightarrow> 'client result) \<Rightarrow> 'sock attempt list \<Rightarrow> ('client option \<Rightarrow> 'r result) \<Rightarrow>
   ('sock, 'client) NonblockingRpcClient \<Rightarrow>
   ('r option \<times> ('sock, 'client) NonblockingRpcClient) result option" where
  "try_action make_client attempts lambda c =
     (case wait_for_try_open_connection make_client attempts c of
        None \<Rightarrow> None
      | Some (c, _) \<Rightarrow>
          Some (case lambda (client c) of
                  Inr out \<Rightarrow> Inr (Some out, c)
                | Inl e \<Rightarrow> if is_exception e then Inr (None, clear_connection c) else Inl e))"

definition try_action_void ::
  "('sock \<Rightarrow> 'client result) \<Rightarrow> 'sock attempt list \<Rightarrow> ('client option \<Rightarrow> unit result) \<Rightarrow>
   ('sock, 'client) NonblockingRpcClient \<Rightarrow>
   (bool \<times> ('sock, 'client) NonblockingRpcClient) result option" where
  "try_action_void make_client attempts lambda c =
     (case wait_for_try_open_connection make_client attempts c of
        None \<Rightarrow> None
      | Some (c, _) \<Rightarrow>
          Some (case lambda (client c) of
                  Inr _ \<Rightarrow> Inr (True, c)
                | Inl e \<Rightarrow> if is_exception e then Inr (False, clear_connection c) else Inl e))"

section \<open>The loop ends at the first success\<close>

text \<open>The stub an attempt yields, if \<open>tcp_connect\<close> and the constructor both succeed.\<close>

definition connected :: "('sock \<Rightarrow> 'client result) \<Rightarrow> 'sock result \<Rightarrow> ('sock \<times> 'client) option" where
  "connected make_client tcp_connect =
     (case tcp_connect of
        Inl _ \<Rightarrow> None
      | Inr s \<Rightarrow> (case make_client s of Inl _ \<Rightarrow> None | Inr cl \<Rightarrow> Some (s, cl)))"

lemma try_open_connected:
  "try_open_connection make_client tcp_connect c =
     c\<lparr>socket := map_option fst (connected make_client tcp_connect),
       client := map_option snd (connected make_client tcp_connect)\<rparr>"
  by (simp add: try_open_connection_def open_connection_def connected_def clear_connection_def
      split: sum.split)

lemma open_loop_first:
  "\<not> rpc_done_flag c \<Longrightarrow>
     open_loop make_client attempts c =
       (case dropWhile (\<lambda>(t, stop). connected make_client t = None \<and> \<not> stop) attempts of
          [] \<Rightarrow> None
        | (t, stop) # rest \<Rightarrow>
            Some (c\<lparr>socket := map_option fst (connected make_client t),
                    client := map_option snd (connected make_client t), rpc_done_flag := stop\<rparr>, rest))"
proof (induction attempts arbitrary: c)
  case (Cons a attempts)
  obtain t stop where a: "a = (t, stop)" by force
  show ?case
  proof (cases "connected make_client t = None \<and> \<not> stop")
    case True
    let ?c = "c\<lparr>socket := None, client := None\<rparr>"
    have "open_loop make_client (a # attempts) c = open_loop make_client attempts ?c"
      using True Cons.prems by (simp add: a try_open_connected connection_is_open_def)
    moreover have "dropWhile (\<lambda>(t, stop). connected make_client t = None \<and> \<not> stop) (a # attempts) =
        dropWhile (\<lambda>(t, stop). connected make_client t = None \<and> \<not> stop) attempts"
      using True by (simp add: a)
    ultimately show ?thesis
      using Cons.IH [of ?c] Cons.prems by (simp only:) (simp cong: list.case_cong prod.case_cong)
  next
    case False
    then show ?thesis
      using Cons.prems by (auto simp: a try_open_connected connection_is_open_def Let_def)
  qed
qed simp

text \<open>
  C36 --- Opening a connection ends at the first attempt that succeeds, or with the attempt after
  which the worker is told to stop; all failed attempts before it leave no trace. In particular
  the loop runs on only as long as every attempt fails and nothing stops it.
\<close>

theorem connects_at_first_success:
  assumes "\<not> connection_is_open c" "\<not> rpc_done_flag c"
  shows "wait_for_try_open_connection make_client attempts c =
    (case dropWhile (\<lambda>(t, stop). connected make_client t = None \<and> \<not> stop) attempts of
       [] \<Rightarrow> None
     | (t, stop) # rest \<Rightarrow>
         Some (c\<lparr>socket := map_option fst (connected make_client t),
                 client := map_option snd (connected make_client t), rpc_done_flag := stop\<rparr>, rest))"
  using assms open_loop_first [of c] by (simp add: wait_for_try_open_connection_def)

theorem connects_at_first_success_witness:
  "wait_for_try_open_connection (\<lambda>s. Inr (s + 1)) [(Inl XdrError, False), (Inr (5 :: nat), False)]
     new_NonblockingRpcClient =
     Some (\<lparr>socket = Some 5, client = Some (6 :: nat), rpc_done_flag = False\<rparr>, [])"
  using connects_at_first_success
    [of "new_NonblockingRpcClient :: (nat, nat) NonblockingRpcClient" "\<lambda>s. Inr (s + 1)"
      "[(Inl XdrError, False), (Inr 5, False)]"]
  by (simp add: connection_is_open_def new_NonblockingRpcClient_def connected_def)

section \<open>What a call returns\<close>

lemma wait_returns_open:
  assumes "wait_for_try_open_connection make_client attempts c = Some (c', rest)"
  shows "connection_is_open c' \<or> rpc_done_flag c'"
proof -
  have "open_loop make_client as d = Some (c', rest) \<Longrightarrow> connection_is_open c' \<or> rpc_done_flag c'"
    for as d
    by (induction as arbitrary: d) (auto simp: Let_def split: if_splits)
  then show ?thesis
    using assms by (auto simp: wait_for_try_open_connection_def split: if_splits)
qed

text \<open>
  C37 --- A call on the connection. If waiting for it ends, then the call reports success exactly
  when the remote call succeeded, reports failure with the connection closed when the remote call threw, and
  dereferences a null pointer exactly when the worker was told to stop before a connection was
  open.
\<close>

theorem try_action_void_outcome:
  assumes "wait_for_try_open_connection make_client attempts c = Some (c', rest)"
    and "\<And>cl e. f cl = Inl e \<Longrightarrow> is_exception e"
  shows "try_action_void make_client attempts (rpc_call f) c = Some (
    case client c' of
      None \<Rightarrow> Inl NullDeref
    | Some cl \<Rightarrow> (case f cl of
        Inl _ \<Rightarrow> Inr (False, c'\<lparr>client := None, socket := None\<rparr>)
      | Inr _ \<Rightarrow> Inr (True, c'))) \<and>
    (client c' = None \<longrightarrow> rpc_done_flag c')"
  using assms wait_returns_open [OF assms(1)]
  by (auto simp: try_action_void_def rpc_call_def clear_connection_def connection_is_open_def
      split: option.split sum.split)

theorem try_action_void_outcome_witness:
  "try_action_void (\<lambda>s. Inr s) [(Inl XdrError, True)] (rpc_call (\<lambda>_. Inr ()))
     (new_NonblockingRpcClient :: (nat, nat) NonblockingRpcClient) = Some (Inl NullDeref)"
proof -
  let ?c = "new_NonblockingRpcClient :: (nat, nat) NonblockingRpcClient"
  have w: "wait_for_try_open_connection (\<lambda>s. Inr s) [(Inl XdrError, True)] ?c = Some (?c\<lparr>rpc_done_flag := True\<rparr>, [])"
    by (simp add: wait_for_try_open_connection_def connection_is_open_def try_open_connected connected_def
        new_NonblockingRpcClient_def)
  show ?thesis
    using try_action_void_outcome [OF w, of "\<lambda>_. Inr ()"] by (simp add: new_NonblockingRpcClient_def)
qed

end
