(* ===== verification/Outbound.thy ===== *)
theory Outbound
  imports AppBase RpcClient "HOL-Library.Sublist"
begin

text \<open>
  Outbound messages over a connection: a pass of \<open>HotstuffProtocolClient::do_work\<close> and an exchange of
  \<open>BlockFetchWorker::run\<close>, with the calls of \<open>RpcClient\<close> they are made of. A peer gets the messages in
  the order in which they were handed to the client.
\<close>

section \<open>A pass of do_work\<close>

text \<open>
  \<open>call m\<close> is the generated stub for the message \<open>m\<close>, and \<open>stop\<close> is whether another thread has set
  \<open>done_flag\<close> by the end of the call. The result is the message whose call has returned, if any;
  \<open>None\<close> on the outside is a pass that still waits for a connection.
\<close>

definition set_done :: "bool \<Rightarrow> ('sock, 'client) NonblockingRpcClient \<Rightarrow> ('sock, 'client) NonblockingRpcClient" where
  "set_done stop rpc = rpc\<lparr>rpc_done_flag := rpc_done_flag rpc \<or> stop\<rparr>"

definition client_send ::
  "('sock \<Rightarrow> 'client result) \<Rightarrow> 'sock attempt list \<Rightarrow> (msg_t \<Rightarrow> 'client \<Rightarrow> unit result) \<Rightarrow> bool \<Rightarrow>
   ('sock, 'client) NonblockingRpcClient \<times> HotstuffProtocolClient \<Rightarrow>
   (msg_t option \<times> ('sock, 'client) NonblockingRpcClient \<times> HotstuffProtocolClient) result option" where
  "client_send make_client attempts call stop rc =
     (case rc of (rpc, c) \<Rightarrow>
        case todo c of
          [] \<Rightarrow> Some (Inr (None, rpc, c))
        | m # _ \<Rightarrow>
            map_option (\<lambda>r.
              bindE r (\<lambda>(success, rpc).
                let rpc = set_done stop rpc;
                    (sent, c) = client_do_work (rpc_done_flag rpc) success c
                in Inr (sent, rpc, c)))
              (try_action_void make_client attempts (rpc_call (call m)) rpc))"

text \<open>
  One iteration of \<open>run\<close> up to the first call: \<open>stop\<close> is whether \<open>done_flag\<close> is set between the
  test in \<open>run\<close> and the one in \<open>do_work\<close>.
\<close>

definition client_begin ::
  "bool \<Rightarrow> ('sock, 'client) NonblockingRpcClient \<times> HotstuffProtocolClient \<Rightarrow>
   ('sock, 'client) NonblockingRpcClient \<times> HotstuffProtocolClient" where
  "client_begin stop rc =
     (case rc of (rpc, c) \<Rightarrow>
        if rpc_done_flag rpc \<or> todo c \<noteq> [] then (rpc, c)
        else
          let c = client_take (rpc_done_flag rpc) c;
              rpc = set_done stop rpc
          in (rpc, client_start_work (rpc_done_flag rpc) c))"

text \<open>An exchange of the fetch worker, up to what it does with the responses.\<close>

definition fetch_exchange ::
  "('sock \<Rightarrow> 'client result) \<Rightarrow> 'sock attempt list \<Rightarrow>
   (Hash list \<Rightarrow> 'client \<Rightarrow> HotstuffBlockWire list result) \<Rightarrow> BlockFetchWorker \<Rightarrow>
   ('sock, 'client) NonblockingRpcClient \<Rightarrow>
   (HotstuffBlockWire list option \<times> ('sock, 'client) NonblockingRpcClient) result option" where
  "fetch_exchange make_client attempts fetch w rpc =
     try_action make_client attempts (rpc_call (fetch (in_flight w))) rpc"

section \<open>The client is a FIFO queue\<close>

definition client_add :: "msg_t \<Rightarrow> HotstuffProtocolClient \<Rightarrow> HotstuffProtocolClient" where
  "client_add m c = (case m of VoteMsg v \<Rightarrow> client_vote v c | ProposeMsg p \<Rightarrow> client_propose p c)"

definition client_next :: "HotstuffProtocolClient \<Rightarrow> (msg_t \<times> HotstuffProtocolClient) option" where
  "client_next c =
     (case client_do_work False True c of (None, _) \<Rightarrow> None | (Some m, c) \<Rightarrow> Some (m, c))"

definition unsent :: "HotstuffProtocolClient \<Rightarrow> msg_t list" where
  "unsent c = todo c @ work c"

interpretation cq: fifo_queue unsent new_HotstuffProtocolClient client_add "client_take False" client_next
  by unfold_locales
    (auto simp: unsent_def new_HotstuffProtocolClient_def client_add_def client_vote_def
      client_propose_def client_take_def client_next_def client_do_work_def split: msg_t.splits list.splits)

section \<open>Delivery\<close>

text \<open>
  What happens to a client: a message is handed over by another thread, the worker takes what has
  accumulated, it makes a pass with the given attempts to connect and the given remote side, or
  another thread tells it to stop.
\<close>

datatype ('sock, 'client) client_op =
    ClientSend msg_t
  | ClientTake bool
  | ClientPass "'sock attempt list" "msg_t \<Rightarrow> 'client \<Rightarrow> unit result" bool
  | ClientStop

fun run_client ::
  "('sock \<Rightarrow> 'client result) \<Rightarrow> ('sock, 'client) client_op list \<Rightarrow>
   ('sock, 'client) NonblockingRpcClient \<times> HotstuffProtocolClient \<Rightarrow>
   (msg_t list \<times> ('sock, 'client) NonblockingRpcClient \<times> HotstuffProtocolClient) result option" where
  "run_client make_client [] rc = Some (Inr ([], rc))"
| "run_client make_client (ClientSend m # ops) rc =
     run_client make_client ops (fst rc, client_add m (snd rc))"
| "run_client make_client (ClientTake stop # ops) rc =
     run_client make_client ops (client_begin stop rc)"
| "run_client make_client (ClientPass attempts call stop # ops) rc =
     (case client_send make_client attempts call stop rc of
        None \<Rightarrow> None
      | Some (Inl e) \<Rightarrow> Some (Inl e)
      | Some (Inr (sent, rc)) \<Rightarrow>
          map_option (\<lambda>r. bindE r (\<lambda>(ms, rc).
              Inr ((case sent of None \<Rightarrow> ms | Some m \<Rightarrow> m # ms), rc)))
            (run_client make_client ops rc))"
| "run_client make_client (ClientStop # ops) rc =
     run_client make_client ops (set_done True (fst rc), snd rc)"

fun handed_over :: "('sock, 'client) client_op list \<Rightarrow> msg_t list" where
  "handed_over [] = []"
| "handed_over (ClientSend m # ops) = m # handed_over ops"
| "handed_over (_ # ops) = handed_over ops"

text \<open>
  What one pass and one iteration do with the messages the client holds: nothing is lost before
  the worker is told to stop, and what it sends comes from the front of what it has taken.
\<close>

lemma wait_done:
  "wait_for_try_open_connection make_client attempts rpc = Some (rpc', rest) \<Longrightarrow> rpc_done_flag rpc \<Longrightarrow>
     rpc_done_flag rpc'"
  by (auto simp: wait_for_try_open_connection_def)

lemma client_send_effect:
  assumes "client_send make_client attempts call stop (rpc, c) = Some (Inr (sent, rpc', c'))"
  shows "rpc_done_flag rpc \<Longrightarrow> rpc_done_flag rpc'"
    and "work c' = work c" and "sent = Some m \<Longrightarrow> todo c = m # todo c'"
    and "sent = None \<Longrightarrow> todo c' = todo c \<or> rpc_done_flag rpc' \<and> todo c' = []"
  using assms wait_done [of make_client attempts rpc]
  by (auto simp: client_send_def client_do_work_def try_action_void_def set_done_def clear_connection_def Let_def
      elim!: bindE_InrE split: list.splits if_splits option.splits sum.splits)

lemma client_begin_effect:
  assumes "client_begin stop (rpc, c) = (rpc', c')"
  shows "rpc_done_flag rpc \<Longrightarrow> rpc' = rpc \<and> c' = c" and "\<not> rpc_done_flag rpc' \<Longrightarrow> rpc' = rpc \<and> unsent c' = unsent c"
    and "rpc_done_flag rpc' \<Longrightarrow> todo c' = todo c \<or> todo c' = []"
  using assms
  by (auto simp: client_begin_def client_take_def client_start_work_def set_done_def unsent_def Let_def
      split: if_splits)

lemma run_client_conserves:
  "run_client make_client ops (rpc, c) = Some (Inr (sent, rpc', c')) \<Longrightarrow>
     (rpc_done_flag rpc \<longrightarrow> rpc_done_flag rpc' \<and> prefix sent (todo c)) \<and>
     (\<not> rpc_done_flag rpc' \<longrightarrow> sent @ unsent c' = unsent c @ handed_over ops) \<and>
     prefix sent (unsent c @ handed_over ops)"
proof (induction ops arbitrary: rpc c sent)
  case (Cons op ops)
  show ?case
  proof (cases op)
    case (ClientSend m)
    have "todo (client_add m c) = todo c"
      by (simp add: client_add_def client_vote_def client_propose_def split: msg_t.splits)
    then show ?thesis
      using Cons.IH [of rpc "client_add m c" sent] Cons.prems ClientSend by (auto simp: cq.pending_add)
  next
    case (ClientTake stop)
    obtain rpc1 c1 where b: "client_begin stop (rpc, c) = (rpc1, c1)" by (cases "client_begin stop (rpc, c)")
    note E = client_begin_effect [OF b] and IH = Cons.IH [of rpc1 c1 sent]
    show ?thesis
    proof (cases "rpc_done_flag rpc1")
      case True
      then have "prefix sent (todo c)" "rpc_done_flag rpc'" using IH E(3) Cons.prems ClientTake b by auto
      then show ?thesis by (auto simp: unsent_def prefix_def)
    next
      case False
      then show ?thesis using IH E(2) Cons.prems ClientTake b by auto
    qed
  next
    case ClientStop
    then have "prefix sent (todo c)" "rpc_done_flag rpc'"
      using Cons.IH [of "set_done True rpc" c sent] Cons.prems by (auto simp: set_done_def)
    then show ?thesis by (auto simp: unsent_def prefix_def)
  next
    case (ClientPass attempts call stop)
    then obtain s rpc2 c2 ms where s: "client_send make_client attempts call stop (rpc, c) = Some (Inr (s, rpc2, c2))"
      and ms: "run_client make_client ops (rpc2, c2) = Some (Inr (ms, rpc', c'))"
        "sent = (case s of None \<Rightarrow> ms | Some m \<Rightarrow> m # ms)"
      using Cons.prems by (auto elim!: bindE_InrE split: option.splits sum.splits prod.splits)
    note E = client_send_effect [OF s] and IH = Cons.IH [OF ms(1)]
    show ?thesis
    proof (cases s)
      case None
      then show ?thesis using E IH ms(2) ClientPass by (auto simp: unsent_def)
    next
      case (Some m)
      then show ?thesis using E(1,2) E(3) [of m] IH ms(2) ClientPass by (auto simp: unsent_def)
    qed
  qed
qed auto

text \<open>A pass over a connection that works delivers the oldest message the worker has taken.\<close>

lemma client_send_succeeds:
  assumes "client rpc = Some cl" "\<And>m. call m cl = Inr ()" "todo c = m # ms"
  shows "client_send make_client attempts call False (rpc, c) = Some (Inr (Some m, rpc, c\<lparr>todo := ms\<rparr>))"
  using assms
  by (simp add: client_send_def try_action_void_def wait_for_try_open_connection_def connection_is_open_def
      rpc_call_def client_do_work_def set_done_def)

lemma client_begin_running:
  "\<not> rpc_done_flag rpc \<Longrightarrow> client_begin False (rpc, c) = (rpc, client_take False c)"
  by (auto simp: client_begin_def client_take_def client_start_work_def set_done_def Let_def)

lemma run_client_drains:
  assumes "client rpc = Some cl" "\<And>m. call m cl = Inr ()" "\<not> rpc_done_flag rpc" "length (unsent c) \<le> n"
  shows "\<exists>c'. run_client make_client (concat (replicate n [ClientTake False, ClientPass attempts call False])) (rpc, c) =
    Some (Inr (unsent c, rpc, c'))"
  using assms(4)
proof (induction n arbitrary: c)
  case (Suc n)
  let ?c = "client_take False c"
  show ?case
  proof (cases "todo ?c")
    case Nil
    then have "unsent c = []"
      by (auto simp: client_take_def unsent_def split: if_splits)
    then show ?thesis
      using Suc.IH [of ?c] Nil cq.pending_take [of c] client_begin_running [OF assms(3)]
      by (auto simp: client_send_def)
  next
    case (Cons m ms)
    have u: "unsent c = m # unsent (?c\<lparr>todo := ms\<rparr>)"
      using Cons cq.pending_take [of c] by (simp add: unsent_def)
    then obtain c' where "run_client make_client (concat (replicate n [ClientTake False, ClientPass attempts call False]))
        (rpc, ?c\<lparr>todo := ms\<rparr>) = Some (Inr (unsent (?c\<lparr>todo := ms\<rparr>), rpc, c'))"
      using Suc.IH [of "?c\<lparr>todo := ms\<rparr>"] Suc.prems by auto
    then show ?thesis
      using u client_send_succeeds [where call = call, OF assms(1,2) Cons] client_begin_running [OF assms(3)] by simp
  qed
qed simp

definition demo_message :: msg_t where
  "demo_message = VoteMsg \<lparr>msg_vote = \<lparr>cert_hash = [1], cert_sig = [2]\<rparr>, msg_voter = 0\<rparr>"

text \<open>
  C30 --- A peer receives the messages in order. Whatever threads hand over messages, however often
  connecting or calling fails, and whenever the worker is told to stop, the messages whose call has
  returned are the first ones that were handed over, in order: none is skipped or overtaken. As long
  as the worker has not been told to stop, what it has not delivered it still holds, so none is lost;
  and once a connection is up and calls succeed, it then delivers everything it holds.
\<close>

theorem client_delivers_in_order:
  assumes run: "run_client make_client ops (new_NonblockingRpcClient, new_HotstuffProtocolClient) =
      Some (Inr (sent, rpc, c))"
  shows "prefix sent (handed_over ops) \<and>
    (\<not> rpc_done_flag rpc \<longrightarrow> sent @ unsent c = handed_over ops \<and>
      (\<forall>cl attempts call. client rpc = Some cl \<longrightarrow> (\<forall>m. call m cl = Inr ()) \<longrightarrow>
        (\<exists>c'. run_client make_client
           (concat (replicate (length (unsent c)) [ClientTake False, ClientPass attempts call False])) (rpc, c) =
             Some (Inr (unsent c, rpc, c')))))"
  using run_client_conserves [OF run] run_client_drains [of rpc _ _ c "length (unsent c)"]
  by (simp add: cq.pending_empty)

theorem client_delivers_in_order_witness:
  "\<exists>sent rpc c.
     run_client (\<lambda>s. Inr s)
       [ClientSend demo_message, ClientTake False, ClientPass [(Inr (7 :: nat), False)] (\<lambda>_ _. Inl XdrError) False,
        ClientSend demo_message, ClientPass [(Inl XdrError, False), (Inr 8, False)] (\<lambda>_ _. Inr ()) False]
       (new_NonblockingRpcClient, new_HotstuffProtocolClient) = Some (Inr (sent, rpc, c)) \<and>
     sent = [demo_message] \<and> sent @ unsent c = [demo_message, demo_message] \<and>
     prefix sent [demo_message, demo_message]"
proof -
  let ?m = demo_message
  let ?ops = "[ClientSend ?m, ClientTake False, ClientPass [(Inr (7 :: nat), False)] (\<lambda>_ _. Inl XdrError) False,
        ClientSend ?m, ClientPass [(Inl XdrError, False), (Inr 8, False)] (\<lambda>_ _. Inr ()) False]"
  have run: "run_client (\<lambda>s. Inr s) ?ops (new_NonblockingRpcClient, new_HotstuffProtocolClient) =
      Some (Inr ([?m], \<lparr>socket = Some 8, client = Some 8, rpc_done_flag = False\<rparr>, \<lparr>todo = [], work = [?m]\<rparr>))"
    by (simp add: client_add_def client_vote_def client_take_def client_begin_def client_start_work_def set_done_def
        client_send_def client_do_work_def demo_message_def Let_def
        new_NonblockingRpcClient_def new_HotstuffProtocolClient_def try_action_void_def connected_def
        wait_for_try_open_connection_def connection_is_open_def try_open_connected rpc_call_def
        clear_connection_def)
  show ?thesis
    using client_delivers_in_order [OF run] run by auto
qed

end
