(* ===== verification/VMRuns.thy ===== *)
theory VMRuns
  imports VMBridge Events
begin

text \<open>
  How the virtual machine is driven: the invariant of the asynchronous interface, what the worker
  thread leaves behind when it is idle, and what the two bridges make the machine execute.
\<close>

section \<open>The worker thread\<close>

lemma run_validate_simps [simp]:
  "blocks_to_validate (run_validate vm ci) = []"
  "highest_committed_id (run_validate vm ci) = highest_committed_id ci"
  "proposal_buffer (run_validate vm ci) = proposal_buffer ci"
  "additional_proposal_requests (run_validate vm ci) = additional_proposal_requests ci"
  "is_proposer (run_validate vm ci) = is_proposer ci"
  "vm_configs (run_validate vm ci) = vm_configs ci"
  "PROPOSAL_BUFFER_TARGET (run_validate vm ci) = PROPOSAL_BUFFER_TARGET ci"
  "done_flag (run_validate vm ci) = done_flag ci"
  by (simp_all add: run_validate_def)

lemma run_commit_keeps:
  assumes "run_commit vm ci = Inr ci'"
  shows "blocks_to_validate ci' = blocks_to_validate ci" "highest_committed_id ci' = None"
    "proposal_buffer ci' = proposal_buffer ci"
    "additional_proposal_requests ci' = additional_proposal_requests ci"
    "is_proposer ci' = is_proposer ci" "vm_configs ci' = vm_configs ci"
    "PROPOSAL_BUFFER_TARGET ci' = PROPOSAL_BUFFER_TARGET ci" "done_flag ci' = done_flag ci"
  using assms by (auto simp: run_commit_def elim!: bindE_InrE split: option.splits)

lemma run_step_cases:
  assumes "run_step vm ci = Inr ci'"
  obtains ci1 where "run_commit vm (run_validate vm ci) = Inr ci1" "run_propose vm ci1 = Inr ci'"
  using assms by (auto simp: run_step_def elim!: bindE_InrE)

text \<open>An iteration empties the two queues of work and makes at most one proposal.\<close>

lemma run_step_work:
  assumes "run_step vm ci = Inr ci'"
  shows "blocks_to_validate ci' = []" "highest_committed_id ci' = None"
    "additional_proposal_requests ci' = additional_proposal_requests ci - 1"
    "is_proposer ci' = is_proposer ci" "vm_configs ci' = vm_configs ci"
    "PROPOSAL_BUFFER_TARGET ci' = PROPOSAL_BUFFER_TARGET ci" "done_flag ci' = done_flag ci"
    "length (proposal_buffer ci') + additional_proposal_requests ci' =
       length (proposal_buffer ci) + additional_proposal_requests ci"
    "\<exists>bs. proposal_buffer ci' = proposal_buffer ci @ bs"
proof -
  obtain ci1 where c: "run_commit vm (run_validate vm ci) = Inr ci1" and p: "run_propose vm ci1 = Inr ci'"
    using assms by (rule run_step_cases)
  note k = run_commit_keeps [OF c]
  show "blocks_to_validate ci' = []" "highest_committed_id ci' = None"
    "additional_proposal_requests ci' = additional_proposal_requests ci - 1"
    "is_proposer ci' = is_proposer ci" "vm_configs ci' = vm_configs ci"
    "PROPOSAL_BUFFER_TARGET ci' = PROPOSAL_BUFFER_TARGET ci" "done_flag ci' = done_flag ci"
    "length (proposal_buffer ci') + additional_proposal_requests ci' =
       length (proposal_buffer ci) + additional_proposal_requests ci"
    "\<exists>bs. proposal_buffer ci' = proposal_buffer ci @ bs"
    using p k by (auto simp: run_propose_def Let_def case_prod_beta split: if_splits)
qed

text \<open>
  The worker becomes idle: \<open>additional_proposal_requests\<close> and one more iterations are enough.
\<close>

lemma run_steps_idle:
  "run_steps vm n ci = Inr ci' \<Longrightarrow> additional_proposal_requests ci < n \<Longrightarrow>
     done_flag ci' \<or> \<not> vmci_exists_work_to_do ci'"
proof (induction n arbitrary: ci)
  case (Suc n)
  show ?case
  proof (cases "done_flag ci \<or> \<not> vmci_exists_work_to_do ci")
    case True
    then show ?thesis using Suc.prems by auto
  next
    case False
    then obtain ci1 where s: "run_step vm ci = Inr ci1" and r: "run_steps vm n ci1 = Inr ci'"
      using Suc.prems by (auto elim!: bindE_InrE)
    note w = run_step_work [OF s]
    show ?thesis
    proof (cases "additional_proposal_requests ci1 < n")
      case True
      then show ?thesis using Suc.IH [OF r] by blast
    next
      case False
      then have "n = 0" "additional_proposal_requests ci1 = 0" using w(3) Suc.prems(2) by auto
      then show ?thesis using r w(1,2) by (simp add: vmci_exists_work_to_do_def)
    qed
  qed
qed simp

definition finish_await :: "('vb, 'vs) VMBase \<Rightarrow> ('vb, 'vs) await" where
  "finish_await vm ci = run_steps vm (Suc (additional_proposal_requests ci)) ci"

lemma finish_await_laws: "async_worker_laws vm (finish_await vm)"
  unfolding async_worker_laws_def
proof (intro allI conjI impI)
  fix ci
  show "\<exists>n. finish_await vm ci = run_steps vm n ci" unfolding finish_await_def by blast
  show "done_flag ci' \<or> \<not> vmci_exists_work_to_do ci'" if "finish_await vm ci = Inr ci'" for ci'
    using run_steps_idle [OF that [unfolded finish_await_def]] by simp
qed

section \<open>The invariant of the interface\<close>

text \<open>
  The calls other threads make, and an iteration of the worker. \<open>VMTerminate\<close> is the destructor's
  request to stop.
\<close>

datatype 'vb vm_op =
    VMRun | VMSetProposer | VMGetProposal nat | VMSubmit "'vb option" | VMLogCommitment VMBlockID
  | VMRewind | VMInitClean | VMInitFromDisk LogAccessWrapper | VMStopProposals | VMTerminate

fun vm_op_step ::
  "('vb, 'vs) VMBase \<Rightarrow> ('vb, 'vs) await \<Rightarrow> 'vb vm_op \<Rightarrow> ('vb, 'vs) VMControlInterface \<Rightarrow>
   ('vb, 'vs) VMControlInterface result" where
  "vm_op_step vm await VMRun ci = run_steps vm 1 ci"
| "vm_op_step vm await VMSetProposer ci = Inr (set_proposer ci)"
| "vm_op_step vm await (VMGetProposal sched) ci = bindE (get_proposal vm sched ci) (\<lambda>(_, ci). Inr ci)"
| "vm_op_step vm await (VMSubmit b) ci = submit_block_for_exec await b ci"
| "vm_op_step vm await (VMLogCommitment i) ci = log_commitment await i ci"
| "vm_op_step vm await VMRewind ci = finish_work_and_force_rewind vm await ci"
| "vm_op_step vm await VMInitClean ci = Inr (vmci_init_clean vm ci)"
| "vm_op_step vm await (VMInitFromDisk log) ci = vmci_init_from_disk vm log ci"
| "vm_op_step vm await VMStopProposals ci = Inr (vmci_stop_proposals ci)"
| "vm_op_step vm await VMTerminate ci = Inr (ci\<lparr>done_flag := True\<rparr>)"

definition vmci_ok :: "HotstuffConfigs \<Rightarrow> ('vb, 'vs) VMControlInterface \<Rightarrow> bool" where
  "vmci_ok cfgs ci \<longleftrightarrow>
     vm_configs ci = cfgs \<and> PROPOSAL_BUFFER_TARGET ci \<le> proposal_buffer_target cfgs \<and>
     length (proposal_buffer ci) + additional_proposal_requests ci \<le> proposal_buffer_target cfgs \<and>
     (additional_proposal_requests ci > 0 \<longrightarrow> is_proposer ci)"

lemma vmci_ok_run_step: "vmci_ok cfgs ci \<Longrightarrow> run_step vm ci = Inr ci' \<Longrightarrow> vmci_ok cfgs ci'"
  using run_step_work [of vm ci ci'] by (auto simp: vmci_ok_def)

lemma vmci_ok_run_steps: "run_steps vm n ci = Inr ci' \<Longrightarrow> vmci_ok cfgs ci \<Longrightarrow> vmci_ok cfgs ci'"
  by (induction n arbitrary: ci) (auto elim!: bindE_InrE dest: vmci_ok_run_step split: if_splits)

lemma vmci_ok_await:
  assumes "async_worker_laws vm await" "await ci = Inr ci'" "vmci_ok cfgs ci"
  shows "vmci_ok cfgs ci'"
  using assms vmci_ok_run_steps unfolding async_worker_laws_def by metis

lemma vmci_ok_get_proposal:
  assumes "get_proposal vm sched ci = Inr (b, ci')" "vmci_ok cfgs ci"
  shows "vmci_ok cfgs ci'"
proof (cases "is_proposer ci \<and> \<not> done_flag ci")
  case False
  then show ?thesis using assms by (auto simp: get_proposal_def split: if_splits)
next
  case True
  then obtain ci1 where w: "get_proposal_wait vm sched ci = Inr ci1"
    using assms(1) by (auto simp: get_proposal_def elim!: bindE_InrE)
  have ok1: "vmci_ok cfgs ci1"
    using w assms(2) True vmci_ok_run_steps [of vm "Suc sched" _ ci1 cfgs]
    by (fastforce simp: get_proposal_wait_def vmci_ok_def Let_def simp del: run_steps.simps split: if_splits)
  have "is_proposer ci1" if "run_steps vm n c = Inr ci1" "is_proposer c" for n c
    using that by (induction n arbitrary: c) (auto elim!: bindE_InrE dest: run_step_work(4) split: if_splits)
  then have "is_proposer ci1"
    using w True by (auto simp: get_proposal_wait_def Let_def simp del: run_steps.simps split: if_splits)
  then show ?thesis
    using assms(1) True w ok1
    by (auto simp: get_proposal_def vmci_ok_def Let_def split: list.splits if_splits)
qed

lemma vmci_ok_op:
  assumes "async_worker_laws vm await" "vmci_ok cfgs ci" "vm_op_step vm await op ci = Inr ci'"
  shows "vmci_ok cfgs ci'"
proof (cases op)
  case VMRun
  then show ?thesis using assms vmci_ok_run_steps [of vm 1 ci ci'] by simp
next
  case (VMGetProposal sched)
  then show ?thesis using assms vmci_ok_get_proposal by (auto elim!: bindE_InrE)
qed (use assms vmci_ok_await [OF assms(1) _ assms(2)] in
  \<open>auto simp: set_proposer_def submit_block_for_exec_def log_commitment_def finish_work_and_force_rewind_def
    vmci_init_clean_def vmci_init_from_disk_def vmci_stop_proposals_def clear_proposal_settings_def
    vmci_ok_def Let_def elim!: bindE_InrE split: if_splits\<close>)

inductive vm_reach ::
  "('vb, 'vs) VMBase \<Rightarrow> ('vb, 'vs) await \<Rightarrow> HotstuffConfigs \<Rightarrow> ('vb, 'vs) VMControlInterface \<Rightarrow> bool"
  for vm await cfgs where
  vm_new: "vm_reach vm await cfgs (new_VMControlInterface vs cfgs)"
| vm_step: "vm_reach vm await cfgs ci \<Longrightarrow> vm_op_step vm await op ci = Inr ci' \<Longrightarrow> vm_reach vm await cfgs ci'"

lemma vm_reach_ok: "vm_reach vm await cfgs ci \<Longrightarrow> async_worker_laws vm await \<Longrightarrow> vmci_ok cfgs ci"
proof (induction rule: vm_reach.induct)
  case (vm_new vs)
  then show ?case by (simp add: vmci_ok_def new_VMControlInterface_def)
next
  case (vm_step ci op ci')
  then show ?case using vmci_ok_op by blast
qed

lemma run_propose_returns: "vmci_ok cfgs ci \<Longrightarrow> returns (run_propose vm ci)"
  by (auto simp: run_propose_def vmci_ok_def case_prod_beta Let_def)

lemma run_step_throws:
  assumes ok: "vmci_ok cfgs ci" and e: "run_step vm ci = Inl e"
  shows "\<exists>i s. highest_committed_id ci = Some i \<and> vm_log_commitment vm i s = Inl e"
proof (cases "run_commit vm (run_validate vm ci)")
  case (Inl e')
  then show ?thesis
    using e by (auto simp: run_step_def run_commit_def bindE_eq_Inl split: option.splits)
next
  case (Inr ci1)
  have "vmci_ok cfgs ci1" using ok run_commit_keeps [OF Inr] by (simp add: vmci_ok_def)
  from run_propose_returns [OF this, of vm] show ?thesis
    using e Inr by (cases "run_propose vm ci1") (simp_all add: run_step_def)
qed

text \<open>
  C32 --- The asynchronous machine. However the calls of other threads interleave with the
  worker, the buffered proposals together with the requested ones never exceed the configured target, and the
  worker never throws an exception of its own: the exception \<open>vm thread woke up early\<close>
  is unreachable, and whatever ends the thread was thrown by \<open>log_commitment\<close> of the machine. The worker
  becomes idle within as many iterations as proposals are requested and one more.
\<close>

theorem vm_interface_invariant:
  assumes "async_worker_laws vm await" "vm_reach vm await cfgs ci"
  shows "length (proposal_buffer ci) + additional_proposal_requests ci \<le> proposal_buffer_target cfgs \<and>
    (\<forall>e. run_step vm ci = Inl e \<longrightarrow> (\<exists>i s. highest_committed_id ci = Some i \<and> vm_log_commitment vm i s = Inl e)) \<and>
    (\<forall>ci'. run_steps vm (Suc (additional_proposal_requests ci)) ci = Inr ci' \<longrightarrow>
       done_flag ci' \<or> \<not> vmci_exists_work_to_do ci')"
  using vm_reach_ok [OF assms(2,1)] run_step_throws [of cfgs ci vm]
    run_steps_idle [of vm "Suc (additional_proposal_requests ci)" ci]
  by (auto simp: vmci_ok_def simp del: run_steps.simps)

theorem vm_interface_invariant_witness:
  "\<exists>ci. vm_reach (counting_vm demo_env) (finish_await (counting_vm demo_env)) default_HotstuffConfigs ci \<and>
     additional_proposal_requests ci = 3 \<and>
     length (proposal_buffer ci) + additional_proposal_requests ci \<le> 3"
proof -
  let ?vm = "counting_vm demo_env" and ?cfgs = default_HotstuffConfigs
  let ?s = "\<lparr>vm_state = 0, last_committed_state = 0\<rparr>"
  let ?ci = "(new_VMControlInterface \<lparr>vm_state = 1, last_committed_state = 0\<rparr> ?cfgs)
    \<lparr>is_proposer := True, additional_proposal_requests := 3\<rparr>
    :: (CountingVMBlock, CountingVM) VMControlInterface"
  note defs = default_HotstuffConfigs_def new_VMControlInterface_def set_proposer_def counting_vm_def
    get_proposal_def get_proposal_wait_def vmci_exists_work_to_do_def run_step_def run_validate_def
    run_commit_def run_propose_def counting_propose_def
  have "vm_reach ?vm (finish_await ?vm) ?cfgs (new_VMControlInterface ?s ?cfgs)" by (rule vm_new)
  from vm_step [OF this, of VMSetProposer "set_proposer (new_VMControlInterface ?s ?cfgs)"]
  have "vm_reach ?vm (finish_await ?vm) ?cfgs (set_proposer (new_VMControlInterface ?s ?cfgs))" by simp
  moreover have "vm_op_step ?vm (finish_await ?vm) (VMGetProposal 0)
      (set_proposer (new_VMControlInterface ?s ?cfgs)) = Inr ?ci"
    by (simp add: defs)
  ultimately have r: "vm_reach ?vm (finish_await ?vm) ?cfgs ?ci" by (rule vm_step)
  show ?thesis
    using vm_interface_invariant [OF finish_await_laws r] r
    by (intro exI [of _ ?ci]) (simp add: default_HotstuffConfigs_def)
qed

section \<open>Proposals of the machine\<close>

lemma run_steps_returns:
  assumes "vmci_ok cfgs ci" "highest_committed_id ci = None"
  shows "\<exists>ci' bs. run_steps vm n ci = Inr ci' \<and> proposal_buffer ci' = proposal_buffer ci @ bs"
  using assms
proof (induction n arbitrary: ci)
  case (Suc n)
  show ?case
  proof (cases "done_flag ci \<or> \<not> vmci_exists_work_to_do ci")
    case True
    then show ?thesis by auto
  next
    case False
    obtain ci1 where s: "run_step vm ci = Inr ci1"
      using run_step_throws [OF Suc.prems(1), of vm] Suc.prems(2) by (cases "run_step vm ci") auto
    obtain ci' bs where "run_steps vm n ci1 = Inr ci'" "proposal_buffer ci' = proposal_buffer ci1 @ bs"
      using Suc.IH [OF vmci_ok_run_step [OF Suc.prems(1) s] run_step_work(2) [OF s]] by blast
    then show ?thesis
      using False s run_step_work(9) [OF s] by auto
  qed
qed simp

lemma get_proposal_wait_fresh:
  assumes ok: "vmci_ok cfgs ci" and p: "is_proposer ci" "\<not> done_flag ci" "PROPOSAL_BUFFER_TARGET ci > 0"
    and e: "proposal_buffer ci = []" and c: "run_commit vm (run_validate vm ci) = Inr ci1"
  shows "\<exists>ci' bs. get_proposal_wait vm sched ci = Inr ci' \<and>
    proposal_buffer ci' = fst (propose vm (vm_instance ci1)) # bs"
proof -
  let ?n = "max (additional_proposal_requests ci) (PROPOSAL_BUFFER_TARGET ci)"
  let ?ci = "ci\<lparr>additional_proposal_requests := ?n\<rparr>"
  let ?ci2 = "ci1\<lparr>vm_instance := snd (propose vm (vm_instance ci1)),
      proposal_buffer := [fst (propose vm (vm_instance ci1))], additional_proposal_requests := ?n - 1\<rparr>"
  note k = run_commit_keeps [OF c]
  have "run_commit vm (run_validate vm ?ci) = Inr (ci1\<lparr>additional_proposal_requests := ?n\<rparr>)"
    using c by (auto simp: run_commit_def run_validate_def bindE_eq_Inr split: option.splits)
  then have s: "run_step vm ?ci = Inr ?ci2"
    using p e k by (simp add: run_step_def run_propose_def case_prod_beta Let_def)
  have okci: "vmci_ok cfgs ?ci" using ok p e by (auto simp: vmci_ok_def)
  obtain ci' bs where r: "run_steps vm sched ?ci2 = Inr ci'" "proposal_buffer ci' = proposal_buffer ?ci2 @ bs"
    using run_steps_returns [OF vmci_ok_run_step [OF okci s] run_step_work(2) [OF s]] by blast
  have ci: "(if additional_proposal_requests ci < PROPOSAL_BUFFER_TARGET ci
      then ci\<lparr>additional_proposal_requests := PROPOSAL_BUFFER_TARGET ci\<rparr> else ci) = ?ci"
    by (simp add: max_def)
  have "vmci_exists_work_to_do ?ci" using p by (simp add: vmci_exists_work_to_do_def less_max_iff_disj)
  then have "run_steps vm (Suc sched) ?ci = Inr ci'" using p s r(1) by simp
  then have "get_proposal_wait vm sched ci = Inr ci'"
    unfolding get_proposal_wait_def Let_def ci using e p by (simp del: run_steps.simps)
  then show ?thesis using r(2) by auto
qed

text \<open>
  C33 --- Asking the machine for a proposal. In proposer mode, unless proposals are stopped or the
  process shuts down, \<open>get_proposal\<close> returns, however long the worker runs in between. It returns the oldest
  buffered proposal; if there is none, the worker first executes and commits what is
  waiting and the result is the first block the machine proposes after that.
\<close>

theorem get_proposal_returns:
  assumes "async_worker_laws vm await" "vm_reach vm await cfgs ci"
    and "is_proposer ci" "\<not> done_flag ci" "PROPOSAL_BUFFER_TARGET ci > 0"
    and "run_commit vm (run_validate vm ci) = Inr ci1"
  shows "\<exists>ci'. get_proposal vm sched ci =
    Inr (if proposal_buffer ci = [] then fst (propose vm (vm_instance ci1)) else hd (proposal_buffer ci), ci')"
proof (cases "proposal_buffer ci")
  case Nil
  obtain ci' bs where "get_proposal_wait vm sched ci = Inr ci'"
    "proposal_buffer ci' = fst (propose vm (vm_instance ci1)) # bs"
    using get_proposal_wait_fresh [OF vm_reach_ok [OF assms(2,1)] assms(3-5) Nil assms(6), of sched] by blast
  then show ?thesis using Nil assms(3,4) by (simp add: get_proposal_def)
next
  case (Cons b bs)
  then show ?thesis using assms(3,4) by (simp add: get_proposal_def get_proposal_wait_def)
qed

theorem get_proposal_returns_witness:
  "\<exists>ci'. get_proposal (counting_vm demo_env) 1
     (set_proposer (new_VMControlInterface \<lparr>vm_state = 4, last_committed_state = 4\<rparr> default_HotstuffConfigs)) =
     Inr (Some 5, ci')"
proof -
  let ?vm = "counting_vm demo_env"
  let ?ci = "new_VMControlInterface \<lparr>vm_state = 4, last_committed_state = 4\<rparr> default_HotstuffConfigs
    :: (CountingVMBlock, CountingVM) VMControlInterface"
  have r: "vm_reach ?vm (finish_await ?vm) default_HotstuffConfigs (set_proposer ?ci)"
    by (rule vm_step [OF vm_new, of _ _ VMSetProposer]) simp
  show ?thesis
    using get_proposal_returns [OF finish_await_laws r, of "set_proposer ?ci" 1]
    by (simp add: set_proposer_def new_VMControlInterface_def default_HotstuffConfigs_def run_commit_def
        run_validate_def counting_vm_def counting_propose_def)
qed

section \<open>A machine that follows\<close>

text \<open>The state of the machine once the worker has done what waits for it.\<close>

definition machine :: "('vb, 'vs) VMBase \<Rightarrow> ('vb, 'vs) VMControlInterface \<Rightarrow> 'vs result" where
  "machine vm ci = bindE (run_commit vm (run_validate vm ci)) (\<lambda>ci. Inr (vm_instance ci))"

definition following :: "('vb, 'vs) VMControlInterface \<Rightarrow> bool" where
  "following ci \<longleftrightarrow> \<not> is_proposer ci \<and> additional_proposal_requests ci = 0 \<and> \<not> done_flag ci"

definition idle :: "('vb, 'vs) VMControlInterface \<Rightarrow> bool" where
  "idle ci \<longleftrightarrow> blocks_to_validate ci = [] \<and> highest_committed_id ci = None"

lemma machine_idle: "idle ci \<Longrightarrow> machine vm ci = Inr (vm_instance ci)"
  by (simp add: machine_def idle_def run_commit_def run_validate_def)

lemma await_settles:
  assumes laws: "async_worker_laws vm await" and f: "following ci" and m: "machine vm ci = Inr s"
  obtains ci' where "await ci = Inr ci'" "following ci'" "idle ci'" "vm_instance ci' = s"
proof -
  obtain n where n: "await ci = run_steps vm n ci"
    and fin: "\<And>ci'. await ci = Inr ci' \<Longrightarrow> done_flag ci' \<or> \<not> vmci_exists_work_to_do ci'"
    using laws unfolding async_worker_laws_def by metis
  obtain c1 where c: "run_commit vm (run_validate vm ci) = Inr c1" "vm_instance c1 = s"
    using m by (auto simp: machine_def elim!: bindE_InrE)
  note k = run_commit_keeps [OF c(1)]
  have s1: "run_step vm ci = Inr c1"
    using c k f by (simp add: run_step_def run_propose_def following_def)
  have no: "\<not> vmci_exists_work_to_do c1" "following c1" "idle c1"
    using k f by (simp_all add: vmci_exists_work_to_do_def following_def idle_def)
  have stop: "run_steps vm j c1 = Inr c1" for j using no(1) by (cases j) simp_all
  show thesis
  proof (cases "vmci_exists_work_to_do ci")
    case True
    then obtain j where "n = Suc j" using n fin [of ci] f by (cases n) (auto simp: following_def)
    then have "await ci = Inr c1" using n s1 stop True f by (simp add: following_def)
    then show thesis using that no c(2) by blast
  next
    case False
    then have "await ci = Inr ci" using n by (cases n) simp_all
    moreover have "idle ci" using False by (simp add: vmci_exists_work_to_do_def idle_def)
    ultimately show thesis using that f m machine_idle [of ci vm] by auto
  qed
qed

text \<open>
  What a decided block does to the machine: it is executed and its id is logged. A body that does
  not parse is skipped, and a block without an id is not logged.
\<close>

definition decided_effect :: "('vb, 'vs) VMBase \<Rightarrow> HotstuffBlock \<Rightarrow> 'vs \<Rightarrow> 'vs result" where
  "decided_effect vm blk s =
     (case try_parse vm (get_wire_body blk) of
        None \<Rightarrow> Inr s
      | Some b \<Rightarrow>
          if VMBlockID_bool (get_id vm b) then vm_log_commitment vm (get_id vm b) (exec_block vm b s)
          else Inr (exec_block vm b s))"

text \<open>A bridge of a replica that does not propose, at committed height \<open>c\<close>, with the machine in state \<open>s\<close>.\<close>

definition follower_bridge ::
  "('vb, 'vs) VMBase \<Rightarrow> uint64 \<Rightarrow> 'vs \<Rightarrow> ('vb, 'vs) HotstuffVMBridge \<Rightarrow> bool" where
  "follower_bridge vm c s br \<longleftrightarrow>
     initialized br \<and> gadget_ok (speculation_map br) \<and> gadget_abs (speculation_map br) = (c, []) \<and>
     following (vm_interface br) \<and> machine vm (vm_interface br) = Inr s"

lemma submit_settles:
  assumes "async_worker_laws vm await" "following ci" "machine vm ci = Inr s"
  obtains ci' where "submit_block_for_exec await b ci = Inr ci'" "following ci'"
    "machine vm ci' = Inr (case b of None \<Rightarrow> s | Some blk \<Rightarrow> exec_block vm blk s)"
proof -
  obtain ci1 where ci1: "await ci = Inr ci1" "following ci1" "idle ci1" "vm_instance ci1 = s"
    using await_settles [OF assms] .
  let ?ci = "(clear_proposal_settings ci1)\<lparr>blocks_to_validate := [b]\<rparr>"
  have sub: "submit_block_for_exec await b ci = Inr ?ci"
    using ci1 by (simp add: submit_block_for_exec_def clear_proposal_settings_def idle_def)
  have "following ?ci" using ci1(2) by (simp add: following_def clear_proposal_settings_def)
  moreover have "machine vm ?ci = Inr (case b of None \<Rightarrow> s | Some blk \<Rightarrow> exec_block vm blk s)"
    using ci1(3,4) by (simp add: machine_def clear_proposal_settings_def run_commit_def run_validate_def idle_def)
  ultimately show thesis by (rule that [OF sub])
qed

lemma log_commitment_settles:
  assumes "async_worker_laws vm await" "following ci" "machine vm ci = Inr s"
    and "(if VMBlockID_bool i then vm_log_commitment vm i s else Inr s) = Inr s'"
  obtains ci' where "log_commitment await i ci = Inr ci'" "following ci'" "machine vm ci' = Inr s'"
proof -
  obtain ci1 where ci1: "await ci = Inr ci1" "following ci1" "idle ci1" "vm_instance ci1 = s"
    using await_settles [OF assms(1-3)] .
  let ?ci = "if VMBlockID_bool i then ci1\<lparr>highest_committed_id := Some i\<rparr> else ci1"
  have "log_commitment await i ci = Inr ?ci" using ci1(1) by (simp add: log_commitment_def)
  moreover have "following ?ci" using ci1(2) by (simp add: following_def)
  moreover have "machine vm ?ci = Inr s'"
    using ci1(3,4) assms(4)
    by (auto simp: machine_def run_commit_def run_validate_def idle_def split: if_splits)
  ultimately show thesis by (rule that)
qed

lemma gadget_add_commit:
  assumes "gadget_ok g" "gadget_abs g = (c, [])"
  obtains g1 g2 where "gadget_lock g = Inr (g\<lparr>mtx_held := True\<rparr>)"
    "add_height_pair (c + 1) v (g\<lparr>mtx_held := True\<rparr>) = Inr g1"
    "on_commit_hotstuff (c + 1) (gadget_unlock g1) = Inr (v, g2)"
    "gadget_ok g2" "gadget_abs g2 = (c + 1, [])"
proof -
  let ?g = "g\<lparr>mtx_held := True\<rparr>"
  have g: "gadget_inv ?g" "speculated ?g = []" "highest_committed_height ?g = c" "\<not> mtx_held g"
    using assms by (simp_all add: gadget_ok_def gadget_abs_def)
  have head: "c + 1 = speculation_head_hotstuff_height ?g" using head_height [OF g(1)] g(2,3) by simp
  obtain g1 where g1: "add_height_pair (c + 1) v ?g = Inr g1" "gadget_inv g1" "speculated g1 = [v]"
    "highest_committed_height g1 = c"
    using add_height_pair_ok [OF g(1) head, of v] g(2,3) by (metis append_Nil)
  have u: "gadget_inv (gadget_unlock g1)" "\<not> mtx_held (gadget_unlock g1)" "speculated (gadget_unlock g1) = [v]"
    "c + 1 = highest_committed_height (gadget_unlock g1) + 1"
    using g1 by (simp_all add: gadget_unlock_def)
  obtain g2 where "on_commit_hotstuff (c + 1) (gadget_unlock g1) = Inr (v, g2)" "gadget_inv g2"
    "speculated g2 = []" "\<not> mtx_held g2" "highest_committed_height g2 = c + 1"
    by (rule on_commit_ok [OF u])
  then show thesis
    using that [OF _ g1(1)] g(4) by (simp add: gadget_lock_def gadget_ok_def gadget_abs_def)
qed

text \<open>Applying a decided block and announcing the commitment, as \<open>update\<close> does for each block.\<close>

lemma follower_commits:
  assumes laws: "async_worker_laws vm await" and f: "follower_bridge vm c s br"
    and h: "block_height blk = c + 1" and eff: "decided_effect vm blk s = Inr s'"
  obtains br1 br2 where
    "bridge_apply_block env vm await blk txn br =
       Inr (add_decided_block env blk (get_block_id vm (try_parse vm (get_wire_body blk))) txn, br1)"
    "bridge_notify_vm_of_commitment await blk br1 = Inr br2" "follower_bridge vm (c + 1) s' br2"
proof -
  let ?v = "try_parse vm (get_wire_body blk)"
  let ?i = "get_block_id vm ?v"
  have br: "initialized br" "gadget_ok (speculation_map br)" "gadget_abs (speculation_map br) = (c, [])"
    "following (vm_interface br)" "machine vm (vm_interface br) = Inr s"
    using f by (simp_all add: follower_bridge_def)
  have empty: "gadget_empty (speculation_map br)"
    using br(2,3) gadget_empty_iff by (auto simp: gadget_ok_def gadget_abs_def)
  obtain g1 g2 where g: "gadget_lock (speculation_map br) = Inr ((speculation_map br)\<lparr>mtx_held := True\<rparr>)"
    "add_height_pair (c + 1) ?i ((speculation_map br)\<lparr>mtx_held := True\<rparr>) = Inr g1"
    "on_commit_hotstuff (c + 1) (gadget_unlock g1) = Inr (?i, g2)" "gadget_ok g2" "gadget_abs g2 = (c + 1, [])"
    by (rule gadget_add_commit [OF br(2,3)])
  obtain ci1 where ci1: "submit_block_for_exec await ?v (vm_interface br) = Inr ci1" "following ci1"
    "machine vm ci1 = Inr (case ?v of None \<Rightarrow> s | Some b \<Rightarrow> exec_block vm b s)"
    by (rule submit_settles [OF laws br(4,5)])
  have "(if VMBlockID_bool ?i then vm_log_commitment vm ?i (case ?v of None \<Rightarrow> s | Some b \<Rightarrow> exec_block vm b s)
      else Inr (case ?v of None \<Rightarrow> s | Some b \<Rightarrow> exec_block vm b s)) = Inr s'"
    using eff by (auto simp: decided_effect_def get_block_id_def empty_block_id_def nonempty_block_id_def
        VMBlockID_bool_def split: option.splits)
  then obtain ci2 where ci2: "log_commitment await ?i ci1 = Inr ci2" "following ci2" "machine vm ci2 = Inr s'"
    by (rule log_commitment_settles [OF laws ci1(2,3)])
  show thesis
  proof (rule that)
    show "bridge_apply_block env vm await blk txn br = Inr (add_decided_block env blk ?i txn,
        br\<lparr>speculation_map := gadget_unlock g1, vm_interface := ci1\<rparr>)"
      using br(1) empty g(1,2) ci1(1) h
      by (simp add: bridge_apply_block_def init_guard_def Let_def gadget_empty_def)
    show "bridge_notify_vm_of_commitment await blk
        (br\<lparr>speculation_map := gadget_unlock g1, vm_interface := ci1\<rparr>) =
        Inr (br\<lparr>speculation_map := g2, vm_interface := ci2\<rparr>)"
      using br(1) g(3) ci2(1) h by (simp add: bridge_notify_vm_of_commitment_def init_guard_def)
    show "follower_bridge vm (c + 1) s' (br\<lparr>speculation_map := g2, vm_interface := ci2\<rparr>)"
      using br(1) g(4,5) ci2(2,3) by (simp add: follower_bridge_def)
  qed
qed

section \<open>A replica that has speculated\<close>

text \<open>
  C34 --- A decided block on a replica that has executed proposals ahead of consensus. If the block
  is the oldest one it has executed, then it is recorded and nothing is executed again; otherwise the
  code that should rewind the machine acquires a mutex its own thread already holds and never returns.
\<close>

theorem apply_block_speculated:
  assumes "initialized br" "gadget_ok (speculation_map br)" "speculated (speculation_map br) = v # vs"
  shows "bridge_apply_block env vm await blk txn br =
    (let i = get_block_id vm (try_parse vm (get_wire_body blk)) in
     if i = v then Inr (add_decided_block env blk i txn, br) else Inl Deadlock)"
proof -
  let ?g = "speculation_map br"
  have g: "gadget_inv ?g" "\<not> mtx_held ?g" using assms(2) by (simp_all add: gadget_ok_def)
  obtain n ns where n: "height_map ?g = n # ns" "node_value n = v" using assms(3) by (auto simp: speculated_def)
  then obtain it where "last_elt_iter ?g = Some it" using g(1) by (simp add: gadget_inv_def)
  moreover have "br\<lparr>speculation_map := ?g\<lparr>mtx_held := False\<rparr>\<rparr> = br" using g(2) by simp
  ultimately show ?thesis
    using assms(1) g n
    by (simp add: bridge_apply_block_def init_guard_def gadget_lock_def gadget_unlock_def gadget_empty_def
        get_lowest_speculative_hotstuff_height_def revert_to_last_commitment_def gadget_clear_def Let_def)
qed

definition speculating_bridge :: "(CountingVMBlock, CountingVM) HotstuffVMBridge" where
  "speculating_bridge =
     (bridge_init_clean (counting_vm demo_env)
        (new_HotstuffVMBridge \<lparr>vm_state = 0, last_committed_state = 0\<rparr> default_HotstuffConfigs))
      \<lparr>speculation_map := new_SpeculativeExecGadget\<lparr>
         height_map := [\<lparr>node_id = 0, node_height = 1, node_value = Some [1]\<rparr>], last_elt_iter := Some 0,
         next_node := 1, speculation_head_hotstuff_height := 2\<rparr>\<rparr>"

theorem apply_block_speculated_witness:
  "bridge_apply_block demo_env (counting_vm demo_env) (finish_await (counting_vm demo_env))
     new_HotstuffBlock_genesis (open_txn demo_env demo_new_db) speculating_bridge = Inl Deadlock"
proof -
  have "initialized speculating_bridge" "gadget_ok (speculation_map speculating_bridge)"
    "speculated (speculation_map speculating_bridge) = Some [1] # []"
    by (simp_all add: speculating_bridge_def bridge_init_clean_def gadget_ok_def gadget_inv_def
        new_SpeculativeExecGadget_def speculated_def)
  moreover have "get_block_id (counting_vm demo_env)
      (try_parse (counting_vm demo_env) (get_wire_body new_HotstuffBlock_genesis)) = None"
    by (simp add: get_block_id_def empty_block_id_def counting_vm_def counting_try_parse_def get_wire_body_def
        new_HotstuffBlock_genesis_def demo_env_def)
  ultimately show ?thesis
    using apply_block_speculated [of speculating_bridge "Some [1]" "[]" demo_env "counting_vm demo_env"]
    by (simp add: Let_def)
qed

end
