(* ===== verification/Execution.thy ===== *)
theory Execution
  imports Demo_Chain VMRuns
begin

text \<open>
  What a commit makes the virtual machine do, for the two applications: \<open>update_commit\<close> walks from the
  last executed block to the committed one, and the machine executes exactly the blocks on this path,
  lowest first.
\<close>

section \<open>The path\<close>

lemma linked_from_cong:
  assumes "same_links h h'" "linked_from h b vs a"
  shows "linked_from h' b vs a"
  using assms(2)
proof (induction vs arbitrary: b)
  case (Cons v vs)
  then show ?case
    using same_links_nth [OF assms(1), of v] same_links_length [OF assms(1)] by simp
qed simp

lemma linked_from_end: "linked_from h b vs a \<Longrightarrow> b < length h \<Longrightarrow> a < length h"
  by (induction vs arbitrary: b) auto

lemma linked_from_heights:
  assumes "heap_wf h" "linked_from h b (v # vs) a"
  shows "v < length h" "block_height (h ! v) = block_height (h ! b) + 1"
proof -
  show v: "v < length h" using assms(2) by simp
  have "unat (block_height (h ! v)) = Suc (unat (block_height (h ! b)))"
    using heap_wfD(5) [OF assms(1) v, of b] assms(2) by simp
  then have "(word_of_nat (unat (block_height (h ! v))) :: uint64) = word_of_nat (Suc (unat (block_height (h ! b))))"
    by simp
  then show "block_height (h ! v) = block_height (h ! b) + 1" by (simp add: add.commute)
qed

text \<open>The loop of \<open>update\<close> finds the path.\<close>

lemma descend_path:
  assumes "heap_wf h" "b < length h" "linked_from h b vs a"
  shows "descend h (block_height (h ! b)) a [] = Some (Inr (b, vs))"
proof -
  have above: "block_height (h ! b) \<le> block_height (h ! c)" if "linked_from h b ws c" for ws c
    using extends_height [OF linked_from_extends [OF that assms(2)] assms(1)] .
  have "descend h (block_height (h ! b)) a acc = Some (Inr (b, vs @ acc))" for acc
    using assms(3)
  proof (induction vs arbitrary: a acc rule: rev_induct)
    case Nil
    then show ?case using assms(2) by (subst descend.simps) (simp add: deref_def)
  next
    case (snoc v vs)
    then obtain c where c: "v = a" "a < length h" "parent_block_ptr (h ! a) = Some c" "linked_from h b vs c"
      by (auto simp: linked_from_snoc)
    have "block_height (h ! b) < block_height (h ! a)"
      using heap_wfD(5) [OF assms(1) c(2,3)] above [OF c(4)] by (simp add: word_less_nat_alt word_le_nat_alt)
    then show ?case
      using snoc.IH [OF c(4), of "a # acc"] c by (subst descend.simps) (simp add: deref_def)
  qed
  from this [of "[]"] show ?thesis by simp
qed

section \<open>HotstuffApp\<close>

lemma commit_one_follower:
  assumes laws: "async_worker_laws vm await" and v: "v < length (heap st)"
    and f: "follower_bridge vm c s (vm_bridge st)" "block_height (heap st ! v) = c + 1"
    and eff: "decided_effect vm (heap st ! v) s = Inr s'"
  obtains txn' st' where "commit_one (app_virtuals env vm await) v (txn, st) = Inr (txn', st')"
    "follower_bridge vm (c + 1) s' (vm_bridge st')"
    "heap st' = upd_block v (\<lambda>b. b\<lparr>decided := True\<rparr>) (heap st)"
proof -
  let ?h = "upd_block v (\<lambda>b. b\<lparr>decided := True\<rparr>) (heap st)"
  have b: "?h ! v = (heap st ! v)\<lparr>decided := True\<rparr>" "v < length ?h"
    using v by (simp_all add: upd_block_def)
  have "block_height (?h ! v) = c + 1" "decided_effect vm (?h ! v) s = Inr s'"
    using f(2) eff by (simp_all add: b(1) decided_effect_def get_wire_body_def)
  then obtain txn1 br1 br2 where br: "bridge_apply_block env vm await (?h ! v) txn (vm_bridge st) = Inr (txn1, br1)"
    "bridge_notify_vm_of_commitment await (?h ! v) br1 = Inr br2" "follower_bridge vm (c + 1) s' br2"
    using follower_commits [OF laws f(1), of "?h ! v" s' env txn] by metis
  have "commit_one (app_virtuals env vm await) v (txn, st) = Inr (txn1, st\<lparr>heap := ?h, vm_bridge := br2\<rparr>)"
    using br v b(2)
    by (simp add: commit_one_def decide_def deref_def app_virtuals_def app_apply_block_def
        app_notify_vm_of_commitment_def)
  then show thesis using that [of txn1 "st\<lparr>heap := ?h, vm_bridge := br2\<rparr>"] br(3) by simp
qed

lemma decided_effect_upd:
  "decided_effect vm (upd_block v (\<lambda>b. b\<lparr>decided := True\<rparr>) h ! a) = decided_effect vm (h ! a)"
  by (cases "v < length h"; cases "a = v")
    (simp_all add: fun_eq_iff upd_block_def decided_effect_def get_wire_body_def list_update_beyond)

lemma commit_loop_follower:
  assumes laws: "async_worker_laws vm await"
  shows "linked_from (heap st) b vs a \<Longrightarrow> heap_wf (heap st) \<Longrightarrow>
     follower_bridge vm (block_height (heap st ! b)) s (vm_bridge st) \<Longrightarrow>
     foldE (\<lambda>v. decided_effect vm (heap st ! v)) vs s = Inr s' \<Longrightarrow>
     \<exists>txn' st'. foldE (commit_one (app_virtuals env vm await)) vs (txn, st) = Inr (txn', st') \<and>
       follower_bridge vm (block_height (heap st ! a)) s' (vm_bridge st') \<and> same_links (heap st) (heap st')"
proof (induction vs arbitrary: b s txn st)
  case (Cons v vs)
  note hv = linked_from_heights [OF Cons.prems(2,1)]
  obtain s1 where s1: "decided_effect vm (heap st ! v) s = Inr s1"
    "foldE (\<lambda>v. decided_effect vm (heap st ! v)) vs s1 = Inr s'"
    using Cons.prems(4) by (auto elim!: bindE_InrE)
  obtain txn1 st1 where one: "commit_one (app_virtuals env vm await) v (txn, st) = Inr (txn1, st1)"
    "follower_bridge vm (block_height (heap st ! b) + 1) s1 (vm_bridge st1)"
    "heap st1 = upd_block v (\<lambda>b. b\<lparr>decided := True\<rparr>) (heap st)"
    by (rule commit_one_follower [OF laws hv(1) Cons.prems(3) hv(2) s1(1)])
  have sl: "same_links (heap st) (heap st1)"
    unfolding one(3) by (rule same_links_upd [OF hv(1)]) (simp add: links_def get_hash_def)
  have a: "a < length (heap st)" using linked_from_end [of "heap st" v vs a] Cons.prems(1) hv(1) by simp
  have "linked_from (heap st1) v vs a" "heap_wf (heap st1)"
    using linked_from_cong [OF sl, of v vs a] same_links_wf [OF sl] Cons.prems(1,2) by simp_all
  moreover have "follower_bridge vm (block_height (heap st1 ! v)) s1 (vm_bridge st1)"
    using one(2) hv same_links_nth(7) [OF sl hv(1)] by simp
  moreover have "foldE (\<lambda>v. decided_effect vm (heap st1 ! v)) vs s1 = Inr s'"
    using s1(2) by (simp add: one(3) decided_effect_upd)
  ultimately obtain txn' st' where "foldE (commit_one (app_virtuals env vm await)) vs (txn1, st1) = Inr (txn', st')"
    "follower_bridge vm (block_height (heap st1 ! a)) s' (vm_bridge st')" "same_links (heap st1) (heap st')"
    using Cons.IH [of st1 v s1 txn1] by blast
  then show ?case
    using one(1) same_links_nth(7) [OF sl a] same_links_trans [OF sl] by auto
qed auto

text \<open>
  C27 --- State machine replication. On a replica that does not propose, committing a block succeeds
  and makes the machine execute exactly the blocks between the last executed block and the committed one, in
  order, and log each of them as committed; bodies that do not parse are skipped. No id is skipped by
  two commits in a row, which the comment above \<open>log_commitment\<close> allows for: each call first waits for
  the worker. The machine then waits at the height of the committed block, ready for the next commit. This assumes that the machine accepts
  the ids of its own blocks, and that the block above carries a parsed certificate.
\<close>

theorem follower_executes_decided:
  assumes "async_worker_laws vm await" "heap_wf (heap st)" "b_exec st < length (heap st)"
    and "linked_from (heap st) (b_exec st) vs blk"
    and "follower_bridge vm (block_height (heap st ! b_exec st)) s (vm_bridge st)"
    and "foldE (\<lambda>v. decided_effect vm (heap st ! v)) vs s = Inr s'"
    and "blk1 < length (heap st)" "parsed_qc (heap st ! blk1) \<noteq> None"
  shows "\<exists>st'. update_commit (app_virtuals env vm await) env blk1 blk st = Inr st' \<and> b_exec st' = blk \<and>
    follower_bridge vm (block_height (heap st' ! blk)) s' (vm_bridge st')"
proof -
  let ?vt = "app_virtuals env vm await"
  have blk: "blk < length (heap st)" using linked_from_end [OF assms(4,3)] .
  have d: "descend (heap st) (block_height (heap st ! b_exec st)) blk [] = Some (Inr (b_exec st, vs))"
    using descend_path [OF assms(2-4)] .
  obtain txn1 st1 where loop: "foldE (commit_one ?vt) vs (open_txn env (decided_hash_index st), st) = Inr (txn1, st1)"
    and f: "follower_bridge vm (block_height (heap st ! blk)) s' (vm_bridge st1)" "same_links (heap st) (heap st1)"
    using commit_loop_follower [OF assms(1,4,2,5,6), of env "open_txn env (decided_hash_index st)"]
    by (elim exE conjE)
  have len: "length (heap st1) = length (heap st)" using f(2) by (rule same_links_length)
  have height: "block_height (heap st1 ! blk) = block_height (heap st ! blk)" using f(2) blk by (rule same_links_nth(7))
  obtain qc where qc: "parsed_qc (heap st1 ! blk1) = Some qc"
    using assms(8) same_links_nth(2) [OF f(2) assms(7)] by auto
  have "update_commit ?vt env blk1 blk st = finish_commit ?vt env blk1 blk (txn1, st1)"
    using d assms(3) loop by (simp add: update_commit_def deref_def loop_result_def)
  also have "\<dots> = base_notify_ok_to_prune_blocks (block_height (heap st1 ! blk))
      (st1\<lparr>b_exec := blk, decided_hash_index := commit env (set_qc_on_top_block env qc txn1) (decided_hash_index st1)\<rparr>)"
    using assms(7) blk len qc by (simp add: finish_commit_def deref_def get_justify_qc_def app_virtuals_def)
  finally show ?thesis
    using f(1) height by (simp add: base_notify_ok_to_prune_blocks_def)
qed

text \<open>A replica whose next committed block has a body: the first number the counting machine accepts.\<close>

definition counting_chain :: block_heap where
  "counting_chain = demo_chain[1 := (demo_chain ! 1)\<lparr>wire_block :=
     (wire_block (demo_chain ! 1))\<lparr>body := counting_serialize demo_env 1\<rparr>\<rparr>]"

lemma counting_chain_links: "same_links demo_chain counting_chain"
  by (simp add: same_links_def counting_chain_def demo_chain_def links_def chain_block_def get_hash_def)

lemma counting_chain_path: "linked_from counting_chain 0 [1] 1"
  by (rule linked_from_cong [OF counting_chain_links]) simp

lemma counting_machine_fields [simp]:
  "try_parse (counting_vm env) = counting_try_parse env" "get_id (counting_vm env) = counting_get_id env"
  "exec_block (counting_vm env) = counting_exec_block"
  "vm_log_commitment (counting_vm env) = counting_log_commitment env"
  by (simp_all add: counting_vm_def)

lemma counting_chain_effect:
  "decided_effect demo_vm (counting_chain ! 1) \<lparr>vm_state = 0, last_committed_state = 0\<rparr> =
     Inr \<lparr>vm_state = 1, last_committed_state = 1\<rparr>"
proof -
  have "xdr_uint64_from_opaque demo_env (xdr_uint64_to_opaque demo_env 1) = Some 1"
    using demo_xdr_laws unfolding xdr_laws_def by blast
  then show ?thesis
    by (simp add: decided_effect_def counting_chain_def get_wire_body_def counting_try_parse_def
        counting_serialize_def counting_get_id_def VMBlockID_of_bytes_def VMBlockID_bool_def
        counting_exec_block_def counting_log_commitment_def)
qed

lemma demo_bridge_follows:
  "follower_bridge demo_vm 0 \<lparr>vm_state = 0, last_committed_state = 0\<rparr> (vm_bridge demo_state)"
  by (simp add: follower_bridge_def demo_state_def bridge_init_clean_def new_HotstuffVMBridge_def gadget_ok_def
      gadget_abs_def new_VMControlInterface_def following_def machine_def run_commit_def run_validate_def
      vmci_init_clean_def counting_vm_def counting_init_clean_def)
    (simp add: new_SpeculativeExecGadget_def)

theorem follower_executes_decided_witness:
  "\<exists>st'. update_commit (app_virtuals demo_env demo_vm (finish_await demo_vm)) demo_env 2 1
       (demo_state\<lparr>heap := counting_chain\<rparr>) = Inr st' \<and>
     follower_bridge demo_vm (block_height (heap st' ! 1)) \<lparr>vm_state = 1, last_committed_state = 1\<rparr> (vm_bridge st')"
proof -
  have "heap_wf counting_chain" using same_links_wf [OF counting_chain_links demo_chain_wf] .
  moreover have "length counting_chain = 5" "counting_chain ! 0 = new_HotstuffBlock_genesis"
    "counting_chain ! 2 = chain_block 2 2 1 [1]"
    by (simp_all add: counting_chain_def)
  ultimately show ?thesis
    using follower_executes_decided [OF finish_await_laws, of "demo_state\<lparr>heap := counting_chain\<rparr>" "[1]" 1
        demo_vm "\<lparr>vm_state = 0, last_committed_state = 0\<rparr>" "\<lparr>vm_state = 1, last_committed_state = 1\<rparr>" 2 demo_env]
      demo_bridge_follows counting_chain_path counting_chain_effect
    by (auto simp: demo_state_def)
qed

section \<open>NonspeculativeHotstuffApp\<close>

text \<open>The machine's block in a decided block, if its body parses.\<close>

definition parsed_body :: "('vb, 'vs) VMBase \<Rightarrow> HotstuffBlock \<Rightarrow> 'vb option" where
  "parsed_body vm blk = try_parse vm (get_wire_body blk)"

lemma parsed_body_upd:
  "parsed_body vm (upd_block v (\<lambda>b. b\<lparr>decided := True\<rparr>) h ! a) = parsed_body vm (h ! a)"
  by (cases "v < length h"; cases "a = v")
    (simp_all add: upd_block_def parsed_body_def get_wire_body_def list_update_beyond)

lemma ns_commit_one:
  assumes "v < length (heap st)" "ns_initialized (ns_vm_bridge st)"
  shows "parsed_body vm (heap st ! v) = None \<Longrightarrow> commit_one (ns_virtuals env vm) v (txn, st) = Inl NullDeref"
    and "parsed_body vm (heap st ! v) = Some b \<Longrightarrow>
      \<exists>txn'. commit_one (ns_virtuals env vm) v (txn, st) = Inr (txn',
        st\<lparr>heap := upd_block v (\<lambda>b. b\<lparr>decided := True\<rparr>) (heap st),
           ns_vm_bridge := (ns_vm_bridge st)\<lparr>ns_vm := exec_block vm b (ns_vm (ns_vm_bridge st))\<rparr>\<rparr>)"
  using assms
  by (simp_all add: commit_one_def decide_def deref_def upd_block_def ns_virtuals_def ns_app_apply_block_def
      ns_apply_block_def ns_app_notify_vm_of_commitment_def ns_notify_vm_of_commitment_def init_guard_def
      parsed_body_def get_wire_body_def Let_def)

lemma ns_commit_loop:
  "\<forall>v \<in> set vs. v < length (heap st) \<Longrightarrow> ns_initialized (ns_vm_bridge st) \<Longrightarrow>
   (if \<forall>v \<in> set vs. parsed_body vm (heap st ! v) \<noteq> None
    then \<exists>txn' st'. foldE (commit_one (ns_virtuals env vm)) vs (txn, st) = Inr (txn', st') \<and>
      ns_vm (ns_vm_bridge st') =
        fold (\<lambda>v. exec_block vm (the (parsed_body vm (heap st ! v)))) vs (ns_vm (ns_vm_bridge st)) \<and>
      same_links (heap st) (heap st')
    else foldE (commit_one (ns_virtuals env vm)) vs (txn, st) = Inl NullDeref)"
proof (induction vs arbitrary: txn st)
  case (Cons v vs)
  have v: "v < length (heap st)" using Cons.prems(1) by simp
  show ?case
  proof (cases "parsed_body vm (heap st ! v)")
    case None
    then show ?thesis using ns_commit_one(1) [OF v Cons.prems(2) None, of env txn] by simp
  next
    case (Some b)
    define st1 where "st1 = st\<lparr>heap := upd_block v (\<lambda>b. b\<lparr>decided := True\<rparr>) (heap st),
           ns_vm_bridge := (ns_vm_bridge st)\<lparr>ns_vm := exec_block vm b (ns_vm (ns_vm_bridge st))\<rparr>\<rparr>"
    obtain txn1 where one: "commit_one (ns_virtuals env vm) v (txn, st) = Inr (txn1, st1)"
      using ns_commit_one(2) [OF v Cons.prems(2) Some, of env txn] unfolding st1_def by (elim exE)
    have sl: "same_links (heap st) (heap st1)"
      unfolding st1_def by simp (rule same_links_upd [OF v], simp add: links_def get_hash_def)
    have p: "parsed_body vm (heap st1 ! a) = parsed_body vm (heap st ! a)" for a
      by (simp add: st1_def parsed_body_upd)
    have "\<forall>v \<in> set vs. v < length (heap st1)" "ns_initialized (ns_vm_bridge st1)"
      using Cons.prems by (simp_all add: st1_def upd_block_def)
    from Cons.IH [OF this, of txn1] show ?thesis
      using one Some same_links_trans [OF sl] by (auto simp: p) (auto simp: st1_def)
  qed
qed simp

text \<open>
  C28 --- State machine replication without speculation. Committing a block makes the machine execute
  exactly the blocks between the last executed block and the committed one, in order, provided the body
  of every one of them parses. If one of them does not, for instance because it is empty, then
  the commit dereferences a null pointer.
\<close>

theorem nonspec_executes_decided:
  assumes "heap_wf (heap st)" "b_exec st < length (heap st)" "linked_from (heap st) (b_exec st) vs blk"
    and "ns_initialized (ns_vm_bridge st)" "blk1 < length (heap st)" "parsed_qc (heap st ! blk1) \<noteq> None"
  shows "if \<forall>v \<in> set vs. parsed_body vm (heap st ! v) \<noteq> None
    then \<exists>st'. update_commit (ns_virtuals env vm) env blk1 blk st = Inr st' \<and> b_exec st' = blk \<and>
      ns_vm (ns_vm_bridge st') =
        fold (\<lambda>v. exec_block vm (the (parsed_body vm (heap st ! v)))) vs (ns_vm (ns_vm_bridge st))
    else update_commit (ns_virtuals env vm) env blk1 blk st = Inl NullDeref"
proof -
  let ?vt = "ns_virtuals env vm"
  let ?loop = "foldE (commit_one ?vt) vs (open_txn env (decided_hash_index st), st)"
  have blk: "blk < length (heap st)" using linked_from_end [OF assms(3,2)] .
  have upd: "update_commit ?vt env blk1 blk st = bindE ?loop (finish_commit ?vt env blk1 blk)"
    using descend_path [OF assms(1-3)] assms(2) by (simp add: update_commit_def deref_def loop_result_def)
  have fin: "\<exists>st'. finish_commit ?vt env blk1 blk (txn1, st1) = Inr st' \<and> b_exec st' = blk \<and>
      ns_vm_bridge st' = ns_vm_bridge st1" if sl: "same_links (heap st) (heap st1)" for txn1 st1
    using assms(5,6) blk same_links_length [OF sl] same_links_nth(2) [OF sl assms(5)]
    by (auto simp: finish_commit_def deref_def get_justify_qc_def ns_virtuals_def base_notify_ok_to_prune_blocks_def Let_def)
  have vs: "\<forall>v \<in> set vs. v < length (heap st)" using linked_from_members [OF assms(3)] by blast
  show ?thesis
  proof (cases "\<forall>v \<in> set vs. parsed_body vm (heap st ! v) \<noteq> None")
    case True
    then obtain txn1 st1 where l: "?loop = Inr (txn1, st1)" "ns_vm (ns_vm_bridge st1) =
        fold (\<lambda>v. exec_block vm (the (parsed_body vm (heap st ! v)))) vs (ns_vm (ns_vm_bridge st))"
      "same_links (heap st) (heap st1)"
      using ns_commit_loop [OF vs assms(4), of vm env "open_txn env (decided_hash_index st)"] by auto
    show ?thesis using True upd l fin [OF l(3), of txn1] by auto
  next
    case False
    then show ?thesis
      using ns_commit_loop [OF vs assms(4), of vm env "open_txn env (decided_hash_index st)"] upd by auto
  qed
qed

definition ns_demo_state :: "(demo_db, CountingVM) NonspeculativeHotstuffApp" where
  "ns_demo_state = HotstuffAppBase.extend (HotstuffAppBase.truncate demo_state)
     (NonspeculativeHotstuffApp.fields (ns_init_clean demo_vm
        (new_NonspeculativeVMBridge \<lparr>vm_state = 0, last_committed_state = 0\<rparr>)))"

lemma ns_demo_fields [simp]:
  "heap ns_demo_state = demo_chain" "b_exec ns_demo_state = 0" "ns_initialized (ns_vm_bridge ns_demo_state)"
  "ns_vm (ns_vm_bridge ns_demo_state) = \<lparr>vm_state = 0, last_committed_state = 0\<rparr>"
  by (simp_all add: ns_demo_state_def HotstuffAppBase.defs NonspeculativeHotstuffApp.defs demo_state_def
      ns_init_clean_def new_NonspeculativeVMBridge_def counting_vm_def counting_init_clean_def)

lemma demo_bodies:
  "parsed_body demo_vm (counting_chain ! 1) = Some 1" "parsed_body demo_vm (demo_chain ! 1) = None"
proof -
  have "xdr_uint64_from_opaque demo_env (xdr_uint64_to_opaque demo_env 1) = Some 1"
    "xdr_uint64_from_opaque demo_env [] = None"
    using demo_xdr_laws unfolding xdr_laws_def by auto
  then show "parsed_body demo_vm (counting_chain ! 1) = Some 1" "parsed_body demo_vm (demo_chain ! 1) = None"
    by (simp_all add: parsed_body_def counting_chain_def get_wire_body_def counting_try_parse_def
        counting_serialize_def chain_block_def)
qed

theorem nonspec_executes_decided_witness:
  "(\<exists>st'. update_commit (ns_virtuals demo_env demo_vm) demo_env 2 1 (ns_demo_state\<lparr>heap := counting_chain\<rparr>) = Inr st' \<and>
      vm_state (ns_vm (ns_vm_bridge st')) = 1) \<and>
   update_commit (ns_virtuals demo_env demo_vm) demo_env 2 1 ns_demo_state = Inl NullDeref"
proof
  have "heap_wf counting_chain" using same_links_wf [OF counting_chain_links demo_chain_wf] .
  moreover have "length counting_chain = 5" "counting_chain ! 0 = new_HotstuffBlock_genesis"
    "counting_chain ! 2 = chain_block 2 2 1 [1]"
    by (simp_all add: counting_chain_def)
  ultimately show "\<exists>st'. update_commit (ns_virtuals demo_env demo_vm) demo_env 2 1
      (ns_demo_state\<lparr>heap := counting_chain\<rparr>) = Inr st' \<and> vm_state (ns_vm (ns_vm_bridge st')) = 1"
    using nonspec_executes_decided [of "ns_demo_state\<lparr>heap := counting_chain\<rparr>" "[1]" 1 2 demo_vm demo_env]
      counting_chain_path demo_bodies(1)
    by (auto simp: counting_exec_block_def)
  show "update_commit (ns_virtuals demo_env demo_vm) demo_env 2 1 ns_demo_state = Inl NullDeref"
    using nonspec_executes_decided [of ns_demo_state "[1]" 1 2 demo_vm demo_env] demo_chain_wf demo_bodies(2)
    by simp
qed

end
