(* ===== verification/Restart.thy ===== *)
theory Restart
  imports Demo_Chain
begin

text \<open>
  Restarting a replica from its files and its index of decided blocks (\<open>init_from_disk\<close> of
  \<^verbatim>\<open>src/hotstuff/hotstuff.h\<close>, \<open>reload_decided_blocks\<close> of \<^verbatim>\<open>hotstuff.cc\<close>, \<open>reload_state_from_index\<close> of
  \<^verbatim>\<open>consensus.cc\<close>): the decided chain comes back, linked and in order.
\<close>

section \<open>A log of decided blocks\<close>

text \<open>The hashes of the chain that the entries of the index describe, from the genesis block up.\<close>

definition log_hashes :: "(bytes \<times> bytes) list \<Rightarrow> Hash list" where
  "log_hashes entries = zero_hash # map (\<lambda>kv. take 32 (snd kv)) entries"

text \<open>
  A log a replica can be restarted from: every entry has a file with the block of that hash, the
  block's parent is the block of the previous entry, its certificate is for a block further down, and no
  hash occurs twice.
\<close>

definition log_ok ::
  "('bv, 'db, 'tx) env \<Rightarrow> ReplicaInfo \<Rightarrow> disk \<Rightarrow> (bytes \<times> bytes) list \<Rightarrow> bool" where
  "log_ok env info d entries \<longleftrightarrow>
     distinct (log_hashes entries) \<and>
     (\<forall>i < length entries.
        32 \<le> length (snd (entries ! i)) \<and>
        (\<exists>w. load_block env (log_hashes entries ! Suc i) info d = Inr (Some w) \<and>
           hash_header env (header w) = Inr (log_hashes entries ! Suc i) \<and>
           parent_hash (header w) = log_hashes entries ! i \<and>
           justify (header_qc (header w)) \<in> set (take (Suc i) (log_hashes entries))))"

lemma log_hashes_Suc [simp]: "i < length entries \<Longrightarrow> log_hashes entries ! Suc i = take 32 (snd (entries ! i))"
  by (simp add: log_hashes_def)

lemma length_log_hashes [simp]: "length (log_hashes entries) = Suc (length entries)"
  by (simp add: log_hashes_def)

lemma nth_notin_take: "distinct xs \<Longrightarrow> k < length xs \<Longrightarrow> xs ! k \<notin> set (take k xs)"
  by (subst (asm) id_take_nth_drop [of k xs]) auto

section \<open>Reloading\<close>

text \<open>The state after the first \<open>k\<close> entries: block \<open>i\<close> of the chain is at address \<open>i\<close>.\<close>

definition chain_loaded :: "Hash list \<Rightarrow> nat \<Rightarrow> block_heap \<Rightarrow> BlockStore \<Rightarrow> bool" where
  "chain_loaded H k h bs \<longleftrightarrow>
     length h = Suc k \<and>
     (\<forall>i \<le> k. get_hash (h ! i) = H ! i \<and> block_height (h ! i) = of_nat i \<and> decided (h ! i) \<and>
        parent_block_ptr (h ! i) = (if i = 0 then None else Some (i - 1)) \<and>
        block_cache bs (H ! i) = Some i) \<and>
     (\<forall>hash. hash \<notin> set (take (Suc k) H) \<longrightarrow> block_cache bs hash = None)"

lemma chain_loadedD:
  assumes "chain_loaded H k h bs"
  shows "length h = Suc k"
    and "i \<le> k \<Longrightarrow> get_hash (h ! i) = H ! i" and "i \<le> k \<Longrightarrow> block_height (h ! i) = of_nat i"
    and "i \<le> k \<Longrightarrow> decided (h ! i)" and "i \<le> k \<Longrightarrow> block_cache bs (H ! i) = Some i"
    and "i \<le> k \<Longrightarrow> parent_block_ptr (h ! i) = (if i = 0 then None else Some (i - 1))"
    and "hash \<notin> set (take (Suc k) H) \<Longrightarrow> block_cache bs hash = None"
  using assms by (simp_all add: chain_loaded_def)

lemma reload_entry:
  assumes log: "log_ok env info (files st) entries" and k: "k < length entries"
    and info: "get_info (config st) (self_id st) = Inr info"
    and l: "chain_loaded (log_hashes entries) k (heap st) (block_store st)"
  obtains h bs where
    "reload_one env (entries ! k) (n, st) = Inr (of_nat (Suc k), st\<lparr>heap := h, block_store := bs\<rparr>)"
    "chain_loaded (log_hashes entries) (Suc k) h bs"
proof -
  let ?H = "log_hashes entries" and ?h = "heap st" and ?bs = "block_store st"
  note D = chain_loadedD [OF l]
  obtain w where w: "load_block env (?H ! Suc k) info (files st) = Inr (Some w)"
    "hash_header env (header w) = Inr (?H ! Suc k)" "parent_hash (header w) = ?H ! k"
    "justify (header_qc (header w)) \<in> set (take (Suc k) ?H)" and len: "32 \<le> length (snd (entries ! k))"
    using log k unfolding log_ok_def by blast
  obtain j where "j < length (take (Suc k) ?H)" "take (Suc k) ?H ! j = justify (header_qc (header w))"
    using w(4) unfolding in_set_conv_nth by (elim exE conjE)
  then have j: "j \<le> k" "justify (header_qc (header w)) = ?H ! j" using k by simp_all
  have dist: "distinct ?H" using log by (simp add: log_ok_def)
  have new: "?H ! Suc k \<notin> set (take (Suc k) ?H)"
    using nth_notin_take [OF dist, of "Suc k"] k by simp
  obtain b where b: "new_HotstuffBlock_from_disk env w = Inr b" "get_hash b = ?H ! Suc k"
    "get_parent_hash b = ?H ! k" "get_justify_hash b = Inr (?H ! j)" "decided b"
    using w(2,3) j(2) by (simp add: new_HotstuffBlock_from_disk_def get_hash_def get_parent_hash_def
        get_justify_hash_def get_justify_qc_def new_QuorumCertificate_def parse_QuorumCertificate_def Let_def)
  let ?b = "b\<lparr>parent_block_ptr := Some k, block_height := of_nat k + 1, justify_block_ptr := Some j\<rparr>"
  let ?store = "?bs\<lparr>block_cache := (block_cache ?bs)(?H ! Suc k \<mapsto> Suc k),
      gc_collector := gc_add_block (Suc k) (gc_collector ?bs)\<rparr>"
  have load: "load_decided_block env (?H ! Suc k) info (files st) ?h = Inr (Suc k, ?h @ [b])"
    using w(1) b(1) D(1) by (simp add: load_decided_block_def alloc_block_def)
  have ins: "insert_block (Suc k) (?h @ [b]) ?bs =
      Inr (\<lparr>missing_parent = None, missing_justify = None\<rparr>, ?h @ [?b], ?store)"
    using b D(1) D(3,5) [of k] D(5) [OF j(1)] D(7) [OF new]
    by (simp add: insert_block_def deref_def set_parent_def set_justify_def upd_block_def nth_append emplace_def
        list_update_append)
  have "reload_one env (entries ! k) (n, st) = Inr (of_nat (Suc k), st\<lparr>heap := ?h @ [?b], block_store := ?store\<rparr>)"
    using len k info load ins D(1)
    by (simp add: reload_one_def cursor_deref_def get_hash_from_lmdb_value_def deref_def nth_append
        MissingDependencies_bool_def add.commute)
  moreover have "chain_loaded ?H (Suc k) (?h @ [?b]) ?store"
  proof -
    have "take (Suc (Suc k)) ?H = take (Suc k) ?H @ [?H ! Suc k]" using k by (simp add: take_Suc_conv_app_nth)
    moreover have "?H ! i \<noteq> ?H ! Suc k" if "i \<le> k" for i
      using nth_eq_iff_index_eq [OF dist, of i "Suc k"] that k by simp
    ultimately show ?thesis
      using D b by (auto simp: chain_loaded_def nth_append le_Suc_eq get_hash_def)
  qed
  ultimately show thesis by (rule that)
qed

lemma reload_entries:
  assumes log: "log_ok env info (files st) entries" and info: "get_info (config st) (self_id st) = Inr info"
  shows "k \<le> length entries \<Longrightarrow> chain_loaded (log_hashes entries) k h bs \<Longrightarrow>
    \<exists>h' bs'. foldE (reload_one env) (drop k entries) (of_nat k, st\<lparr>heap := h, block_store := bs\<rparr>) =
        Inr (of_nat (length entries), st\<lparr>heap := h', block_store := bs'\<rparr>) \<and>
      chain_loaded (log_hashes entries) (length entries) h' bs'"
proof (induction "length entries - k" arbitrary: k h bs)
  case 0
  then show ?case by auto
next
  case (Suc m)
  then have k: "k < length entries" by simp
  let ?st = "st\<lparr>heap := h, block_store := bs\<rparr>"
  have "log_ok env info (files ?st) entries" "get_info (config ?st) (self_id ?st) = Inr info"
    "chain_loaded (log_hashes entries) k (heap ?st) (block_store ?st)"
    using log info Suc.prems(2) by simp_all
  then obtain h1 bs1 where one: "reload_one env (entries ! k) (of_nat k, ?st) =
      Inr (of_nat (Suc k), ?st\<lparr>heap := h1, block_store := bs1\<rparr>)"
    "chain_loaded (log_hashes entries) (Suc k) h1 bs1"
    using reload_entry [OF _ k, of env info ?st] by blast
  have "drop k entries = entries ! k # drop (Suc k) entries" using k by (simp add: Cons_nth_drop_Suc)
  then show ?case using Suc.hyps(1) [OF _ _ one(2)] Suc.hyps(2) k one(1) by simp
qed

text \<open>A process that has just been constructed: the store holds the genesis block only.\<close>

lemma fresh_chain_loaded:
  assumes "new_HotstuffAppBase env cfg rid sk db d = Inr st"
  shows "chain_loaded (log_hashes entries) 0 (heap st) (block_store st)" "files st = d" "config st = cfg"
    "self_id st = rid" "fst (hqc st) = 0" "decided_hash_index st = db" "\<exists>info. get_info cfg rid = Inr info"
  using assms
  by (auto simp: new_HotstuffAppBase_def new_HotstuffCore_def HotstuffAppBase.defs HotstuffCore.defs genesis_block_def
      alloc_block_def new_BlockStore_def chain_loaded_def log_hashes_def emplace_def deref_def elim!: bindE_InrE)

lemma reload_state:
  assumes l: "chain_loaded H n (heap st) (block_store st)" and n: "n < 2 ^ 64" "fst (hqc st) = 0"
    and qc: "get_highest_qc env (decided_hash_index st) = Inr qc" "obj_hash qc = H ! n"
  obtains st' where "reload_state_from_index (app_virtuals env vm await) env st = Inr st'"
    "heap st' = heap st" "block_store st' = block_store st" "vm_bridge st' = vm_bridge st" "config st' = config st"
    "self_id st' = self_id st" "files st' = files st" "decided_hash_index st' = decided_hash_index st"
    "b_exec st' = n" "b_lock st' = n" "fst (hqc st') = n" "vheight st' = ucast (of_nat n :: uint64)"
proof -
  note D = chain_loadedD [OF l]
  have len: "n < length (heap st)" "0 < length (heap st)" using D(1) by simp_all
  have b: "block_cache (block_store st) (H ! n) = Some n" "block_height (heap st ! n) = of_nat n"
    "block_height (heap st ! 0) = 0"
    using D(5) [of n] D(3) [of n] D(3) [of 0] by simp_all
  have pos: "(0 :: uint64) < of_nat n \<longleftrightarrow> 0 < n"
    using n(1) by (simp add: word_less_nat_alt unat_of_nat)
  let ?st = "if n = 0 then st else st\<lparr>hqc := (n, serialize env qc), b_leaf := n\<rparr>"
  have "update_hqc (app_virtuals env vm await) env n qc st = Inr ?st"
    using len b pos n(2) by (simp add: update_hqc_def deref_def app_virtuals_def Let_def)
  then have "reload_state_from_index (app_virtuals env vm await) env st =
      Inr (?st\<lparr>vheight := ucast (of_nat n :: uint64), b_exec := n, b_lock := n\<rparr>)"
    using len b qc by (simp add: reload_state_from_index_def base_find_block_by_hash_def get_block_def deref_def
        app_virtuals_def)
  then show thesis by (rule that) (use n(2) in simp_all)
qed

text \<open>
  C29 --- Restart. If the index and the files describe a chain of decided blocks, as after a
  commit, then a new process that is initialised from them returns, provided the machine does. It has the whole chain
  in its store, linked, with the right heights and marked as decided; its executed block, its lock
  and its highest certified block are the top of the chain, and the speculation of the machine starts above it. The height
  of its last vote is that of the top of the chain: votes above it are forgotten.
\<close>

theorem restart_restores_chain:
  assumes new: "new_HotstuffApp env cfg rid sk vs cfgs db d = Inr st" and info: "get_info cfg rid = Inr info"
    and entries: "entries = lmdb_cursor env (open_db env db) data_dbi" and log: "log_ok env info d entries"
    and qc: "get_highest_qc env (open_db env db) = Inr qc" "obj_hash qc = last (log_hashes entries)"
    and n: "n = length entries" "n < 2 ^ 64"
    and vm: "vm_init_from_disk vm (new_LogAccessWrapper env info d (open_db env db)) vs = Inr vs'"
  shows "\<exists>st'. app_init_from_disk env vm await st = Inr st' \<and>
    chain_loaded (log_hashes entries) n (heap st') (block_store st') \<and>
    b_exec st' = n \<and> b_lock st' = n \<and> fst (hqc st') = n \<and> vheight st' = ucast (of_nat n :: uint64) \<and>
    initialized (vm_bridge st') \<and> gadget_abs (speculation_map (vm_bridge st')) = (of_nat n, []) \<and>
    vm_instance (vm_interface (vm_bridge st')) = vs'"
proof -
  let ?vt = "app_virtuals env vm await" and ?H = "log_hashes entries"
  obtain base where base: "new_HotstuffAppBase env cfg rid sk db d = Inr base"
    and st: "st = HotstuffAppBase.extend base (HotstuffApp.fields (new_HotstuffVMBridge vs cfgs))"
    using new by (auto simp: new_HotstuffApp_def elim!: bindE_InrE)
  note F = fresh_chain_loaded [OF base]
  let ?st = "st\<lparr>decided_hash_index := open_db env db\<rparr>"
  have f: "chain_loaded ?H 0 (heap ?st) (block_store ?st)" "files ?st = d" "config ?st = cfg" "self_id ?st = rid"
    "fst (hqc ?st) = 0" "vm_bridge ?st = new_HotstuffVMBridge vs cfgs" "decided_hash_index st = db"
    using F by (simp_all add: st HotstuffAppBase.defs HotstuffApp.defs)
  have pre: "log_ok env info (files ?st) entries" "get_info (config ?st) (self_id ?st) = Inr info"
    using log info f by simp_all
  obtain h bs where ld: "foldE (reload_one env) entries (0, ?st) = Inr (of_nat n, ?st\<lparr>heap := h, block_store := bs\<rparr>)"
    "chain_loaded ?H n h bs"
    using reload_entries [OF pre _ f(1)] n(1) by auto
  let ?st1 = "?st\<lparr>heap := h, block_store := bs\<rparr>"
  have top: "obj_hash qc = ?H ! n" using qc(2) n(1) by (simp add: last_conv_nth log_hashes_def)
  obtain st2 where st2: "reload_state_from_index ?vt env ?st1 = Inr st2"
    "heap st2 = h" "block_store st2 = bs" "vm_bridge st2 = new_HotstuffVMBridge vs cfgs" "config st2 = cfg"
    "self_id st2 = rid" "files st2 = d" "decided_hash_index st2 = open_db env db"
    "b_exec st2 = n" "b_lock st2 = n" "fst (hqc st2) = n" "vheight st2 = ucast (of_nat n :: uint64)"
    by (rule reload_state [where st = ?st1 and n = n and H = ?H and qc = qc and env = env])
      (use ld(2) n f qc(1) top in simp_all)
  have "reload_decided_blocks ?vt env ?st = Inr (of_nat n, st2)"
    using ld(1) st2(1) entries by (simp add: reload_decided_blocks_def)
  moreover have "\<exists>br. bridge_init_from_disk vm (new_LogAccessWrapper env info d (open_db env db)) (of_nat n)
      (new_HotstuffVMBridge vs cfgs) = Inr br \<and> initialized br \<and> gadget_abs (speculation_map br) = (of_nat n, []) \<and>
      vm_instance (vm_interface br) = vs'"
    using vm by (simp add: bridge_init_from_disk_def vmci_init_from_disk_def new_HotstuffVMBridge_def
        new_VMControlInterface_def gadget_init_from_disk_def gadget_clear_def new_SpeculativeExecGadget_def
        gadget_abs_def speculated_def)
  ultimately show ?thesis
    using info st2 ld(2) f(7) by (auto simp: app_init_from_disk_def Let_def)
qed

text \<open>The files and the index of a replica that has committed one block of the counting machine.\<close>

definition saved_block :: HotstuffBlockWire where
  "saved_block = \<lparr>header = \<lparr>parent_hash = zero_hash, header_qc = \<lparr>justify = zero_hash, bmp = 0, wire_sigs = []\<rparr>,
     body_hash = []\<rparr>, body = counting_serialize demo_env 1\<rparr>"

definition saved_files :: disk where
  "saved_files = [block_filename (pad32 [1, 0]) (demo_info 0) \<mapsto> xdr_block_to_opaque demo_env saved_block]"

definition saved_index :: demo_db where
  "saved_index = \<lparr>db_data = [(be 8 1, pad32 [1, 0] @ counting_serialize demo_env 1)],
     db_meta = [(qc_key, xdr_qc_to_opaque demo_env \<lparr>justify = pad32 [1, 0], bmp = 0, wire_sigs = []\<rparr>)], db_round = 1\<rparr>"

definition saved_entries :: "(bytes \<times> bytes) list" where
  "saved_entries = [(be 8 1, pad32 [1, 0] @ counting_serialize demo_env 1)]"

lemma demo_lmdb_ops:
  "lmdb_cursor demo_env = (\<lambda>db d. dm_list (demo_db_of db d))" "lmdb_get demo_env = (\<lambda>db d. map_of (demo_db_of db d))"
  "lmdb_open_db demo_env = (\<lambda>name db. db)"
  by (simp_all add: demo_env_def)

lemma saved_index_read:
  "lmdb_cursor demo_env (open_db demo_env saved_index) data_dbi = saved_entries"
  "\<exists>qc. get_highest_qc demo_env (open_db demo_env saved_index) = Inr qc \<and> obj_hash qc = pad32 [1, 0]"
proof -
  show "lmdb_cursor demo_env (open_db demo_env saved_index) data_dbi = saved_entries"
    by (simp add: open_db_def demo_lmdb_ops saved_index_def saved_entries_def demo_db_of_def)
  have q: "xdr_qc_from_opaque demo_env (xdr_qc_to_opaque demo_env q) = Some q" for q
    using demo_xdr_laws unfolding xdr_laws_def by blast
  have "lmdb_get demo_env (open_db demo_env saved_index) metadata_dbi qc_key =
      Some (xdr_qc_to_opaque demo_env \<lparr>justify = pad32 [1, 0], bmp = 0, wire_sigs = []\<rparr>)"
    by (simp add: open_db_def demo_lmdb_ops saved_index_def demo_db_of_def)
  then show "\<exists>qc. get_highest_qc demo_env (open_db demo_env saved_index) = Inr qc \<and> obj_hash qc = pad32 [1, 0]"
    by (simp add: get_highest_qc_def q parse_QuorumCertificate_def Let_def)
qed

lemma length_pad32 [simp]: "length (pad32 bs) = 32"
  by (simp add: pad32_def)

lemma saved_entries_hashes: "log_hashes saved_entries = [zero_hash, pad32 [1, 0]]"
  by (simp add: log_hashes_def saved_entries_def)

lemma saved_load: "load_block demo_env (pad32 [1, 0]) (demo_info 0) saved_files = Inr (Some saved_block)"
proof -
  have "xdr_block_from_opaque demo_env (xdr_block_to_opaque demo_env saved_block) = Some saved_block"
    using demo_xdr_laws unfolding xdr_laws_def by blast
  then show ?thesis by (simp add: load_block_def load_xdr_from_file_def saved_files_def)
qed

lemma head_zero_hash: "head_or 0 zero_hash = 0"
  by code_simp

lemma saved_log_ok: "log_ok demo_env (demo_info 0) saved_files saved_entries"
proof -
  have "hash_header demo_env (header saved_block) = Inr (pad32 [1, 0])"
    using head_zero_hash by (simp add: hash_header_def hash_xdr_def demo_env_def saved_block_def) (simp add: head_or_def)
  moreover have "zero_hash \<noteq> pad32 [1, 0]" using pad32_nonzero [of 1 "[0]"] by auto
  ultimately show ?thesis
    using saved_load unfolding log_ok_def saved_entries_hashes
    by (simp add: saved_entries_def) (simp add: saved_block_def)
qed

lemma saved_machine:
  "vm_init_from_disk demo_vm (new_LogAccessWrapper demo_env (demo_info 0) saved_files (open_db demo_env saved_index))
     \<lparr>vm_state = 0, last_committed_state = 0\<rparr> = Inr \<lparr>vm_state = 1, last_committed_state = 1\<rparr>"
proof -
  have u: "xdr_uint64_from_opaque demo_env (xdr_uint64_to_opaque demo_env 1) = Some 1"
    using demo_xdr_laws unfolding xdr_laws_def by blast
  have "get_hs_hash_and_vm_data (be 8 1, pad32 [1, 0] @ counting_serialize demo_env 1) =
      Inr (pad32 [1, 0], Some (counting_serialize demo_env 1))"
    by (simp add: get_hs_hash_and_vm_data_def get_hash_from_lmdb_value_def VMBlockID_of_bytes_def)
  then show ?thesis
    using u saved_load
    by (simp add: counting_vm_def counting_init_from_disk_def new_LogAccessWrapper_def saved_index_read(1)
        saved_entries_def VMBlockID_bool_def load_vm_block_def load_block_unparsed_def saved_block_def
        CountingVMBlock_of_bytes_def counting_serialize_def counting_exec_block_def counting_log_commitment_def)
qed

theorem restart_restores_chain_witness:
  "\<exists>st st'. new_HotstuffApp demo_env (demo_config 4) 0 [0] \<lparr>vm_state = 0, last_committed_state = 0\<rparr>
       default_HotstuffConfigs saved_index saved_files = Inr st \<and>
     app_init_from_disk demo_env demo_vm (\<lambda>ci. Inr ci) st = Inr st' \<and>
     b_exec st' = 1 \<and> vheight st' = 1 \<and> get_hash (heap st' ! 1) = pad32 [1, 0] \<and>
     vm_instance (vm_interface (vm_bridge st')) = \<lparr>vm_state = 1, last_committed_state = 1\<rparr>"
proof -
  have info: "get_info (demo_config 4) 0 = Inr (demo_info 0)"
    by (rule get_info_demo) (simp add: replica_ids_demo_4)
  obtain st where st: "new_HotstuffApp demo_env (demo_config 4) 0 [0] \<lparr>vm_state = 0, last_committed_state = 0\<rparr>
      default_HotstuffConfigs saved_index saved_files = Inr (st :: (demo_db, CountingVMBlock, CountingVM) HotstuffApp)"
    by (simp add: new_HotstuffApp_def new_HotstuffAppBase_def new_HotstuffCore_def genesis_block_def alloc_block_def
        new_BlockStore_def deref_def info)
  obtain qc where qc: "get_highest_qc demo_env (open_db demo_env saved_index) = Inr qc" "obj_hash qc = pad32 [1, 0]"
    using saved_index_read(2) by blast
  have "obj_hash qc = last (log_hashes saved_entries)" using qc(2) by (simp add: saved_entries_hashes)
  then obtain st' where "app_init_from_disk demo_env demo_vm (\<lambda>ci. Inr ci) st = Inr st'"
    "chain_loaded (log_hashes saved_entries) (length saved_entries) (heap st') (block_store st')"
    "b_exec st' = length saved_entries" "vheight st' = ucast (of_nat (length saved_entries) :: uint64)"
    "vm_instance (vm_interface (vm_bridge st')) = \<lparr>vm_state = 1, last_committed_state = 1\<rparr>"
    using restart_restores_chain [OF st info saved_index_read(1) [symmetric] saved_log_ok qc(1) _ refl _ saved_machine,
        of "\<lambda>ci. Inr ci"] by (auto simp: saved_entries_def)
  moreover have "length saved_entries = 1" by (simp add: saved_entries_def)
  ultimately show ?thesis
    using st chain_loadedD(2) [of "log_hashes saved_entries" 1 "heap st'" "block_store st'" 1]
    by (intro exI conjI) (simp_all add: saved_entries_hashes)
qed

end
