(* ===== verification/Interface.thy ===== *)
theory Interface
  imports Demo_Chain
begin

text \<open>
  The public interface \<open>Hotstuff\<close> (\<^verbatim>\<open>src/include/hotstuff/hotstuff_app.h\<close>), its two implementations with
  their factories (\<^verbatim>\<open>hotstuff_app.cc\<close>), and the pace maker as a client of the interface
  (\<^verbatim>\<open>include/hotstuff/liveness.h\<close>).
\<close>

section \<open>The interface\<close>

text \<open>
  The virtual methods, as functions on the state of an implementation. The methods that are
  not pure throw unless a derived class overrides them.
\<close>

record 's Hotstuff =
  hs_init_clean :: "'s \<Rightarrow> 's result"
  hs_init_from_disk :: "'s \<Rightarrow> 's result"
  hs_put_vm_in_proposer_mode :: "'s \<Rightarrow> 's result"
  hs_proposal_buffer_is_empty :: "'s \<Rightarrow> bool"
  hs_stop_proposals :: "'s \<Rightarrow> 's result"
  hs_do_propose :: "'s \<Rightarrow> (Hash \<times> 's) result"
  hs_do_empty_propose :: "'s \<Rightarrow> (Hash \<times> 's) result"
  hs_add_proposal :: "bytes \<Rightarrow> 's \<Rightarrow> 's result"
  hs_wait_for_new_qc :: "Hash \<Rightarrow> 's \<Rightarrow> (bool \<times> 's) option"
  hs_cancel_wait_for_new_qc :: "'s \<Rightarrow> 's"
  hs_get_config :: "'s \<Rightarrow> ReplicaConfig"
  hs_get_last_proposer :: "'s \<Rightarrow> ReplicaID result"
  hs_get_self_id :: "'s \<Rightarrow> ReplicaID"

definition unimplemented :: "'a result" where
  "unimplemented = Inl (RuntimeError ''unimplemented'')"

definition default_put_vm_in_proposer_mode :: "'s \<Rightarrow> 's result" where
  "default_put_vm_in_proposer_mode st = unimplemented"

definition default_stop_proposals :: "'s \<Rightarrow> 's result" where
  "default_stop_proposals st = unimplemented"

definition default_add_proposal :: "bytes \<Rightarrow> 's \<Rightarrow> 's result" where
  "default_add_proposal proposal st = unimplemented"

section \<open>The two implementations\<close>

definition HotstuffApp_methods ::
  "('bv, 'db, 'tx) env \<Rightarrow> ('vb, 'vs) VMBase \<Rightarrow> ('vb, 'vs) await \<Rightarrow> nat \<Rightarrow>
   ('db, 'vb, 'vs) HotstuffApp Hotstuff" where
  "HotstuffApp_methods env vm await sched =
     \<lparr>hs_init_clean = (\<lambda>st. Inr (app_init_clean env vm st)),
      hs_init_from_disk = app_init_from_disk env vm await,
      hs_put_vm_in_proposer_mode = app_put_vm_in_proposer_mode,
      hs_proposal_buffer_is_empty = app_proposal_buffer_is_empty,
      hs_stop_proposals = (\<lambda>st. Inr (app_stop_proposals st)),
      hs_do_propose = app_do_propose env vm sched,
      hs_do_empty_propose = app_do_empty_propose env vm,
      hs_add_proposal = default_add_proposal,
      hs_wait_for_new_qc = wait_for_new_qc,
      hs_cancel_wait_for_new_qc = cancel_wait_for_new_qc,
      hs_get_config = config,
      hs_get_last_proposer = get_last_proposer,
      hs_get_self_id = self_id\<rparr>"

definition ns_app_do_empty_propose ::
  "('bv, 'db, 'tx) env \<Rightarrow> ('db, 'vs) NonspeculativeHotstuffApp \<Rightarrow>
   (Hash \<times> ('db, 'vs) NonspeculativeHotstuffApp) result" where
  "ns_app_do_empty_propose env = do_empty_propose ns_get_next_vm_block env"

definition ns_app_proposal_buffer_is_empty :: "('db, 'vs) NonspeculativeHotstuffApp \<Rightarrow> bool" where
  "ns_app_proposal_buffer_is_empty st \<longleftrightarrow> ns_proposal_buffer_is_empty (ns_vm_bridge st)"

definition NonspeculativeHotstuffApp_methods ::
  "('bv, 'db, 'tx) env \<Rightarrow> ('vb, 'vs) VMBase \<Rightarrow> ('db, 'vs) NonspeculativeHotstuffApp Hotstuff" where
  "NonspeculativeHotstuffApp_methods env vm =
     \<lparr>hs_init_clean = (\<lambda>st. Inr (ns_app_init_clean env vm st)),
      hs_init_from_disk = ns_app_init_from_disk env vm,
      hs_put_vm_in_proposer_mode = default_put_vm_in_proposer_mode,
      hs_proposal_buffer_is_empty = ns_app_proposal_buffer_is_empty,
      hs_stop_proposals = default_stop_proposals,
      hs_do_propose = ns_app_do_propose env,
      hs_do_empty_propose = ns_app_do_empty_propose env,
      hs_add_proposal = (\<lambda>p st. Inr (ns_app_add_proposal p st)),
      hs_wait_for_new_qc = wait_for_new_qc,
      hs_cancel_wait_for_new_qc = cancel_wait_for_new_qc,
      hs_get_config = config,
      hs_get_last_proposer = get_last_proposer,
      hs_get_self_id = self_id\<rparr>"

text \<open>The factories: an object is its methods together with its state.\<close>

definition make_speculative_hotstuff_instance ::
  "('bv, 'db, 'tx) env \<Rightarrow> ('vb, 'vs) VMBase \<Rightarrow> ('vb, 'vs) await \<Rightarrow> nat \<Rightarrow> ReplicaConfig \<Rightarrow> ReplicaID \<Rightarrow>
   SecretKey \<Rightarrow> 'vs \<Rightarrow> HotstuffConfigs \<Rightarrow> 'db \<Rightarrow> disk \<Rightarrow>
   (('db, 'vb, 'vs) HotstuffApp Hotstuff \<times> ('db, 'vb, 'vs) HotstuffApp) result" where
  "make_speculative_hotstuff_instance env vm await sched cfg rid sk vs cfgs db d =
     bindE (new_HotstuffApp env cfg rid sk vs cfgs db d) (\<lambda>st. Inr (HotstuffApp_methods env vm await sched, st))"

definition make_nonspeculative_hotstuff_instance ::
  "('bv, 'db, 'tx) env \<Rightarrow> ('vb, 'vs) VMBase \<Rightarrow> ReplicaConfig \<Rightarrow> ReplicaID \<Rightarrow> SecretKey \<Rightarrow> 'vs \<Rightarrow> 'db \<Rightarrow> disk \<Rightarrow>
   (('db, 'vs) NonspeculativeHotstuffApp Hotstuff \<times> ('db, 'vs) NonspeculativeHotstuffApp) result" where
  "make_nonspeculative_hotstuff_instance env vm cfg rid sk vs db d =
     bindE (new_NonspeculativeHotstuffApp env cfg rid sk vs db d) (\<lambda>st.
     Inr (NonspeculativeHotstuffApp_methods env vm, st))"

section \<open>PaceMakerWaitQC\<close>

record PaceMakerWaitQC =
  expected_hash :: Hash
  pm_proposer :: ReplicaID

definition new_PaceMakerWaitQC :: "'s Hotstuff \<Rightarrow> 's \<Rightarrow> PaceMakerWaitQC result" where
  "new_PaceMakerWaitQC hs st =
     bindE (hs_get_last_proposer hs st) (\<lambda>p. Inr \<lparr>expected_hash = zero_hash, pm_proposer = p\<rparr>)"

text \<open>The division is by the number of replicas; the method is private and never called.\<close>

definition rotate_proposers :: "'s Hotstuff \<Rightarrow> 's \<Rightarrow> PaceMakerWaitQC \<Rightarrow> PaceMakerWaitQC" where
  "rotate_proposers hs st pm =
     pm\<lparr>pm_proposer := of_nat (unat (pm_proposer pm + 1) mod nreplicas (hs_get_config hs st))\<rparr>"

text \<open>\<open>wait_for_qc\<close> once the wait is over; \<open>None\<close> while it is not.\<close>

definition wait_for_qc ::
  "'s Hotstuff \<Rightarrow> PaceMakerWaitQC \<Rightarrow> 's \<Rightarrow> (PaceMakerWaitQC \<times> 's) result option" where
  "wait_for_qc hs pm st =
     (case hs_wait_for_new_qc hs (expected_hash pm) st of
        None \<Rightarrow> None
      | Some (res, st) \<Rightarrow>
          Some (if \<not> res
                then bindE (hs_get_last_proposer hs st) (\<lambda>p. Inr (pm\<lparr>pm_proposer := p\<rparr>, st))
                else Inr (pm, st)))"

definition should_propose :: "'s Hotstuff \<Rightarrow> PaceMakerWaitQC \<Rightarrow> 's \<Rightarrow> bool" where
  "should_propose hs pm st \<longleftrightarrow> pm_proposer pm = hs_get_self_id hs st"

definition set_self_as_proposer :: "'s Hotstuff \<Rightarrow> PaceMakerWaitQC \<Rightarrow> 's \<Rightarrow> PaceMakerWaitQC" where
  "set_self_as_proposer hs pm st = pm\<lparr>pm_proposer := hs_get_self_id hs st\<rparr>"

definition pm_do_propose ::
  "'s Hotstuff \<Rightarrow> PaceMakerWaitQC \<Rightarrow> 's \<Rightarrow> (PaceMakerWaitQC \<times> 's) result" where
  "pm_do_propose hs pm st =
     (let pm = pm\<lparr>pm_proposer := hs_get_self_id hs st\<rparr> in
      bindE (hs_do_propose hs st) (\<lambda>(hash, st). Inr (pm\<lparr>expected_hash := hash\<rparr>, st)))"

definition pm_do_empty_propose ::
  "'s Hotstuff \<Rightarrow> PaceMakerWaitQC \<Rightarrow> 's \<Rightarrow> (PaceMakerWaitQC \<times> 's) result" where
  "pm_do_empty_propose hs pm st =
     (let pm = pm\<lparr>pm_proposer := hs_get_self_id hs st\<rparr> in
      bindE (hs_do_empty_propose hs st) (\<lambda>(hash, st). Inr (pm\<lparr>expected_hash := hash\<rparr>, st)))"

section \<open>Who proposes next\<close>

text \<open>
  What the pace maker relies on: a call never changes the identity of the replica, a proposal
  returns the hash of the block at the leaf, and waiting reports success only for the expected hash.
\<close>

locale hotstuff_interface =
  fixes hs :: "'s Hotstuff"
    and leaf_hash :: "'s \<Rightarrow> Hash"
    and new_qc :: "'s \<Rightarrow> Hash option"
  assumes propose_self: "hs_do_propose hs st = Inr (h, st') \<Longrightarrow> hs_get_self_id hs st' = hs_get_self_id hs st"
    and propose_hash: "hs_do_propose hs st = Inr (h, st') \<Longrightarrow> h = leaf_hash st'"
    and wait_self: "hs_wait_for_new_qc hs h st = Some (r, st') \<Longrightarrow> hs_get_self_id hs st' = hs_get_self_id hs st"
    and wait_result: "hs_wait_for_new_qc hs h st = Some (r, st') \<Longrightarrow> r \<longleftrightarrow> new_qc st = Some h"
begin

lemma proposing_takes_turn:
  assumes "pm_do_propose hs pm st = Inr (pm', st')"
  shows "should_propose hs pm' st'" "expected_hash pm' = leaf_hash st'"
    "hs_get_self_id hs st' = hs_get_self_id hs st"
proof -
  obtain h where h: "hs_do_propose hs st = Inr (h, st')"
    and pm': "pm' = pm\<lparr>pm_proposer := hs_get_self_id hs st, expected_hash := h\<rparr>"
    using assms by (auto simp: pm_do_propose_def Let_def elim!: bindE_InrE)
  show "should_propose hs pm' st'" "expected_hash pm' = leaf_hash st'" "hs_get_self_id hs st' = hs_get_self_id hs st"
    using propose_self [OF h] propose_hash [OF h] by (simp_all add: pm' should_propose_def)
qed

lemma turn_after_wait:
  assumes "wait_for_qc hs pm st = Some (Inr (pm', st'))"
  shows "should_propose hs pm' st' \<longleftrightarrow>
    (if new_qc st = Some (expected_hash pm) then should_propose hs pm st
     else hs_get_last_proposer hs st' = Inr (hs_get_self_id hs st))"
proof -
  obtain r s where r: "hs_wait_for_new_qc hs (expected_hash pm) st = Some (r, s)"
    using assms by (cases "hs_wait_for_new_qc hs (expected_hash pm) st") (auto simp: wait_for_qc_def)
  show ?thesis
  proof (cases r)
    case True
    then have "pm' = pm" "s = st'" using assms r by (simp_all add: wait_for_qc_def)
    then show ?thesis using wait_result [OF r] wait_self [OF r] True by (simp add: should_propose_def)
  next
    case False
    then obtain p where "hs_get_last_proposer hs s = Inr p" "pm' = pm\<lparr>pm_proposer := p\<rparr>" "s = st'"
      using assms r by (cases "hs_get_last_proposer hs s") (simp_all add: wait_for_qc_def)
    then show ?thesis using wait_result [OF r] wait_self [OF r] False by (simp add: should_propose_def)
  qed
qed

end

lemma insert_block_proposer:
  assumes "insert_block a h bs = Inr (m, h', bs')" "c < length h"
  shows "proposer (h' ! c) = proposer (h ! c)"
  using assms
  by (auto simp: insert_block_def set_parent_def set_justify_def upd_block_def deref_def nth_list_update Let_def
      elim!: bindE_InrE split: option.splits if_splits)

lemma propose_with_body_leaf:
  assumes "propose_with_body env bs st = Inr (hash, st')"
  shows "self_id st' = self_id st" "hash = get_hash (heap st' ! b_leaf st')"
  using assms
  by (auto simp: propose_with_body_def broadcast_proposal_def self_client_propose_def validate_and_add_event_def
      deref_def Let_def elim!: bindE_InrE split: if_splits prod.splits)

lemma get_next_vm_block_self:
  "app_get_next_vm_block vm sched ne t st = Inr (bs, st') \<Longrightarrow> self_id st' = self_id st"
  "ns_get_next_vm_block ne t st2 = Inr (bs, st2') \<Longrightarrow> self_id st2' = self_id st2"
  by (auto simp: app_get_next_vm_block_def ns_get_next_vm_block_def elim!: bindE_InrE)

definition app_leaf_hash :: "('db, 'm) HotstuffCore_scheme \<Rightarrow> Hash" where
  "app_leaf_hash st = get_hash (heap st ! b_leaf st)"

definition app_new_qc :: "('db, 'm) HotstuffAppBase_scheme \<Rightarrow> Hash option" where
  "app_new_qc st = (if cancel_wait st then None else latest_new_qc st)"

lemma wait_for_new_qc_outcome:
  assumes "wait_for_new_qc h st = Some (r, st')"
  shows "self_id st' = self_id st" "r \<longleftrightarrow> app_new_qc st = Some h" "heap st' = heap st" "hqc st' = hqc st"
  using assms by (auto simp: wait_for_new_qc_def app_new_qc_def split: option.splits if_splits)

lemma do_propose_leaf:
  assumes "do_propose gnvb env st = Inr (hash, st')"
    and "\<And>ne t st bs st'. gnvb ne t st = Inr (bs, st') \<Longrightarrow> self_id st' = self_id st"
  shows "self_id st' = self_id st" "hash = app_leaf_hash st'"
proof -
  obtain bs st1 ne t where "gnvb ne t st = Inr (bs, st1)" "propose_with_body env bs st1 = Inr (hash, st')"
    using assms(1) by (auto simp: do_propose_def elim!: bindE_InrE)
  note p = this
  show "self_id st' = self_id st" "hash = app_leaf_hash st'"
    using assms(2) [OF p(1)] propose_with_body_leaf [OF p(2)] by (simp_all add: app_leaf_hash_def)
qed

interpretation spec_hs: hotstuff_interface "HotstuffApp_methods env vm await sched" app_leaf_hash app_new_qc
  for env vm await sched
proof unfold_locales
  fix st st' h r
  let ?hs = "HotstuffApp_methods env vm await sched"
  assume "hs_do_propose ?hs st = Inr (h, st')"
  then have "do_propose (app_get_next_vm_block vm sched) env st = Inr (h, st')"
    by (simp add: HotstuffApp_methods_def app_do_propose_def)
  from do_propose_leaf [OF this get_next_vm_block_self(1)]
  show "hs_get_self_id ?hs st' = hs_get_self_id ?hs st" "h = app_leaf_hash st'"
    by (simp_all add: HotstuffApp_methods_def)
qed (simp_all add: HotstuffApp_methods_def wait_for_new_qc_outcome)

interpretation nonspec_hs: hotstuff_interface "NonspeculativeHotstuffApp_methods env vm" app_leaf_hash app_new_qc
  for env vm
proof unfold_locales
  fix st st' h r
  let ?hs = "NonspeculativeHotstuffApp_methods env vm"
  assume "hs_do_propose ?hs st = Inr (h, st')"
  then have "do_propose ns_get_next_vm_block env st = Inr (h, st')"
    by (simp add: NonspeculativeHotstuffApp_methods_def ns_app_do_propose_def)
  from do_propose_leaf [OF this get_next_vm_block_self(2)]
  show "hs_get_self_id ?hs st' = hs_get_self_id ?hs st" "h = app_leaf_hash st'"
    by (simp_all add: NonspeculativeHotstuffApp_methods_def)
qed (simp_all add: NonspeculativeHotstuffApp_methods_def wait_for_new_qc_outcome)

text \<open>
  C38 --- Who proposes next. A pace maker that has proposed expects a quorum certificate for
  the block it proposed, which is the new leaf. After waiting, during which the other threads run, it proposes
  again exactly if the new certificate is the expected one and nobody cancelled the wait, or if the
  highest certified block is one of its own; otherwise it defers to the proposer of that block.
\<close>

theorem pace_maker_turn:
  assumes "pm_do_propose (HotstuffApp_methods env vm await sched) pm st = Inr (pm1, st1)"
    and "self_id st2 = self_id st1"
    and "wait_for_qc (HotstuffApp_methods env vm await sched) pm1 st2 = Some (Inr (pm2, st3))"
  shows "should_propose (HotstuffApp_methods env vm await sched) pm1 st1 \<and>
    expected_hash pm1 = get_hash (heap st1 ! b_leaf st1) \<and>
    (should_propose (HotstuffApp_methods env vm await sched) pm2 st3 \<longleftrightarrow>
      (\<not> cancel_wait st2 \<and> latest_new_qc st2 = Some (get_hash (heap st1 ! b_leaf st1))) \<or>
      proposer (heap st2 ! fst (hqc st2)) = self_id st)"
proof -
  let ?hs = "HotstuffApp_methods env vm await sched"
  note turn = spec_hs.proposing_takes_turn [OF assms(1)]
  have self: "hs_get_self_id ?hs = self_id" "hs_get_last_proposer ?hs = get_last_proposer"
    "hs_wait_for_new_qc ?hs = wait_for_new_qc"
    by (simp_all add: HotstuffApp_methods_def)
  have again: "should_propose ?hs pm1 st2" using turn(1) assms(2) by (simp add: should_propose_def self)
  obtain r s where w: "wait_for_new_qc (expected_hash pm1) st2 = Some (r, s)"
    using assms(3) by (cases "wait_for_new_qc (expected_hash pm1) st2") (auto simp: wait_for_qc_def self)
  note o = wait_for_new_qc_outcome [OF w]
  have "s = st3" using assms(3) w
    by (cases r; cases "get_last_proposer s") (auto simp: wait_for_qc_def self)
  moreover have "get_last_proposer s = Inr p \<longleftrightarrow> fst (hqc st2) < length (heap st2) \<and> proposer (heap st2 ! fst (hqc st2)) = p" for p
    using o(3,4) by (auto simp: get_last_proposer_def deref_def)
  moreover have "fst (hqc st2) < length (heap st2)" if "\<not> r"
    using that assms(3) w o(3,4) by (auto simp: wait_for_qc_def self get_last_proposer_def deref_def split: if_splits)
  ultimately show ?thesis
    using spec_hs.turn_after_wait [OF assms(3)] again turn assms(2) o(2)
    by (auto simp: self app_leaf_hash_def app_new_qc_def split: if_splits)
qed

abbreviation demo_methods :: "(demo_db, CountingVMBlock, CountingVM) HotstuffApp Hotstuff" where
  "demo_methods \<equiv> HotstuffApp_methods demo_env demo_vm (\<lambda>ci. Inr ci) 0"

definition proposer_state :: "(demo_db, CountingVMBlock, CountingVM) HotstuffApp" where
  "proposer_state = demo_state\<lparr>heap := [new_HotstuffBlock_genesis],
     block_store := \<lparr>block_cache = [zero_hash \<mapsto> 0], gc_collector = new_BlockGarbageCollector\<rparr>\<rparr>"

lemma demo_proposes:
  "\<exists>pm1 st1. pm_do_propose demo_methods \<lparr>expected_hash = zero_hash, pm_proposer = 3\<rparr> proposer_state = Inr (pm1, st1) \<and>
     cancel_wait st1 = False \<and> self_id st1 = 0"
  by (simp add: pm_do_propose_def HotstuffApp_methods_def app_do_propose_def do_propose_def deref_def
      proposer_state_def demo_state_def app_get_next_vm_block_def make_empty_proposal_def init_guard_def gadget_lock_def
      add_height_pair_def gadget_unlock_def bridge_init_clean_def new_HotstuffVMBridge_def new_SpeculativeExecGadget_def
      propose_with_body_def mint_block_def hash_body_def hash_header_def hash_xdr_def demo_env_simps new_HotstuffBlock_def
      alloc_block_def insert_block_def nth_append get_hash_def get_justify_hash_def get_justify_qc_def
      parse_QuorumCertificate_def get_parent_hash_def set_parent_def set_justify_def upd_block_def
      MissingDependencies_bool_def broadcast_proposal_def self_client_propose_def validate_and_add_event_def
      new_HotstuffBlock_genesis_def new_QuorumCertificate_def UNKNOWN_REPLICA_def numeral_3_eq_3 emplace_def Let_def
      add_event_def new_GenericEventQueue_def cong: bindE_first)

theorem pace_maker_turn_witness:
  "\<exists>pm1 st1 pm2 st3. pm_do_propose demo_methods \<lparr>expected_hash = zero_hash, pm_proposer = 3\<rparr> proposer_state = Inr (pm1, st1) \<and>
     wait_for_qc demo_methods pm1 (st1\<lparr>latest_new_qc := Some (expected_hash pm1)\<rparr>) = Some (Inr (pm2, st3)) \<and>
     should_propose demo_methods pm2 st3"
proof -
  obtain pm1 st1 where p: "pm_do_propose demo_methods \<lparr>expected_hash = zero_hash, pm_proposer = 3\<rparr> proposer_state = Inr (pm1, st1)"
    "cancel_wait st1 = False"
    using demo_proposes by blast
  let ?st2 = "st1\<lparr>latest_new_qc := Some (expected_hash pm1)\<rparr>"
  have w: "wait_for_qc demo_methods pm1 ?st2 = Some (Inr (pm1, ?st2\<lparr>latest_new_qc := None\<rparr>))"
    using p(2) by (simp add: wait_for_qc_def HotstuffApp_methods_def wait_for_new_qc_def)
  have "should_propose demo_methods pm1 (?st2\<lparr>latest_new_qc := None\<rparr>)"
    using pace_maker_turn [OF p(1) _ w] p(2) by simp
  then show ?thesis using p(1) w by blast
qed

end
