(* ===== verification/Spec2Isabelle.thy ===== *)
theory Spec2Isabelle
  imports ReplicaProps Demo_System Fork Outbound Execution Restart Interface
begin

text \<open>
  A verification development for the HotStuff library, a C++ implementation of Byzantine fault
  tolerant state machine replication.

  \<^bold>\<open>The program.\<close> Each process is a replica. The consensus core (\<^verbatim>\<open>src/hotstuff/consensus.cc\<close>) receives
  votes and proposals, keeps the highest certified block, the lock and the last executed block,
  and commits the bottom of a three-chain. Around it, \<open>HotstuffAppBase\<close> (\<^verbatim>\<open>hotstuff.cc\<close>) owns the store
  of blocks, a queue of events for the core, a queue of events from the network, a manager
  that fetches missing blocks, and one client for each peer. Blocks are written to files, decided
  blocks are recorded in an LMDB index. The two derived applications hand decided blocks to a virtual
  machine, either through a bridge that executes proposals speculatively or through one that does
  not. Every queue, client, fetch worker, collector and virtual machine has its own thread.

  \<^bold>\<open>The model.\<close> The definitions follow the source one method at a time. Exceptions, null
  pointers, dangling iterators, self-deadlocks and loops that do not end are values of the type \<open>error\<close>;
  a method that can fail returns a \<open>result\<close>. Blocks are shared through \<open>std::shared_ptr\<close>, so they live in
  an explicit heap and a pointer is an address. A class with base classes is an extensible record and
  its virtual methods are a record of functions, \<open>core_virtuals\<close>. Machine integers keep their width: heights
  are 64-bit words and \<open>vheight\<close> is a 32-bit word, as in the code. A thread is its loop body, one
  atomic step under the locks it takes; a replica is the transition system \<open>replica_step\<close> over the steps of
  its threads and the messages of its peers, and \<open>system_reach\<close> composes the correct replicas with an
  adversary that speaks for the others.

  \<^bold>\<open>Code outside of the repository.\<close> libsodium, xdrpp, LMDB, \<open>utils::BitVector\<close>, the
  big-endian helpers and the outcome of system calls are the fields of the record \<open>env\<close>;
  \<open>utils::AsyncWorker\<close> is the parameter \<open>await\<close>. What theorems need of them are the named predicates of
  \<open>Externals\<close> and \<open>VMControl\<close>, each the documented behaviour of one library. \<open>Demo_Env\<close> defines an instance that
  satisfies all of them; the examples next to the theorems evaluate on it.

  \<^bold>\<open>The theories\<close>, in the order in which they build on each other. Paths are relative to \<^verbatim>\<open>src/hotstuff\<close>.
  \<^item> \<open>Prelude\<close>: machine types, \<open>result\<close> and its combinators, \<open>std::map\<close> as a list sorted by key.
  \<^item> \<open>Externals\<close>, \<open>Demo_Env\<close>: wire structures (\<^verbatim>\<open>xdr/hotstuff.x\<close>), the record \<open>env\<close>, its laws, and the instance.
  \<^item> \<open>Config\<close>: \<^verbatim>\<open>config/replica_config.cc\<close>. Two quorums share a correct replica, for how many faults this holds.
  \<^item> \<open>Certs\<close>: \<^verbatim>\<open>crypto/certs.cc\<close>. Certificates survive the wire; \<open>verify\<close> is sound and complete, and when it throws.
  \<^item> \<open>Block\<close>, \<open>Persist\<close>: \<^verbatim>\<open>block.cc\<close>, \<^verbatim>\<open>block_storage/io_utils.cc\<close>. Saving and loading are inverse and
    \<open>write_to_disk\<close> leaves a whole chain on disk.
  \<^item> \<open>BlockStorage\<close>, \<open>Chain\<close>: \<^verbatim>\<open>block_storage/block_store.cc\<close>, \<^verbatim>\<open>garbage_collector.cc\<close>. Insertion keeps the block
    tree well-formed and reports missing blocks; the collector flushes what it should.
  \<^item> \<open>Index\<close>: \<^verbatim>\<open>lmdb.cc\<close>, \<^verbatim>\<open>log_access_wrapper.cc\<close>. What a commit stores is read back.
  \<^item> \<open>Events\<close>, \<open>Fetch\<close>: \<^verbatim>\<open>event.cc\<close>, \<^verbatim>\<open>network_event.cc\<close>, \<^verbatim>\<open>generic_event_queue.h\<close>, \<^verbatim>\<open>block_storage/block_fetch_*.cc\<close>.
    The queue is a FIFO queue; the fetch manager refines a map from hashes to waiting events.
  \<^item> \<open>SpecGadget\<close>, \<open>VMControl\<close>, \<open>VMBridge\<close>: \<^verbatim>\<open>vm/*\<close> and \<^verbatim>\<open>examples/vm/counting_vm.cc\<close>. The speculation list
    refines a queue above the committed height.
  \<^item> \<open>RpcClient\<close>, \<open>Outbound\<close>: \<^verbatim>\<open>nonblocking_rpc_client.h\<close> and its users. Opening a connection ends at the first
    success, a call reports what happened, and a peer gets the messages in order, also when the worker is
    told to stop.
  \<^item> \<open>VMRuns\<close>: what the worker of a machine keeps invariant and leaves behind, what a machine that only follows
    executes, and where speculation deadlocks.
  \<^item> \<open>Consensus\<close>, \<open>CoreSteps\<close>, \<open>CoreInv\<close>: \<^verbatim>\<open>consensus.cc\<close>; each handler, its loops, its errors, and the invariant of
    the core. The locales \<open>core_contract\<close>, \<open>core_frame\<close> and \<open>core_relation\<close> say what the core relies on of its virtual
    methods; they are interpreted for both applications.
  \<^item> \<open>AppBase\<close>, \<open>App\<close>: \<^verbatim>\<open>hotstuff.cc\<close>, \<^verbatim>\<open>hotstuff.h\<close>, \<^verbatim>\<open>protocol/*\<close> and the two event queues.
  \<^item> \<open>Interface\<close>: the public interface \<^verbatim>\<open>hotstuff_app.h\<close>, its two implementations, and the pace maker of \<^verbatim>\<open>liveness.h\<close> as a
    client of it (locale \<open>hotstuff_interface\<close>): who proposes next.
  \<^item> \<open>Replica\<close>, \<open>ReplicaInv\<close>, \<open>ReplicaSteps\<close>, \<open>ReplicaThreads\<close>: the replica as a transition system and its
    invariant, by one preservation lemma for each kind of step (locale \<open>app_contract\<close>).
  \<^item> \<open>ReplicaProps\<close>, \<open>Demo_Chain\<close>: the theorems on one replica: commit rule, voting rule, increasing votes,
    monotone lock, no failing proposal, and a replica in mid-run as an example.
  \<^item> \<open>Execution\<close>: a commit makes the machine execute exactly the newly decided blocks, for both applications.
  \<^item> \<open>Restart\<close>: a process initialised from disk gets the decided chain back.
  \<^item> \<open>Agreement\<close>: the safety argument over hashes and a history of votes, without any code.
  \<^item> \<open>Evidence\<close>, \<open>EvidenceCore\<close>, \<open>EvidenceSteps\<close>: everything a replica acts on is backed by certificates
    and by votes of the history.
  \<^item> \<open>Votes\<close>: the votes a replica signs, read off the messages and events its steps emit, and that these are
    exactly the votes the rule of \<open>on_receive_proposal\<close> asks for.
  \<^item> \<open>System\<close>, \<open>Safety\<close>, \<open>Demo_System\<close>: many replicas, the invariant of the system, and a run of two replicas that
    commits a block, for both applications. The history of the system records the votes that
    correct replicas emit; the limits a theorem puts on the runs are a parameter of \<open>system_reach\<close>.
  \<^item> \<open>Fork\<close>: a run of two correct replicas that decide conflicting blocks, because a block need not
    extend the block its certificate is for.

  \<^bold>\<open>Bounds and fuel.\<close> The loops along parent pointers are \<open>partial_function (option)\<close>; they are shown to end on
  every well-formed heap, with no bound on the chain. Recursions over a chain that the code
  writes as recursive calls use the length of the heap as fuel, which exceeds the length of every chain
  in it. Agreement assumes that heights stay below \<^term>\<open>2 ^ 32\<close>, which \<open>vheight\<close> needs, that the hash
  function has no collision on the blocks in play, and that a block extends the block its
  certificate is for, which nothing in the code checks; \<open>Fork\<close> shows that agreement fails without it. Attempts
  to connect are a list of outcomes of any length, and the loop is shown to end at the first success in it.

  \<^bold>\<open>Taken to succeed.\<close> A file that can be opened for writing gets the whole content; the code does not
  check the results of \<open>fwrite\<close> and \<open>fsync\<close>. The machine is a parameter whose \<open>exec_block\<close> and \<open>propose\<close> return a
  state, so exceptions of these two are not expressed. The threads of a replica run as long as the
  replica: \<open>done_flag\<close> is followed in the client worker (\<open>Outbound\<close>), in the connection (\<open>RpcClient\<close>) and at the start
  of the operations of the machine's worker, but not when it is set while \<open>get_proposal\<close> waits.

  \<^bold>\<open>Not modelled.\<close> Sockets, listeners and thread shutdown (the TCP part of \<^verbatim>\<open>hotstuff_server.h\<close> and
  \<^verbatim>\<open>block_fetch_server.h\<close>, \<open>tcp_connect\<close>) are input and output of the process: the outcome of a connection attempt and of a
  remote call is an input of the model. Creating data directories is left to the operating system. The generated
  marshalling code, the logging macros, \<open>sodium_init\<close> and the tests have no state that the theorems could speak of. Data
  races, memory that is freed, wake-ups of condition variables and the fairness of the scheduler are outside of the model.
\<close>

section \<open>Agreement\<close>

text \<open>
  C1 --- Agreement. Any number of replicas run \<open>HotstuffApp\<close> from a clean start with the same
  configuration, fewer than a third of them are faulty, and the faulty ones send arbitrary
  messages but cannot forge signatures of correct ones: a signature that checks is on a hash that
  the correct replica has signed, that is, for which it has emitted a vote message or a vote event.
  In every state the system reaches, with any interleaving of the threads and with exceptions
  stopping replicas at any time, any two blocks that two correct replicas have decided are on one
  chain: one of them is, by its hash, an ancestor of the other or the same block. This is about the
  runs within \<open>safe_limits\<close>, where in the heaps of the correct replicas heights stay below \<open>2 ^ 32\<close> and
  the certificate of each linked block is for one of its proper ancestors, and it assumes that no
  two linked blocks have the same hash. The code checks none of the three.
\<close>

theorem agreement:
  assumes "add_replicas infos new_ReplicaConfig = Inr cfg0" "cfg = finish_init cfg0"
    and "honest \<subseteq> replica_ids cfg" "3 * card (replica_ids cfg - honest) < nreplicas cfg"
    and "\<And>r. r \<in> honest \<Longrightarrow> new_HotstuffApp env cfg r (sk r) (vs r) cfgs (db r) (d r) = Inr (st0 r)"
    and "system_reach (app_virtuals env vm await) (app_get_next_vm_block vm) (app_local_step vm) env safe_limits cfg honest
      (\<lambda>r. app_init_clean env vm (st0 r)) s"
    and "no_collisions (known_tree honest s)"
    and "r \<in> honest" "a < length (heap (nodes s r))" "decided (heap (nodes s r) ! a)"
    and "r' \<in> honest" "a' < length (heap (nodes s r'))" "decided (heap (nodes s r') ! a')"
  shows "same_chain (heap (nodes s r)) a (heap (nodes s r')) a'"
proof -
  have "config_ready cfg" using assms(1,2) config_ready_finish_init config_wf_add_replicas config_wf_new by blast
  then have meet: "quorums_meet cfg honest" using assms(4) by (rule quorums_meet_few_faulty)
  have "system_inv cfg honest s"
    by (rule spec_app.system_reach_inv [OF assms(6,3)]) (rule new_HotstuffApp_node_ok [OF assms(5)])
  from system_agreement [OF meet this assms(7,8,11,9,10,12,13)] show ?thesis .
qed

theorem agreement_witness:
  "\<exists>s. pair_reach safe_limits s \<and> decided (heap (nodes s 0) ! 1) \<and> decided (heap (nodes s 1) ! 1) \<and>
     same_chain (heap (nodes s 0)) 1 (heap (nodes s 1)) 1"
proof -
  obtain s where s: "pair_reach safe_limits s" "no_collisions (known_tree {0, 1} s)"
    "length (heap (nodes s 0)) = 5" "length (heap (nodes s 1)) = 5"
    "decided (heap (nodes s 0) ! 1)" "decided (heap (nodes s 1) ! 1)"
    by (rule demo_pair)
  have "same_chain (heap (nodes s 0)) 1 (heap (nodes s 1)) 1"
    by (rule agreement [OF pair_config_built(1,2) _ _ pair_app_new s(1,2)])
      (use s pair_config_built(3,4) in simp_all)
  then show ?thesis using s by blast
qed

text \<open>
  C2 --- Agreement for the application without speculation, under the same conditions: fewer than a
  third faulty, unforgeable signatures, runs within \<open>safe_limits\<close>, and no two linked blocks with the same
  hash.
\<close>

theorem nonspec_agreement:
  assumes "add_replicas infos new_ReplicaConfig = Inr cfg0" "cfg = finish_init cfg0"
    and "honest \<subseteq> replica_ids cfg" "3 * card (replica_ids cfg - honest) < nreplicas cfg"
    and "\<And>r. r \<in> honest \<Longrightarrow> new_NonspeculativeHotstuffApp env cfg r (sk r) (vs r) (db r) (d r) = Inr (st0 r)"
    and "system_reach (ns_virtuals env vm) (\<lambda>_. ns_get_next_vm_block) ns_local_step env safe_limits cfg honest
      (\<lambda>r. ns_app_init_clean env vm (st0 r)) s"
    and "no_collisions (known_tree honest s)"
    and "r \<in> honest" "a < length (heap (nodes s r))" "decided (heap (nodes s r) ! a)"
    and "r' \<in> honest" "a' < length (heap (nodes s r'))" "decided (heap (nodes s r') ! a')"
  shows "same_chain (heap (nodes s r)) a (heap (nodes s r')) a'"
proof -
  have "config_ready cfg" using assms(1,2) config_ready_finish_init config_wf_add_replicas config_wf_new by blast
  then have meet: "quorums_meet cfg honest" using assms(4) by (rule quorums_meet_few_faulty)
  have "system_inv cfg honest s"
    by (rule nonspec_app.system_reach_inv [OF assms(6,3)]) (rule new_NonspeculativeHotstuffApp_node_ok [OF assms(5)])
  from system_agreement [OF meet this assms(7,8,11,9,10,12,13)] show ?thesis .
qed

theorem nonspec_agreement_witness:
  "\<exists>s. ns_pair_reach safe_limits s \<and> decided (heap (nodes s 0) ! 1) \<and> decided (heap (nodes s 1) ! 1) \<and>
     same_chain (heap (nodes s 0)) 1 (heap (nodes s 1)) 1"
proof -
  obtain s where s: "ns_pair_reach safe_limits s" "no_collisions (known_tree {0, 1} s)"
    "length (heap (nodes s 0)) = 5" "length (heap (nodes s 1)) = 5"
    "decided (heap (nodes s 0) ! 1)" "decided (heap (nodes s 1) ! 1)"
    by (rule ns_demo_pair)
  have "same_chain (heap (nodes s 0)) 1 (heap (nodes s 1)) 1"
    by (rule nonspec_agreement [OF pair_config_built(1,2) _ _ pair_ns_app_new s(1,2)])
      (use s pair_config_built(3,4) in simp_all)
  then show ?thesis using s by blast
qed

end
